(* ===== verification/Star_Prelude.thy ===== *)
theory Star_Prelude
  imports Main "HOL-Library.Word"
begin

text \<open>
  The prelude: the machine integers of StarSocketServer.h (LP64), the ways in which C code can
  stop, bounded memory (buffers and arrays), the little-endian codecs of integers in memory, and
  the lemma collections and locales that the components share.
\<close>

unbundle bit_operations_syntax

section \<open>Machine integers\<close>

text \<open>
  The 64-bit branch of the typedefs of StarSocketServer.h. The signed types are words read
  with \<^const>\<open>sint\<close>.
\<close>

type_synonym u8 = "8 word"
type_synonym u16 = "16 word"
type_synonym s16 = "16 word"
type_synonym u32 = "32 word"
type_synonym s32 = "32 word"
type_synonym u64 = "64 word"

lemma xor_zero_iff: "a XOR b = 0 \<longleftrightarrow> a = b" for a b :: "'a::len word"
  by (auto simp: bit_eq_iff bit_xor_iff)

lemma xor_right_cancel: "a XOR c = b XOR c \<longleftrightarrow> a = b" for a b c :: "'a::len word"
  by (auto simp: bit_eq_iff bit_xor_iff)

lemma xor_left_cancel: "c XOR a = c XOR b \<longleftrightarrow> a = b" for a b c :: "'a::len word"
  by (auto simp: bit_eq_iff bit_xor_iff)

section \<open>Results\<close>

text \<open>
  C code that does not go on: it waits for ever on the environment or on itself, or it reads or
  writes outside an object, follows a null pointer, copies between overlapping ranges with
  \<open>memcpy\<close>, or locks a mutex it already holds.
  Everything else is a value.
\<close>

datatype stop = Blocked | OutOfBounds | NullDeref | Overlap | Deadlock

type_synonym 'a result = "stop + 'a"

fun bindR :: "'a result \<Rightarrow> ('a \<Rightarrow> 'b result) \<Rightarrow> 'b result" where
  "bindR (Inl e) f = Inl e"
| "bindR (Inr x) f = f x"

lemma bindR_Inr_iff: "bindR m f = Inr y \<longleftrightarrow> (\<exists>x. m = Inr x \<and> f x = Inr y)"
  by (cases m) auto

lemma bindR_Inl_iff: "bindR m f = Inl e \<longleftrightarrow> m = Inl e \<or> (\<exists>x. m = Inr x \<and> f x = Inl e)"
  by (cases m) auto

lemma bindR_return [simp]: "bindR m Inr = m"
  by (cases m) auto

lemma bindR_assoc: "bindR (bindR m f) g = bindR m (\<lambda>x. bindR (f x) g)"
  by (cases m) auto

lemma bindR_cong [fundef_cong]:
  "m = m' \<Longrightarrow> (\<And>x. m' = Inr x \<Longrightarrow> f x = f' x) \<Longrightarrow> bindR m f = bindR m' f'"
  by (cases m') auto

text \<open>
  What holds of the value of a computation that goes on; the rules walk through its text and
  collect the equations on the way.
\<close>

definition ensures :: "'a result \<Rightarrow> ('a \<Rightarrow> bool) \<Rightarrow> bool" where
  "ensures m Q \<longleftrightarrow> (\<forall>x. m = Inr x \<longrightarrow> Q x)"

named_theorems ensures_rules \<open>one rule per construct of the handlers\<close>

lemma ensuresD: "ensures m Q \<Longrightarrow> m = Inr x \<Longrightarrow> Q x"
  by (simp add: ensures_def)

lemma ensuresI: "(\<And>x. m = Inr x \<Longrightarrow> Q x) \<Longrightarrow> ensures m Q"
  by (simp add: ensures_def)

lemma ensures_bind [ensures_rules]:
  "(\<And>x. m = Inr x \<Longrightarrow> ensures (f x) Q) \<Longrightarrow> ensures (bindR m f) Q"
  by (auto simp: ensures_def bindR_Inr_iff)

lemma ensures_Inl [ensures_rules]: "ensures (Inl e) Q"
  by (simp add: ensures_def)

lemma ensures_Inr [ensures_rules]: "Q x \<Longrightarrow> ensures (Inr x) Q"
  by (simp add: ensures_def)

lemma ensures_if [ensures_rules]:
  "(b \<Longrightarrow> ensures m Q) \<Longrightarrow> (\<not> b \<Longrightarrow> ensures n Q) \<Longrightarrow> ensures (if b then m else n) Q"
  by simp

lemma ensures_option [ensures_rules]:
  "(v = None \<Longrightarrow> ensures m Q) \<Longrightarrow> (\<And>x. v = Some x \<Longrightarrow> ensures (f x) Q) \<Longrightarrow>
    ensures (case v of None \<Rightarrow> m | Some x \<Rightarrow> f x) Q"
  by (cases v) simp_all

lemma ensures_prod [ensures_rules]:
  "(\<And>a b. p = (a, b) \<Longrightarrow> ensures (f a b) Q) \<Longrightarrow> ensures (case p of (a, b) \<Rightarrow> f a b) Q"
  by (cases p) simp

text \<open>Running a fallible step over the elements of a list, in order.\<close>

fun foldR :: "('s \<Rightarrow> 'a \<Rightarrow> 's result) \<Rightarrow> 's \<Rightarrow> 'a list \<Rightarrow> 's result" where
  "foldR f s [] = Inr s"
| "foldR f s (x # xs) = bindR (f s x) (\<lambda>s'. foldR f s' xs)"

lemma foldR_append: "foldR f s (xs @ ys) = bindR (foldR f s xs) (\<lambda>s'. foldR f s' ys)"
  by (induction xs arbitrary: s) (auto simp: bindR_assoc)

lemma foldR_each: "foldR f s xs = Inr s' \<Longrightarrow> x \<in> set xs \<Longrightarrow> \<exists>a b. f a x = Inr b"
  by (induction xs arbitrary: s) (auto simp: bindR_Inr_iff)

lemma foldR_invariant:
  assumes "\<And>s x s'. f s x = Inr s' \<Longrightarrow> I s \<Longrightarrow> I s'" and "foldR f s xs = Inr s'" and "I s"
  shows "I s'"
  using assms(2,3) by (induction xs arbitrary: s) (auto simp: bindR_Inr_iff intro: assms(1))

section \<open>Bounded memory\<close>

named_theorems mem_simps \<open>reads and writes of buffers\<close>

definition load :: "'a list \<Rightarrow> nat \<Rightarrow> nat \<Rightarrow> 'a list result" where
  "load buf off n = (if off + n \<le> length buf then Inr (take n (drop off buf)) else Inl OutOfBounds)"

definition store :: "'a list \<Rightarrow> nat \<Rightarrow> 'a list \<Rightarrow> 'a list result" where
  "store buf off bs =
     (if off + length bs \<le> length buf
      then Inr (take off buf @ bs @ drop (off + length bs) buf) else Inl OutOfBounds)"

lemma load_Inr_iff:
  "load buf off n = Inr bs \<longleftrightarrow> off + n \<le> length buf \<and> bs = take n (drop off buf)"
  by (auto simp: load_def)

lemma store_Inr_iff:
  "store buf off bs = Inr b \<longleftrightarrow>
     off + length bs \<le> length buf \<and> b = take off buf @ bs @ drop (off + length bs) buf"
  by (auto simp: store_def)

lemma load_ok [mem_simps]: "off + n \<le> length buf \<Longrightarrow> load buf off n = Inr (take n (drop off buf))"
  by (simp add: load_def)

lemma load_length: "load buf off n = Inr bs \<Longrightarrow> length bs = n"
  by (auto simp: load_Inr_iff)

lemma store_length: "store buf off bs = Inr b \<Longrightarrow> length b = length buf"
  by (auto simp: store_Inr_iff)

lemma store_total: "off + length bs \<le> length buf \<Longrightarrow> \<exists>b. store buf off bs = Inr b"
  by (simp add: store_def)

lemma load_store_same:
  "store buf off bs = Inr b \<Longrightarrow> n = length bs \<Longrightarrow> load b off n = Inr bs"
  by (auto simp: store_Inr_iff load_def)

lemma store_nth:
  assumes "store buf off bs = Inr b" and "i < length buf"
  shows "b ! i = (if off \<le> i \<and> i < off + length bs then bs ! (i - off) else buf ! i)"
  using assms by (auto simp: store_Inr_iff nth_append)

lemma load_nth: "load buf off n = Inr bs \<Longrightarrow> i < n \<Longrightarrow> bs ! i = buf ! (off + i)"
  by (auto simp: load_Inr_iff)

lemma load_cong:
  assumes "length b = length buf" and "\<And>i. off \<le> i \<Longrightarrow> i < off + n \<Longrightarrow> b ! i = buf ! i"
  shows "load b off n = load buf off n"
  using assms by (auto simp: load_def intro!: nth_equalityI)

lemma load_store_other:
  assumes "store buf off bs = Inr b" and "o2 + n \<le> off \<or> off + length bs \<le> o2"
  shows "load b o2 n = load buf o2 n"
proof (cases "o2 + n \<le> length buf")
  case True
  show ?thesis
  proof (rule load_cong)
    show "length b = length buf" using assms(1) by (rule store_length)
    fix i assume "o2 \<le> i" and "i < o2 + n"
    then have "i < length buf" and "\<not> (off \<le> i \<and> i < off + length bs)"
      using True assms(2) by linarith+
    then show "b ! i = buf ! i"
      by (simp only: store_nth [OF assms(1)] if_False)
  qed
next
  case False
  with assms(1) show ?thesis by (simp add: load_def store_length)
qed

lemma load_append:
  assumes "load buf off n = Inr xs" and "load buf (off + n) m = Inr ys"
  shows "load buf off (n + m) = Inr (xs @ ys)"
  using assms by (auto simp: load_Inr_iff take_add add.commute [of n off])

lemma load_prefix:
  assumes "load buf off n = Inr bs" and "m \<le> n"
  shows "load buf off m = Inr (take m bs)"
  using assms by (auto simp: load_Inr_iff min_def)

lemma load_within:
  assumes "load buf off n = Inr bs" and "a + m \<le> n"
  shows "load buf (off + a) m = Inr (take m (drop a bs))"
  using assms by (auto simp: load_Inr_iff drop_take min_def add.commute)

text \<open>\<open>memcpy\<close> between two ranges of one buffer, which must not overlap.\<close>

definition memcpy_within :: "'a list \<Rightarrow> nat \<Rightarrow> nat \<Rightarrow> nat \<Rightarrow> 'a list result" where
  "memcpy_within buf dst src n =
     (if dst + n \<le> src \<or> src + n \<le> dst
      then bindR (load buf src n) (\<lambda>bs. store buf dst bs) else Inl Overlap)"

text \<open>Arrays indexed by a C \<open>int\<close>.\<close>

definition get_at :: "'a list \<Rightarrow> int \<Rightarrow> 'a result" where
  "get_at xs i = (if 0 \<le> i \<and> i < int (length xs) then Inr (xs ! nat i) else Inl OutOfBounds)"

definition set_at :: "'a list \<Rightarrow> int \<Rightarrow> 'a \<Rightarrow> 'a list result" where
  "set_at xs i v = (if 0 \<le> i \<and> i < int (length xs) then Inr (xs[nat i := v]) else Inl OutOfBounds)"

lemma get_at_nat [mem_simps]: "i < length xs \<Longrightarrow> get_at xs (int i) = Inr (xs ! i)"
  by (simp add: get_at_def)

lemma set_at_nat [mem_simps]: "i < length xs \<Longrightarrow> set_at xs (int i) v = Inr (xs[i := v])"
  by (simp add: set_at_def)

lemma set_at_length: "set_at xs i v = Inr ys \<Longrightarrow> length ys = length xs"
  by (auto simp: set_at_def split: if_splits)

lemma get_at_Inr_iff: "get_at xs i = Inr v \<longleftrightarrow> 0 \<le> i \<and> i < int (length xs) \<and> v = xs ! nat i"
  by (auto simp: get_at_def)

lemma set_at_Inr_iff:
  "set_at xs i v = Inr ys \<longleftrightarrow> 0 \<le> i \<and> i < int (length xs) \<and> ys = xs[nat i := v]"
  by (auto simp: set_at_def)

section \<open>Integers in memory\<close>

text \<open>The machine is little-endian: the low byte comes first.\<close>

definition le16 :: "u16 \<Rightarrow> u8 list" where
  "le16 w = [ucast w, ucast (drop_bit 8 w)]"

definition un16 :: "u8 list \<Rightarrow> u16" where
  "un16 bs = ucast (bs ! 0) OR push_bit 8 (ucast (bs ! 1))"

definition le32 :: "u32 \<Rightarrow> u8 list" where
  "le32 w = [ucast w, ucast (drop_bit 8 w), ucast (drop_bit 16 w), ucast (drop_bit 24 w)]"

definition un32 :: "u8 list \<Rightarrow> u32" where
  "un32 bs = ucast (bs ! 0) OR push_bit 8 (ucast (bs ! 1))
     OR push_bit 16 (ucast (bs ! 2)) OR push_bit 24 (ucast (bs ! 3))"

definition rd16 :: "u8 list \<Rightarrow> nat \<Rightarrow> u16 result" where
  "rd16 buf off = bindR (load buf off 2) (\<lambda>bs. Inr (un16 bs))"

definition wr16 :: "u8 list \<Rightarrow> nat \<Rightarrow> u16 \<Rightarrow> u8 list result" where
  "wr16 buf off w = store buf off (le16 w)"

definition rd32 :: "u8 list \<Rightarrow> nat \<Rightarrow> u32 result" where
  "rd32 buf off = bindR (load buf off 4) (\<lambda>bs. Inr (un32 bs))"

definition wr32 :: "u8 list \<Rightarrow> nat \<Rightarrow> u32 \<Rightarrow> u8 list result" where
  "wr32 buf off w = store buf off (le32 w)"

text \<open>
  The contract of an integer codec: a fixed width and a left inverse. What a component needs of
  its reads and writes of fields follows from it once: a read returns the last write, and reads
  and writes elsewhere do not interfere.
\<close>

locale field_codec =
  fixes enc :: "'v \<Rightarrow> u8 list"
    and dec :: "u8 list \<Rightarrow> 'v"
    and width :: nat
    and rd :: "u8 list \<Rightarrow> nat \<Rightarrow> 'v result"
    and wr :: "u8 list \<Rightarrow> nat \<Rightarrow> 'v \<Rightarrow> u8 list result"
  assumes enc_length: "length (enc v) = width"
    and dec_enc: "dec (enc v) = v"
    and rd_eq: "rd buf off = bindR (load buf off width) (\<lambda>bs. Inr (dec bs))"
    and wr_eq: "wr buf off v = store buf off (enc v)"
begin

lemma wr_total: "off + width \<le> length buf \<Longrightarrow> \<exists>b. wr buf off v = Inr b"
  by (simp add: wr_eq store_total enc_length)

lemma wr_length: "wr buf off v = Inr b \<Longrightarrow> length b = length buf"
  by (simp add: wr_eq store_length)

lemma wr_bound: "wr buf off v = Inr b \<Longrightarrow> off + width \<le> length buf"
  by (simp add: wr_eq store_Inr_iff enc_length)

lemma rd_wr: "wr buf off v = Inr b \<Longrightarrow> rd b off = Inr v"
  by (simp add: wr_eq rd_eq load_store_same enc_length dec_enc)

lemma wr_load: "wr buf off v = Inr b \<Longrightarrow> load b off width = Inr (enc v)"
  by (simp add: wr_eq load_store_same enc_length)

lemma rd_load: "load buf off width = Inr (enc v) \<Longrightarrow> rd buf off = Inr v"
  by (simp add: rd_eq dec_enc)

lemma wr_load_other:
  "wr buf off v = Inr b \<Longrightarrow> o2 + n \<le> off \<or> off + width \<le> o2 \<Longrightarrow> load b o2 n = load buf o2 n"
  by (simp add: wr_eq load_store_other enc_length)

lemma wr_nth_other:
  "wr buf off v = Inr b \<Longrightarrow> i < length buf \<Longrightarrow> i < off \<or> off + width \<le> i \<Longrightarrow> b ! i = buf ! i"
  by (auto simp: wr_eq enc_length dest: store_nth)

lemma rd_cong:
  "load b off width = load buf off width \<Longrightarrow> rd b off = rd buf off"
  by (simp add: rd_eq)

lemma rd_store_other:
  "store buf off bs = Inr b \<Longrightarrow> o2 + width \<le> off \<or> off + length bs \<le> o2 \<Longrightarrow> rd b o2 = rd buf o2"
  by (simp add: rd_eq load_store_other)

lemma rd_total: "off + width \<le> length buf \<Longrightarrow> \<exists>v. rd buf off = Inr v"
  by (simp add: rd_eq load_def)

lemma rd_fault: "length buf < off + width \<Longrightarrow> rd buf off = Inl OutOfBounds"
  by (simp add: rd_eq load_def)

end

lemma un16_le16: "un16 (le16 w) = w"
  by (rule bit_word_eqI)
    (auto simp: un16_def le16_def bit_or_iff bit_push_bit_iff bit_ucast_iff bit_drop_bit_eq
       not_le)

lemma un32_le32: "un32 (le32 w) = w"
proof (rule bit_word_eqI)
  fix n assume n: "n < LENGTH(32)"
  then consider "n < 8" | "8 \<le> n" "n < 16" | "16 \<le> n" "n < 24" | "24 \<le> n" "n < 32"
    by force
  then show "bit (un32 (le32 w)) n = bit w n"
    by cases
      (auto simp: un32_def le32_def bit_or_iff bit_push_bit_iff bit_ucast_iff bit_drop_bit_eq
         numeral_3_eq_3 numeral_2_eq_2)
qed

lemma le16_length [simp]: "length (le16 w) = 2"
  by (simp add: le16_def)

lemma le32_length [simp]: "length (le32 w) = 4"
  by (simp add: le32_def)

interpretation c16: field_codec le16 un16 2 rd16 wr16
  by unfold_locales (auto simp: un16_le16 rd16_def wr16_def)

interpretation c32: field_codec le32 un32 4 rd32 wr32
  by unfold_locales (auto simp: un32_le32 rd32_def wr32_def)

section \<open>Tables of slots\<close>

text \<open>
  The server keeps several tables of slots (clients, rooms, big-data blocks) and finds a slot with
  a loop that returns the first free index, or -1. The contract is shared: the search decides
  whether a slot is free, and finds the least one.
\<close>

fun first_free :: "(nat \<Rightarrow> bool) \<Rightarrow> nat \<Rightarrow> nat \<Rightarrow> int" where
  "first_free free i 0 = -1"
| "first_free free i (Suc n) = (if free i then int i else first_free free (Suc i) n)"

lemma first_free_cases:
  "(first_free free i n = -1 \<and> (\<forall>j. i \<le> j \<and> j < i + n \<longrightarrow> \<not> free j)) \<or>
   (\<exists>k. first_free free i n = int k \<and> i \<le> k \<and> k < i + n \<and> free k \<and> (\<forall>j. i \<le> j \<and> j < k \<longrightarrow> \<not> free j))"
proof (induction free i n rule: first_free.induct)
  case (1 free i)
  show ?case by auto
next
  case (2 free i n)
  show ?case
  proof (cases "free i")
    case True
    then show ?thesis by auto
  next
    case False
    from "2.IH" [OF False] show ?thesis
    proof
      assume L: "first_free free (Suc i) n = - 1 \<and> (\<forall>j. Suc i \<le> j \<and> j < Suc i + n \<longrightarrow> \<not> free j)"
      have "\<not> free j" if "i \<le> j" "j < i + Suc n" for j
        using L False that by (cases "j = i") auto
      with L False show ?thesis by simp
    next
      assume "\<exists>k. first_free free (Suc i) n = int k \<and> Suc i \<le> k \<and> k < Suc i + n \<and> free k \<and>
        (\<forall>j. Suc i \<le> j \<and> j < k \<longrightarrow> \<not> free j)"
      then obtain k where k: "first_free free (Suc i) n = int k" "Suc i \<le> k" "k < Suc i + n"
        "free k" "\<forall>j. Suc i \<le> j \<and> j < k \<longrightarrow> \<not> free j" by blast
      have "\<not> free j" if "i \<le> j" "j < k" for j
        using k(5) False that by (cases "j = i") auto
      with k False show ?thesis by auto
    qed
  qed
qed

locale slot_search =
  fixes slots :: "'t \<Rightarrow> nat"
    and free :: "'t \<Rightarrow> nat \<Rightarrow> bool"
    and find :: "'t \<Rightarrow> int"
  assumes find_eq: "find t = first_free (free t) 0 (slots t)"
begin

lemma found_free: "find t = int k \<Longrightarrow> k < slots t \<and> free t k"
  using first_free_cases [of "free t" 0 "slots t"] by (auto simp: find_eq)

lemma found_least: "find t = int k \<Longrightarrow> j < k \<Longrightarrow> \<not> free t j"
  using first_free_cases [of "free t" 0 "slots t"] by (auto simp: find_eq)

lemma found_range: "find t = -1 \<or> (\<exists>k. find t = int k \<and> k < slots t)"
  using first_free_cases [of "free t" 0 "slots t"] by (auto simp: find_eq)

lemma none_iff: "find t = -1 \<longleftrightarrow> (\<forall>j < slots t. \<not> free t j)"
  using first_free_cases [of "free t" 0 "slots t"] by (auto simp: find_eq)

lemma neg_iff: "find t < 0 \<longleftrightarrow> (\<forall>j < slots t. \<not> free t j)"
  using found_range [of t] none_iff [of t] by auto

end

end
