(* ===== verification/Star_Wire.thy ===== *)
theory Star_Wire
  imports Star_Prelude
begin

text \<open>
  The wire format: message types and register replies (the \<open>#define\<close>s of StarSocketServer.cpp
  and StarSocketServer.h), the message headers \<open>STSOCKMSG_GENERIC\<close>,
  \<open>STSOCKMSGDATA_DATASIZE\<close> and \<open>STSOCKMSGDATA_PACKDATASIZE\<close> as they lie in memory, the
  packed entries of the size table, and \<open>StarVersion\<close> with its lexicographic order.
\<close>

unbundle bit_operations_syntax

section \<open>Constants\<close>

definition STSOCKMSG_PACKDATASIZE :: s16 where "STSOCKMSG_PACKDATASIZE = 0x0001"
definition STSOCKMSG_FILEDATA :: s16 where "STSOCKMSG_FILEDATA = 0x0004"
definition STSOCKMSG_BIGDATA :: s16 where "STSOCKMSG_BIGDATA = 0x0008"
definition STSOCKMSG_ALLDATA :: s16 where "STSOCKMSG_ALLDATA = 0x000f"

definition STSOCKMSG_GIVEID :: s16 where "STSOCKMSG_GIVEID = -2"
definition STSOCKMSG_KNOCK :: s16 where "STSOCKMSG_KNOCK = -3"
definition STSOCKMSG_REGISTER :: s16 where "STSOCKMSG_REGISTER = -5"
definition STSOCKMSG_RETRASMIT :: s16 where "STSOCKMSG_RETRASMIT = -6"
definition STSOCKMSG_PING :: s16 where "STSOCKMSG_PING = -9"
definition STSOCKMSG_CONFIRM :: s16 where "STSOCKMSG_CONFIRM = -10"
definition STSOCKMSG_DUPLICATE :: s16 where "STSOCKMSG_DUPLICATE = -11"

definition STSOCKMSG_CONFIRM_CREATE_ROOM :: s16 where "STSOCKMSG_CONFIRM_CREATE_ROOM = -15"
definition STSOCKMSG_CONFIRM_JOIN_ROOM :: s16 where "STSOCKMSG_CONFIRM_JOIN_ROOM = -16"
definition STSOCKMSG_CONFIRM_EXTI_ROOM :: s16 where "STSOCKMSG_CONFIRM_EXTI_ROOM = -18"

definition STSOCKMSG_BIGDATA_HEADER :: s32 where "STSOCKMSG_BIGDATA_HEADER = 0x0001"
definition STSOCKMSG_BIGDATA_CONTINUE :: s32 where "STSOCKMSG_BIGDATA_CONTINUE = 0x0002"
definition STSOCKMSG_BIGDATA_END :: s32 where "STSOCKMSG_BIGDATA_END = 0x0004"

definition STSOCKMSG_REGIS_OK_ALWAY :: s16 where "STSOCKMSG_REGIS_OK_ALWAY = 1"
definition STSOCKMSG_REGIS_OK_SECTION :: s16 where "STSOCKMSG_REGIS_OK_SECTION = 2"
definition STSOCKMSG_OLD_VERSION :: s16 where "STSOCKMSG_OLD_VERSION = 3"
definition STSOCKMSG_SERVER_FULL :: s16 where "STSOCKMSG_SERVER_FULL = 4"
definition STSOCKMSG_CLIENT_WRONG :: s16 where "STSOCKMSG_CLIENT_WRONG = 5"

definition STSOCKID_SERVER :: s16 where "STSOCKID_SERVER = -1"

definition STSV_ALWAY_ON_CONNECTION :: int where "STSV_ALWAY_ON_CONNECTION = 1"
definition STSV_ONETIME_CONNECTION :: int where "STSV_ONETIME_CONNECTION = 2"
definition STSV_TCP_PROTOCOL :: int where "STSV_TCP_PROTOCOL = 0"
definition STSV_UDP_PROTOCOL :: int where "STSV_UDP_PROTOCOL = 1"

definition STSV_MAX_BUFFER :: int where "STSV_MAX_BUFFER = 64 * 1024"
definition STAR_CLIENT_DEFAULT_BUFFER :: nat where "STAR_CLIENT_DEFAULT_BUFFER = 1024"
definition STAR_CLIENT_DEFAULT_MAX_BLOCK :: nat where "STAR_CLIENT_DEFAULT_MAX_BLOCK = 64"

lemmas msg_type_defs =
  STSOCKMSG_PACKDATASIZE_def STSOCKMSG_FILEDATA_def STSOCKMSG_BIGDATA_def STSOCKMSG_ALLDATA_def
  STSOCKMSG_GIVEID_def STSOCKMSG_KNOCK_def STSOCKMSG_REGISTER_def STSOCKMSG_RETRASMIT_def
  STSOCKMSG_PING_def STSOCKMSG_CONFIRM_def STSOCKMSG_DUPLICATE_def STSOCKID_SERVER_def

lemmas reply_defs =
  STSOCKMSG_REGIS_OK_ALWAY_def STSOCKMSG_REGIS_OK_SECTION_def STSOCKMSG_OLD_VERSION_def
  STSOCKMSG_SERVER_FULL_def STSOCKMSG_CLIENT_WRONG_def

lemmas bigdata_flag_defs =
  STSOCKMSG_BIGDATA_HEADER_def STSOCKMSG_BIGDATA_CONTINUE_def STSOCKMSG_BIGDATA_END_def

lemmas block_defs = STAR_CLIENT_DEFAULT_BUFFER_def STAR_CLIENT_DEFAULT_MAX_BLOCK_def

section \<open>Headers in memory\<close>

text \<open>
  The structs are read and written through casts of the buffer, field by field, so the model
  names the offset of each field. \<open>sizeof (STSOCKMSGDATA_DATASIZE)\<close> is 12 and
  \<open>sizeof (STSOCKMSGDATA_PACKDATASIZE)\<close> is 16; \<open>sizeAll\<close> of the second lies where \<open>size\<close> of the
  first does.
\<close>

definition sizeof_DATASIZE :: nat where "sizeof_DATASIZE = 12"
definition sizeof_PACKDATASIZE :: nat where "sizeof_PACKDATASIZE = 16"

lemmas sizeof_defs = sizeof_DATASIZE_def sizeof_PACKDATASIZE_def

record STSOCKMSGDATA_DATASIZE =
  ds_type :: s16
  ds_fromID :: s16
  ds_packNo :: s32
  ds_size :: s32

definition DATASIZE_bytes :: "STSOCKMSGDATA_DATASIZE \<Rightarrow> u8 list" where
  "DATASIZE_bytes m = le16 (ds_type m) @ le16 (ds_fromID m) @ le32 (ds_packNo m) @ le32 (ds_size m)"

definition DATASIZE_of :: "u8 list \<Rightarrow> STSOCKMSGDATA_DATASIZE" where
  "DATASIZE_of bs =
     \<lparr>ds_type = un16 (take 2 bs), ds_fromID = un16 (take 2 (drop 2 bs)),
      ds_packNo = un32 (take 4 (drop 4 bs)), ds_size = un32 (take 4 (drop 8 bs))\<rparr>"

definition rd_DATASIZE :: "u8 list \<Rightarrow> nat \<Rightarrow> STSOCKMSGDATA_DATASIZE result" where
  "rd_DATASIZE buf off = bindR (load buf off 12) (\<lambda>bs. Inr (DATASIZE_of bs))"

definition wr_DATASIZE :: "u8 list \<Rightarrow> nat \<Rightarrow> STSOCKMSGDATA_DATASIZE \<Rightarrow> u8 list result" where
  "wr_DATASIZE buf off m = store buf off (DATASIZE_bytes m)"

lemma DATASIZE_length [simp]: "length (DATASIZE_bytes m) = 12"
  by (simp add: DATASIZE_bytes_def)

interpretation datasize: field_codec DATASIZE_bytes DATASIZE_of 12 rd_DATASIZE wr_DATASIZE
  by unfold_locales
    (simp_all add: rd_DATASIZE_def wr_DATASIZE_def DATASIZE_of_def DATASIZE_bytes_def un16_le16 un32_le32)

record STSOCKMSGDATA_PACKDATASIZE =
  pk_type :: s16
  pk_fromID :: s16
  pk_packNo :: s32
  pk_sizeAll :: s32
  pk_crc :: s16
  pk_numData :: s16

definition PACKDATASIZE_bytes :: "STSOCKMSGDATA_PACKDATASIZE \<Rightarrow> u8 list" where
  "PACKDATASIZE_bytes m =
     le16 (pk_type m) @ le16 (pk_fromID m) @ le32 (pk_packNo m) @ le32 (pk_sizeAll m)
       @ le16 (pk_crc m) @ le16 (pk_numData m)"

definition PACKDATASIZE_of :: "u8 list \<Rightarrow> STSOCKMSGDATA_PACKDATASIZE" where
  "PACKDATASIZE_of bs =
     \<lparr>pk_type = un16 (take 2 bs), pk_fromID = un16 (take 2 (drop 2 bs)),
      pk_packNo = un32 (take 4 (drop 4 bs)), pk_sizeAll = un32 (take 4 (drop 8 bs)),
      pk_crc = un16 (take 2 (drop 12 bs)), pk_numData = un16 (take 2 (drop 14 bs))\<rparr>"

definition rd_PACKDATASIZE :: "u8 list \<Rightarrow> nat \<Rightarrow> STSOCKMSGDATA_PACKDATASIZE result" where
  "rd_PACKDATASIZE buf off = bindR (load buf off 16) (\<lambda>bs. Inr (PACKDATASIZE_of bs))"

definition wr_PACKDATASIZE :: "u8 list \<Rightarrow> nat \<Rightarrow> STSOCKMSGDATA_PACKDATASIZE \<Rightarrow> u8 list result" where
  "wr_PACKDATASIZE buf off m = store buf off (PACKDATASIZE_bytes m)"

lemma PACKDATASIZE_length [simp]: "length (PACKDATASIZE_bytes m) = 16"
  by (simp add: PACKDATASIZE_bytes_def)

interpretation packdatasize:
  field_codec PACKDATASIZE_bytes PACKDATASIZE_of 16 rd_PACKDATASIZE wr_PACKDATASIZE
  by unfold_locales
    (simp_all add: rd_PACKDATASIZE_def wr_PACKDATASIZE_def PACKDATASIZE_of_def PACKDATASIZE_bytes_def
       un16_le16 un32_le32)

text \<open>The fields of either header, read through a cast of the buffer.\<close>

definition msg_type :: "u8 list \<Rightarrow> s16 result" where "msg_type buf = rd16 buf 0"
definition msg_fromID :: "u8 list \<Rightarrow> s16 result" where "msg_fromID buf = rd16 buf 2"
definition msg_packNo :: "u8 list \<Rightarrow> s32 result" where "msg_packNo buf = rd32 buf 4"
definition msg_size :: "u8 list \<Rightarrow> s32 result" where "msg_size buf = rd32 buf 8"
definition msg_crc :: "u8 list \<Rightarrow> u16 result" where "msg_crc buf = rd16 buf 12"
definition msg_numData :: "u8 list \<Rightarrow> s16 result" where "msg_numData buf = rd16 buf 14"

lemmas msg_field_defs =
  msg_type_def msg_fromID_def msg_packNo_def msg_size_def msg_crc_def msg_numData_def

section \<open>Entries of the size table\<close>

text \<open>
  \<open>dataSizeTable[i]\<close> is a \<open>u16\<close>: the low 11 bits are the size of block \<open>i\<close>, the bits above them
  the continuation flag.
\<close>

definition entry_size :: "u16 \<Rightarrow> nat" where "entry_size e = unat (e AND 0x7ff)"
definition entry_flag :: "u16 \<Rightarrow> u16" where "entry_flag e = drop_bit 11 e"

definition size_entry :: "int \<Rightarrow> u16 \<Rightarrow> u16" where
  "size_entry n flag = word_of_int n OR push_bit 11 flag"

lemma bit_small_word: "n < 2 ^ k \<Longrightarrow> bit (word_of_nat n :: 'a::len word) i \<Longrightarrow> i < k"
  using bit_take_bit_iff [of k n i] by (auto simp: bit_of_nat_iff take_bit_nat_eq_self)

lemma entry_size_entry:
  assumes "n < 2048" and "flag < 32"
  shows "entry_size (size_entry (int n) flag) = n" and "entry_flag (size_entry (int n) flag) = flag"
proof -
  have lo: "bit (word_of_nat n :: u16) i \<Longrightarrow> i < 11" for i
    using assms(1) bit_small_word [of n 11 i] by simp
  have hi: "bit flag i \<Longrightarrow> i < 5" for i
    using assms(2) bit_small_word [of "unat flag" 5 i, where 'a = 16] by (simp add: word_less_nat_alt)
  have "(size_entry (int n) flag AND 0x7ff) = word_of_nat n"
  proof (rule bit_word_eqI)
    fix i assume "i < LENGTH(16)"
    have "bit (size_entry (int n) flag AND mask 11) i = bit (word_of_nat n :: u16) i"
      using lo [of i] by (auto simp: size_entry_def bit_and_iff bit_or_iff bit_push_bit_iff bit_mask_iff)
    then show "bit (size_entry (int n) flag AND 0x7ff) i = bit (word_of_nat n :: u16) i"
      by (simp add: mask_eq_exp_minus_1)
  qed
  then show "entry_size (size_entry (int n) flag) = n"
    using assms(1) by (simp add: entry_size_def unsigned_of_nat take_bit_nat_eq_self)
  show "entry_flag (size_entry (int n) flag) = flag"
  proof (rule bit_word_eqI)
    fix i assume "i < LENGTH(16)"
    show "bit (entry_flag (size_entry (int n) flag)) i = bit flag i"
      using lo [of "11 + i"] hi [of i] by (auto simp: entry_flag_def size_entry_def bit_drop_bit_eq bit_or_iff bit_push_bit_iff)
  qed
qed

lemma entry_size_bound: "entry_size e \<le> 2047"
proof -
  have "e AND 0x7ff = take_bit 11 e" by (simp add: take_bit_eq_mask mask_eq_exp_minus_1)
  then have "entry_size e < 2 ^ 11"
    using take_bit_nat_less_exp [of 11 "unat e"] by (simp add: entry_size_def unsigned_take_bit_eq)
  then show ?thesis by simp
qed

section \<open>Versions\<close>

datatype StarVersion = StarVersion (major: int) (minor: int) (revision: int)

definition version :: StarVersion where "version = StarVersion 2 4 8"

instantiation StarVersion :: linorder
begin

definition less_eq_StarVersion :: "StarVersion \<Rightarrow> StarVersion \<Rightarrow> bool" where
  "less_eq_StarVersion v w \<longleftrightarrow>
     major v < major w \<or> major v = major w \<and>
       (minor v < minor w \<or> minor v = minor w \<and> revision v \<le> revision w)"

definition less_StarVersion :: "StarVersion \<Rightarrow> StarVersion \<Rightarrow> bool" where
  "less_StarVersion v w \<longleftrightarrow> v \<le> w \<and> \<not> w \<le> (v :: StarVersion)"

instance
  by standard (auto simp: less_eq_StarVersion_def less_StarVersion_def StarVersion.expand)

end

definition rd_version :: "u8 list \<Rightarrow> nat \<Rightarrow> StarVersion result" where
  "rd_version buf off =
     bindR (rd32 buf off) (\<lambda>a. bindR (rd32 buf (off + 4)) (\<lambda>b. bindR (rd32 buf (off + 8)) (\<lambda>c.
       Inr (StarVersion (sint a) (sint b) (sint c)))))"

end
