(* ===== verification/Star_CRC.thy ===== *)
theory Star_CRC
  imports Star_Prelude
begin

text \<open>
  The checksums of StarSocketServer.cpp: \<open>_InitCRC8Table\<close>, \<open>_InitCRC16Table\<close>,
  \<open>_InitCRC32Table\<close>, \<open>STOS_InitCRCTable\<close>, \<open>STOS_CRC8\<close>, \<open>STOS_CRC16\<close> and
  \<open>STOS_CRC32\<close>, with the registers at the width the code gives them (\<open>u32 r\<close>), against a
  bit-serial shift register. The locale \<open>crc_engine\<close> holds what any table-driven CRC of this
  shape promises; \<open>crc_invertible\<close> adds what an odd polynomial gives: a burst no longer than the
  register is always detected.
\<close>

unbundle bit_operations_syntax

section \<open>The code\<close>

fun crc8_loop :: "u8 \<Rightarrow> u32 \<Rightarrow> nat \<Rightarrow> u32" where
  "crc8_loop poly r 0 = r"
| "crc8_loop poly r (Suc j) =
     crc8_loop poly (if r AND 0x80 \<noteq> 0 then push_bit 1 r XOR ucast poly else push_bit 1 r) j"

definition InitCRC8Table :: "u8 \<Rightarrow> u8 list" where
  "InitCRC8Table poly = map (\<lambda>i. ucast (crc8_loop poly (word_of_nat i) 8)) [0..<256]"

fun crc16_loop :: "u16 \<Rightarrow> u32 \<Rightarrow> nat \<Rightarrow> u32" where
  "crc16_loop poly r 0 = r"
| "crc16_loop poly r (Suc j) =
     crc16_loop poly (if r AND 0x8000 \<noteq> 0 then push_bit 1 r XOR ucast poly else push_bit 1 r) j"

definition InitCRC16Table :: "u16 \<Rightarrow> u16 list" where
  "InitCRC16Table poly =
     map (\<lambda>i. ucast (crc16_loop poly (push_bit 8 (word_of_nat i)) 8)) [0..<256]"

fun crc32_loop :: "u32 \<Rightarrow> u32 \<Rightarrow> nat \<Rightarrow> u32" where
  "crc32_loop poly r 0 = r"
| "crc32_loop poly r (Suc j) =
     crc32_loop poly (if r AND 0x80000000 \<noteq> 0 then push_bit 1 r XOR poly else push_bit 1 r) j"

definition InitCRC32Table :: "u32 \<Rightarrow> u32 list" where
  "InitCRC32Table poly =
     map (\<lambda>i. crc32_loop poly (push_bit 24 (word_of_nat i)) 8) [0..<256]"

definition STAR_CRC8_STANDARD_POLY :: u8 where "STAR_CRC8_STANDARD_POLY = 0x07"
definition STAR_CRC16_STANDARD_POLY :: u16 where "STAR_CRC16_STANDARD_POLY = 0xa001"
definition STAR_CRC32_STANDARD_POLY :: u32 where "STAR_CRC32_STANDARD_POLY = 0xedb88320"

record crc_tables =
  s_CRC8Table :: "u8 list"
  s_CRC16Table :: "u16 list"
  s_CRC32Table :: "u32 list"

definition STOS_InitCRCTable :: "crc_tables \<Rightarrow> crc_tables" where
  "STOS_InitCRCTable t =
     t\<lparr>s_CRC8Table := InitCRC8Table STAR_CRC8_STANDARD_POLY,
       s_CRC16Table := InitCRC16Table STAR_CRC16_STANDARD_POLY,
       s_CRC32Table := InitCRC32Table STAR_CRC32_STANDARD_POLY\<rparr>"

text \<open>
  The byte loops. The length argument keeps the width of the C parameter, so \<open>STOS_CRC16\<close>
  takes a length modulo \<open>2 ^ 16\<close>; reading past the buffer is \<^const>\<open>OutOfBounds\<close>.
\<close>

definition crc8_byte :: "u8 list \<Rightarrow> u32 \<Rightarrow> u8 \<Rightarrow> u32" where
  "crc8_byte t r d = ucast (t ! unat ((r XOR ucast d) AND 0xff))"

definition STOS_CRC8 :: "crc_tables \<Rightarrow> u8 list \<Rightarrow> nat \<Rightarrow> u32 \<Rightarrow> u8 result" where
  "STOS_CRC8 t buf off dataLength =
     bindR (load buf off (unat dataLength))
       (\<lambda>data. Inr (ucast (foldl (crc8_byte (s_CRC8Table t)) 0 data)))"

definition crc16_byte :: "u16 list \<Rightarrow> u32 \<Rightarrow> u8 \<Rightarrow> u32" where
  "crc16_byte t r d =
     push_bit 8 r XOR ucast (t ! unat ((drop_bit 8 r XOR ucast d) AND 0xff))"

definition STOS_CRC16 :: "crc_tables \<Rightarrow> u8 list \<Rightarrow> nat \<Rightarrow> u16 \<Rightarrow> u16 result" where
  "STOS_CRC16 t buf off dataLength =
     bindR (load buf off (unat dataLength))
       (\<lambda>data. Inr (ucast (foldl (crc16_byte (s_CRC16Table t)) 0 data)))"

definition crc32_byte :: "u32 list \<Rightarrow> u32 \<Rightarrow> u8 \<Rightarrow> u32" where
  "crc32_byte t r d =
     push_bit 8 r XOR t ! unat ((drop_bit 24 r XOR ucast d) AND 0xff)"

definition STOS_CRC32 :: "crc_tables \<Rightarrow> u8 list \<Rightarrow> nat \<Rightarrow> u32 \<Rightarrow> u32 result" where
  "STOS_CRC32 t buf off dataLength =
     bindR (load buf off (unat dataLength))
       (\<lambda>data. Inr (foldl (crc32_byte (s_CRC32Table t)) 0xffffffff data))"

section \<open>The specification: a bit-serial shift register\<close>

definition lfsr :: "'a::len word \<Rightarrow> 'a word \<Rightarrow> bool \<Rightarrow> 'a word" where
  "lfsr p r b = push_bit 1 r XOR (if bit r (LENGTH('a) - 1) \<noteq> b then p else 0)"

definition crc_serial :: "'a::len word \<Rightarrow> 'a word \<Rightarrow> bool list \<Rightarrow> 'a word" where
  "crc_serial p r bs = foldl (lfsr p) r bs"

definition byte_bits :: "u8 \<Rightarrow> bool list" where
  "byte_bits d = map (bit d) [7, 6, 5, 4, 3, 2, 1, 0]"

definition message_bits :: "u8 list \<Rightarrow> bool list" where
  "message_bits ds = concat (map byte_bits ds)"

section \<open>The shift register\<close>

definition sh :: "'a::len word \<Rightarrow> 'a word \<Rightarrow> 'a word" where
  "sh p r = (if bit r (LENGTH('a) - 1) then push_bit 1 r XOR p else push_bit 1 r)"

lemma push_bit_xor_word: "push_bit n (a XOR b :: 'a::len word) = push_bit n a XOR push_bit n b"
  by (rule bit_word_eqI) (auto simp: bit_xor_iff bit_push_bit_iff)

lemma bit_mult_2: "bit (a * 2 :: 'a::len word) n \<longleftrightarrow> n < LENGTH('a) \<and> n \<noteq> 0 \<and> bit a (n - 1)"
  by (simp add: mult.commute [of a] bit_double_iff possible_bit_word)

lemmas reg_bits =
  bit_mult_2 bit_exp_iff bit_xor_iff bit_push_bit_iff bit_drop_bit_eq bit_ucast_iff possible_bit_word

lemma sh_xor: "sh p (a XOR b) = sh p a XOR sh p b"
  by (rule bit_word_eqI) (auto simp: sh_def push_bit_xor_word bit_xor_iff)

lemma sh_zero [simp]: "sh p 0 = 0"
  by (simp add: sh_def)

lemma sh_low: "\<not> bit r (LENGTH('a) - 1) \<Longrightarrow> sh p (r :: 'a::len word) = push_bit 1 r"
  by (simp add: sh_def)

lemma sh_pow_xor: "(sh p ^^ k) (a XOR b) = (sh p ^^ k) a XOR (sh p ^^ k) b"
  by (induction k) (simp_all add: sh_xor)

lemma sh_pow_zero [simp]: "(sh p ^^ k) 0 = 0"
  by (induction k) simp_all

lemma sh_pow_low:
  "(\<And>i. LENGTH('a) - k \<le> i \<Longrightarrow> i < LENGTH('a) \<Longrightarrow> \<not> bit r i) \<Longrightarrow> k \<le> LENGTH('a) \<Longrightarrow>
   (sh p ^^ k) (r :: 'a::len word) = push_bit k r"
proof (induction k arbitrary: r)
  case 0
  then show ?case by simp
next
  case (Suc k)
  have low: "sh p r = push_bit 1 r"
    using Suc.prems by (intro sh_low) auto
  have IH: "(sh p ^^ k) (push_bit 1 r) = push_bit k (push_bit 1 r)"
  proof (rule Suc.IH)
    fix i assume "LENGTH('a) - k \<le> i" and "i < LENGTH('a)"
    then show "\<not> bit (push_bit 1 r) i"
      using Suc.prems by (auto simp: reg_bits)
  qed (use Suc.prems in simp)
  have "(sh p ^^ Suc k) r = (sh p ^^ k) (sh p r)"
    by (simp add: funpow_Suc_right del: funpow.simps)
  also have "\<dots> = push_bit k (push_bit 1 r)" by (simp only: low IH)
  finally show ?case by (simp only: push_bit_push_bit) simp
qed

lemma sh_inj:
  assumes "bit p 0"
  shows "inj (sh p :: 'a::len word \<Rightarrow> 'a word)"
proof (rule injI)
  fix a b :: "'a word" assume eq: "sh p a = sh p b"
  have z: "sh p (a XOR b) = 0" by (simp add: sh_xor eq)
  have top: "\<not> bit (a XOR b) (LENGTH('a) - 1)"
  proof
    assume "bit (a XOR b) (LENGTH('a) - 1)"
    then have "bit (sh p (a XOR b)) 0"
      using assms by (auto simp: sh_def reg_bits)
    with z show False by simp
  qed
  then have p0: "push_bit 1 (a XOR b) = 0" using z by (simp add: sh_low)
  have "bit (a XOR b) i = False" if "i < LENGTH('a)" for i
  proof (cases "i = LENGTH('a) - 1")
    case True
    with top show ?thesis by simp
  next
    case False
    with that have "Suc i < LENGTH('a)" by simp
    then have "bit (push_bit 1 (a XOR b)) (Suc i) = bit (a XOR b) i"
      by (simp add: reg_bits)
    with p0 show ?thesis by simp
  qed
  then have "a XOR b = 0" by (intro bit_word_eqI) simp
  then show "a = b" by (simp only: xor_zero_iff)
qed

text \<open>A run of input bits, as one word aligned to the top of the register.\<close>

fun top_bits :: "bool list \<Rightarrow> 'a::len word" where
  "top_bits [] = 0"
| "top_bits (b # bs) = (if b then push_bit (LENGTH('a) - 1) 1 else 0) XOR drop_bit 1 (top_bits bs)"

lemma bit_top_bits:
  "bit (top_bits bs :: 'a::len word) i \<longleftrightarrow>
     i < LENGTH('a) \<and> LENGTH('a) - Suc i < length bs \<and> bs ! (LENGTH('a) - Suc i)"
proof (induction bs arbitrary: i)
  case Nil
  then show ?case by simp
next
  case (Cons b bs)
  show ?case
  proof (cases "i < LENGTH('a)")
    case False
    then show ?thesis by (auto dest: bit_imp_le_length)
  next
    case True
    show ?thesis
    proof (cases "Suc i = LENGTH('a)")
      case True
      then have "\<not> bit (top_bits bs :: 'a word) (Suc i)" by (auto dest: bit_imp_le_length)
      with True show ?thesis
        by (auto simp: reg_bits)
    next
      case False
      with True have "LENGTH('a) - Suc i = Suc (LENGTH('a) - Suc (Suc i))" by simp
      with True False show ?thesis
        by (auto simp: reg_bits Cons.IH)
    qed
  qed
qed

lemma top_bits_inj:
  assumes "(top_bits bs :: 'a::len word) = top_bits cs" "length bs = length cs"
    and "length bs \<le> LENGTH('a)"
  shows "bs = cs"
proof (rule nth_equalityI)
  show "length bs = length cs" by fact
  fix i assume i: "i < length bs"
  let ?j = "LENGTH('a) - Suc i"
  have j: "?j < LENGTH('a)" "LENGTH('a) - Suc ?j = i" using i assms(3) by auto
  have "bit (top_bits bs :: 'a word) ?j = bit (top_bits cs :: 'a word) ?j" by (simp add: assms(1))
  then show "bs ! i = cs ! i" using i assms(2) j by (simp add: bit_top_bits)
qed

lemma lfsr_sh: "lfsr p r b = sh p (r XOR (if b then push_bit (LENGTH('a) - 1) 1 else 0))"
  for r :: "'a::len word"
proof -
  have z: "2 ^ (LENGTH('a) - Suc 0) * 2 = (0 :: 'a word)"
    by (rule bit_word_eqI) (auto simp: reg_bits)
  show ?thesis
    by (auto simp: lfsr_def sh_def reg_bits push_bit_xor_word z)
qed

lemma crc_serial_top:
  "length bs \<le> LENGTH('a) \<Longrightarrow>
     crc_serial p r bs = (sh p ^^ length bs) (r XOR top_bits bs)"
  for r :: "'a::len word"
proof (induction bs arbitrary: r)
  case Nil
  then show ?case by (simp add: crc_serial_def)
next
  case (Cons b bs)
  let ?t = "top_bits bs :: 'a word"
  let ?b = "(if b then push_bit (LENGTH('a) - 1) 1 else 0) :: 'a word"
  have "\<not> bit ?t 0" using Cons.prems by (auto simp: bit_top_bits)
  then have "bit (push_bit 1 (drop_bit 1 ?t)) n = bit ?t n" if "n < LENGTH('a)" for n
    using that by (cases n) (auto simp: reg_bits)
  then have pd: "push_bit 1 (drop_bit 1 ?t) = ?t" by (rule bit_word_eqI)
  have "\<not> bit (drop_bit 1 ?t) (LENGTH('a) - 1)"
    by (auto simp: bit_drop_bit_eq dest: bit_imp_le_length)
  then have sht: "sh p (drop_bit 1 ?t) = ?t" by (rule trans [OF sh_low pd])
  have "crc_serial p r (b # bs) = crc_serial p (lfsr p r b) bs" by (simp add: crc_serial_def)
  also have "\<dots> = (sh p ^^ length bs) (lfsr p r b XOR ?t)"
    using Cons.prems by (intro Cons.IH) simp
  also have "lfsr p r b XOR ?t = sh p (r XOR ?b XOR drop_bit 1 ?t)"
    by (simp only: lfsr_sh sh_xor sht xor.assoc)
  also have "(sh p ^^ length bs) (sh p (r XOR ?b XOR drop_bit 1 ?t)) =
      (sh p ^^ length (b # bs)) (r XOR top_bits (b # bs))"
    by (simp add: funpow_swap1 xor.assoc)
  finally show ?case .
qed

lemma crc_serial_append: "crc_serial p r (as @ bs) = crc_serial p (crc_serial p r as) bs"
  by (simp add: crc_serial_def)

lemma byte_bits_length [simp]: "length (byte_bits d) = 8"
  by (simp add: byte_bits_def)

lemma byte_bits_nth: "i < 8 \<Longrightarrow> byte_bits d ! i = bit d (7 - i)"
  by (auto simp: byte_bits_def nth_Cons numeral_eq_Suc less_Suc_eq split: nat.split)

lemma top_bits_byte:
  assumes "8 \<le> LENGTH('a)"
  shows "(top_bits (byte_bits d) :: 'a::len word) = push_bit (LENGTH('a) - 8) (ucast d)"
proof (rule bit_word_eqI)
  fix i assume i: "i < LENGTH('a)"
  show "bit (top_bits (byte_bits d) :: 'a word) i = bit (push_bit (LENGTH('a) - 8) (ucast d) :: 'a word) i"
  proof (cases "LENGTH('a) - 8 \<le> i")
    case True
    then have "7 - (LENGTH('a) - Suc i) = i - (LENGTH('a) - 8)" "LENGTH('a) - Suc i < 8"
      "i - (LENGTH('a) - 8) < LENGTH('a)" using i assms by auto
    with True i show ?thesis
      by (simp add: bit_top_bits byte_bits_nth bit_push_bit_iff bit_ucast_iff)
  next
    case False
    with i have "8 \<le> LENGTH('a) - Suc i" by simp
    with False i show ?thesis by (simp add: bit_top_bits bit_push_bit_iff)
  qed
qed

lemma crc_serial_byte:
  assumes "8 \<le> LENGTH('a)"
  shows "crc_serial p r (byte_bits d) =
    (sh p ^^ 8) (r XOR push_bit (LENGTH('a) - 8) (ucast d :: 'a::len word))"
  using assms by (simp add: crc_serial_top top_bits_byte)

section \<open>Table-driven engines\<close>

locale crc_engine =
  fixes poly :: "'a::len word"
    and table :: "'a word list"
    and init :: "'a word"
    and run :: "u8 list \<Rightarrow> 'a word"
  assumes width: "8 \<le> LENGTH('a)"
    and entry: "i < 256 \<Longrightarrow> table ! i = (sh poly ^^ 8) (push_bit (LENGTH('a) - 8) (word_of_nat i))"
    and run_eq: "run ds =
      foldl (\<lambda>r d. push_bit 8 r XOR table ! unat (ucast (drop_bit (LENGTH('a) - 8) r) XOR d)) init ds"
begin

lemma byte_step:
  "push_bit 8 r XOR table ! unat (ucast (drop_bit (LENGTH('a) - 8) r) XOR d) =
     crc_serial poly r (byte_bits d)"
proof -
  let ?n = "LENGTH('a) - 8"
  let ?i = "ucast (drop_bit ?n r) XOR d"
  let ?lo = "r AND mask ?n"
  have "unat ?i < 2 ^ LENGTH(8)" by (rule unsigned_less)
  then have "unat ?i < 256" by simp
  then have "table ! unat ?i = (sh poly ^^ 8) (push_bit ?n (ucast ?i))"
    by (simp add: entry)
  moreover have "(sh poly ^^ 8) ?lo = push_bit 8 ?lo"
    using width by (intro sh_pow_low) (auto simp: bit_and_iff bit_mask_iff)
  moreover have "push_bit 8 ?lo = push_bit 8 r"
    by (rule bit_word_eqI) (auto simp: bit_push_bit_iff bit_and_iff bit_mask_iff)
  moreover have "r XOR push_bit ?n (ucast d) = ?lo XOR push_bit ?n (ucast ?i)"
    using width by (intro bit_word_eqI)
      (auto simp: reg_bits bit_and_iff bit_mask_iff)
  ultimately show ?thesis
    by (simp only: crc_serial_byte [OF width] sh_pow_xor)
qed

lemma run_serial: "run ds = crc_serial poly init (message_bits ds)"
proof -
  have "foldl (\<lambda>r d. crc_serial poly r (byte_bits d)) r ds = crc_serial poly r (message_bits ds)" for r
    by (induction ds arbitrary: r) (simp_all add: message_bits_def crc_serial_append, simp add: crc_serial_def)
  then show ?thesis by (simp add: run_eq byte_step)
qed

end

lemma crc_serial_xor:
  "length xs = length ys \<Longrightarrow>
   crc_serial p (a XOR b) (map2 (\<noteq>) xs ys) = crc_serial p a xs XOR crc_serial p b ys"
proof (induction xs ys arbitrary: a b rule: list_induct2)
  case Nil
  then show ?case by (simp add: crc_serial_def)
next
  case (Cons x xs y ys)
  have "lfsr p (a XOR b) (x \<noteq> y) = lfsr p a x XOR lfsr p b y"
    by (rule bit_word_eqI) (auto simp: lfsr_def push_bit_xor_word bit_xor_iff)
  with Cons.IH show ?case by (simp add: crc_serial_def)
qed

locale crc_invertible = crc_engine +
  assumes odd_poly: "bit poly 0"
begin

lemma serial_inj_state: "crc_serial poly r bs = crc_serial poly r' bs \<Longrightarrow> r = r'"
proof (induction bs arbitrary: r r')
  case Nil
  then show ?case by (simp add: crc_serial_def)
next
  case (Cons b bs)
  then have "lfsr poly r b = lfsr poly r' b" by (simp add: crc_serial_def)
  then have "r XOR (if b then push_bit (LENGTH('a) - 1) 1 else 0) =
      r' XOR (if b then push_bit (LENGTH('a) - 1) 1 else 0)"
    by (simp only: lfsr_sh inj_eq [OF sh_inj [OF odd_poly]])
  then show ?case by (simp only: xor_right_cancel)
qed

lemma sh_pow_inj: "(sh poly ^^ k) a = (sh poly ^^ k) b \<Longrightarrow> a = b"
  by (induction k) (auto dest: injD [OF sh_inj [OF odd_poly]])

text \<open>Two messages that differ only inside a window no longer than the register are told apart.\<close>

lemma burst_detected:
  assumes "message_bits ds = pre @ w @ post" and "message_bits ds' = pre @ w' @ post"
    and "length w = length w'" and "length w \<le> LENGTH('a)" and "w \<noteq> w'"
  shows "run ds \<noteq> run ds'"
proof
  assume "run ds = run ds'"
  then have "crc_serial poly init (pre @ w @ post) = crc_serial poly init (pre @ w' @ post)"
    by (simp add: run_serial assms(1,2))
  then have "crc_serial poly (crc_serial poly init pre) w = crc_serial poly (crc_serial poly init pre) w'"
    by (simp add: crc_serial_append) (rule serial_inj_state)
  then have "(sh poly ^^ length w) (crc_serial poly init pre XOR top_bits w) =
      (sh poly ^^ length w) (crc_serial poly init pre XOR top_bits w')"
    using assms(3,4) by (simp add: crc_serial_top)
  then have "crc_serial poly init pre XOR top_bits w = crc_serial poly init pre XOR top_bits w'"
    by (rule sh_pow_inj)
  then have "(top_bits w :: 'a word) = top_bits w'"
    by (simp only: xor_left_cancel)
  then have "w = w'" using assms(3,4) by (rule top_bits_inj)
  with assms(5) show False by contradiction
qed

end

section \<open>The three engines of the code\<close>

lemma and_bit_test: "r AND push_bit k 1 \<noteq> 0 \<longleftrightarrow> bit r k" for r :: "'a::len word"
proof
  assume "r AND push_bit k 1 \<noteq> 0"
  then obtain n where "bit (r AND push_bit k 1) n" by (auto simp: bit_eq_iff)
  then show "bit r k" by (auto simp: bit_and_iff reg_bits)
next
  assume "bit r k"
  then have "bit (r AND push_bit k 1) k"
    by (auto simp: bit_and_iff reg_bits dest: bit_imp_le_length)
  then show "r AND push_bit k 1 \<noteq> 0" by auto
qed

lemma top_bit_tests:
  "(r :: u32) AND 0x80 \<noteq> 0 \<longleftrightarrow> bit r 7"
  "(r :: u32) AND 0x8000 \<noteq> 0 \<longleftrightarrow> bit r 15"
  "(r :: u32) AND 0x80000000 \<noteq> 0 \<longleftrightarrow> bit r 31"
  using and_bit_test [of r 7] and_bit_test [of r 15] and_bit_test [of r 31] by simp_all

lemma crc8_loop_sh: "(ucast (crc8_loop poly r k) :: u8) = (sh poly ^^ k) (ucast r)"
proof (induction poly r k rule: crc8_loop.induct)
  case (2 poly r j)
  have "(ucast (if r AND 0x80 \<noteq> 0 then push_bit 1 r XOR ucast poly else push_bit 1 r) :: u8)
      = sh poly (ucast r)"
    unfolding top_bit_tests by (rule bit_word_eqI) (auto simp: sh_def reg_bits)
  with 2 show ?case by (simp add: funpow_Suc_right del: funpow.simps)
qed simp

lemma crc16_loop_sh: "(ucast (crc16_loop poly r k) :: u16) = (sh poly ^^ k) (ucast r)"
proof (induction poly r k rule: crc16_loop.induct)
  case (2 poly r j)
  have "(ucast (if r AND 0x8000 \<noteq> 0 then push_bit 1 r XOR ucast poly else push_bit 1 r) :: u16)
      = sh poly (ucast r)"
    unfolding top_bit_tests by (rule bit_word_eqI) (auto simp: sh_def reg_bits)
  with 2 show ?case by (simp add: funpow_Suc_right del: funpow.simps)
qed simp

lemma crc32_loop_sh: "crc32_loop poly r k = (sh poly ^^ k) r"
proof (induction poly r k rule: crc32_loop.induct)
  case (2 poly r j)
  have "(if r AND 0x80000000 \<noteq> 0 then push_bit 1 r XOR poly else push_bit 1 r) = sh poly r"
    unfolding top_bit_tests by (simp add: sh_def)
  with 2 show ?case by (simp add: funpow_Suc_right del: funpow.simps)
qed simp

lemma unat_low_byte: "unat (w AND 0xff) = unat (ucast w :: u8)" for w :: u32
proof -
  have "w AND 0xff = take_bit 8 w" by (simp add: take_bit_eq_mask mask_eq_exp_minus_1)
  then show ?thesis by (simp add: unsigned_ucast_eq unsigned_take_bit_eq)
qed

lemma ucast_xor: "(ucast (a XOR b) :: 'b::len word) = ucast a XOR ucast b"
  by (rule unsigned_xor_eq)

lemma ucast_up_down:
  "(ucast (ucast (x :: u8) :: u32) :: u8) = x" "(ucast (ucast (y :: u16) :: u32) :: u16) = y"
  by (rule bit_word_eqI, simp add: reg_bits)+

lemma foldl_simulation:
  "(\<And>r d. h (f r d) = g (h r) d) \<Longrightarrow> h (foldl f a ds) = foldl g (h a) ds"
  by (induction ds arbitrary: a) simp_all

lemma crc8_byte_low:
  "(ucast (crc8_byte t r d) :: u8) =
     push_bit 8 (ucast r) XOR t ! unat (ucast (drop_bit (LENGTH(8) - 8) (ucast r :: u8)) XOR d)"
proof -
  have "push_bit 8 (ucast r :: u8) = 0" by (rule bit_word_eqI) (simp add: reg_bits)
  then show ?thesis by (simp add: crc8_byte_def unat_low_byte ucast_xor ucast_up_down)
qed

lemma crc16_byte_low:
  "(ucast (crc16_byte t r d) :: u16) =
     push_bit 8 (ucast r) XOR t ! unat (ucast (drop_bit (LENGTH(16) - 8) (ucast r :: u16)) XOR d)"
proof -
  have "(ucast (push_bit 8 r) :: u16) = push_bit 8 (ucast r)"
    by (rule bit_word_eqI) (auto simp: reg_bits)
  moreover have "(ucast (drop_bit 8 r) :: u8) = ucast (drop_bit 8 (ucast r :: u16))"
    by (rule bit_word_eqI) (auto simp: reg_bits)
  ultimately show ?thesis by (simp add: crc16_byte_def unat_low_byte ucast_xor ucast_up_down)
qed

lemma crc32_byte_low:
  "crc32_byte t r d =
     push_bit 8 r XOR t ! unat (ucast (drop_bit (LENGTH(32) - 8) r) XOR d)"
  by (simp add: crc32_byte_def unat_low_byte ucast_xor ucast_up_down)

interpretation crc8: crc_invertible STAR_CRC8_STANDARD_POLY
  "s_CRC8Table (STOS_InitCRCTable t)" 0
  "\<lambda>ds. ucast (foldl (crc8_byte (s_CRC8Table (STOS_InitCRCTable t))) 0 ds)" for t
proof unfold_locales
  let ?T = "s_CRC8Table (STOS_InitCRCTable t)"
  show "?T ! i = (sh STAR_CRC8_STANDARD_POLY ^^ 8) (push_bit (LENGTH(8) - 8) (word_of_nat i))"
    if "i < 256" for i
    using that by (simp add: STOS_InitCRCTable_def InitCRC8Table_def crc8_loop_sh unsigned_of_nat take_bit_nat_eq_self)
  show "ucast (foldl (crc8_byte ?T) 0 ds) =
    foldl (\<lambda>r d. push_bit 8 r XOR ?T ! unat (ucast (drop_bit (LENGTH(8) - 8) r) XOR d)) 0 ds" for ds
    by (subst foldl_simulation [where g = "\<lambda>r d. push_bit 8 r XOR ?T ! unat (ucast (drop_bit (LENGTH(8) - 8) r) XOR d)"])
      (simp_all only: crc8_byte_low unsigned_0)
qed (simp_all add: STAR_CRC8_STANDARD_POLY_def)

interpretation crc16: crc_invertible STAR_CRC16_STANDARD_POLY
  "s_CRC16Table (STOS_InitCRCTable t)" 0
  "\<lambda>ds. ucast (foldl (crc16_byte (s_CRC16Table (STOS_InitCRCTable t))) 0 ds)" for t
proof unfold_locales
  let ?T = "s_CRC16Table (STOS_InitCRCTable t)"
  have top: "(ucast (push_bit 8 (word_of_nat i :: u32)) :: u16) = push_bit 8 (word_of_nat i)"
    for i by (rule bit_word_eqI) (auto simp: reg_bits unsigned_of_nat bit_of_nat_iff)
  show "?T ! i = (sh STAR_CRC16_STANDARD_POLY ^^ 8) (push_bit (LENGTH(16) - 8) (word_of_nat i))"
    if "i < 256" for i
    using that by (simp add: STOS_InitCRCTable_def InitCRC16Table_def crc16_loop_sh top)
  show "ucast (foldl (crc16_byte ?T) 0 ds) =
    foldl (\<lambda>r d. push_bit 8 r XOR ?T ! unat (ucast (drop_bit (LENGTH(16) - 8) r) XOR d)) 0 ds" for ds
    by (subst foldl_simulation [where g = "\<lambda>r d. push_bit 8 r XOR ?T ! unat (ucast (drop_bit (LENGTH(16) - 8) r) XOR d)"])
      (simp_all only: crc16_byte_low unsigned_0)
qed (simp_all add: STAR_CRC16_STANDARD_POLY_def)

text \<open>The polynomial of the 32-bit engine is even, so it is a \<open>crc_engine\<close> only.\<close>

interpretation crc32: crc_engine STAR_CRC32_STANDARD_POLY
  "s_CRC32Table (STOS_InitCRCTable t)" "0xffffffff"
  "foldl (crc32_byte (s_CRC32Table (STOS_InitCRCTable t))) 0xffffffff" for t
proof unfold_locales
  let ?T = "s_CRC32Table (STOS_InitCRCTable t)"
  show "?T ! i =
    (sh STAR_CRC32_STANDARD_POLY ^^ 8) (push_bit (LENGTH(32) - 8) (word_of_nat i))"
    if "i < 256" for i
    using that by (simp add: STOS_InitCRCTable_def InitCRC32Table_def crc32_loop_sh)
  show "foldl (crc32_byte ?T) 0xffffffff ds =
    foldl (\<lambda>r d. push_bit 8 r XOR ?T ! unat (ucast (drop_bit (LENGTH(32) - 8) r) XOR d)) 0xffffffff ds" for ds
    by (rule foldl_cong) (simp_all only: crc32_byte_low)
qed simp_all

section \<open>Properties of the checksums\<close>

lemma crc_by_register:
  "STOS_CRC8 (STOS_InitCRCTable t) buf off n8 =
     bindR (load buf off (unat n8)) (\<lambda>ds. Inr (crc_serial STAR_CRC8_STANDARD_POLY 0 (message_bits ds)))"
  "STOS_CRC16 (STOS_InitCRCTable t) buf off n16 =
     bindR (load buf off (unat n16)) (\<lambda>ds. Inr (crc_serial STAR_CRC16_STANDARD_POLY 0 (message_bits ds)))"
  "STOS_CRC32 (STOS_InitCRCTable t) buf off n32 =
     bindR (load buf off (unat n32)) (\<lambda>ds. Inr (crc_serial STAR_CRC32_STANDARD_POLY 0xffffffff (message_bits ds)))"
  by (simp_all add: STOS_CRC8_def STOS_CRC16_def STOS_CRC32_def crc8.run_serial crc16.run_serial crc32.run_serial)

text \<open>
  C24: the three table-driven checksums compute what the bit-serial shift register computes, over
  the bytes the buffer holds, and fail only when the buffer is too short.
\<close>

theorem crc_tables_are_serial:
  "STOS_CRC8 (STOS_InitCRCTable t) buf off n8 =
     bindR (load buf off (unat n8)) (\<lambda>ds. Inr (crc_serial STAR_CRC8_STANDARD_POLY 0 (message_bits ds))) \<and>
   STOS_CRC16 (STOS_InitCRCTable t) buf off n16 =
     bindR (load buf off (unat n16)) (\<lambda>ds. Inr (crc_serial STAR_CRC16_STANDARD_POLY 0 (message_bits ds))) \<and>
   STOS_CRC32 (STOS_InitCRCTable t) buf off n32 =
     bindR (load buf off (unat n32))
       (\<lambda>ds. Inr (crc_serial STAR_CRC32_STANDARD_POLY 0xffffffff (message_bits ds)))"
  by (intro conjI crc_by_register)

lemma crc16_value:
  "load buf off (unat n) = Inr ds \<Longrightarrow>
   STOS_CRC16 (STOS_InitCRCTable t) buf off n =
     Inr (crc_serial STAR_CRC16_STANDARD_POLY 0 (message_bits ds))"
  by (simp add: crc_by_register)

text \<open>
  C23: the checksum of the packets, \<open>STOS_CRC16\<close>, tells apart two messages of the same length
  that differ inside a window of at most 16 consecutive bits, wherever the window is.
\<close>

theorem crc16_detects_bursts:
  assumes "load buf off (unat n) = Inr ds" and "load buf' off' (unat n) = Inr ds'"
    and "message_bits ds = pre @ w @ post" and "message_bits ds' = pre @ w' @ post"
    and "length w = length w'" and "length w \<le> 16" and "w \<noteq> w'"
  shows "STOS_CRC16 (STOS_InitCRCTable t) buf off n \<noteq> STOS_CRC16 (STOS_InitCRCTable t) buf' off' n"
  using crc16.burst_detected [OF assms(3,4,5) _ assms(7)] assms(1,2,6)
  by (simp add: STOS_CRC16_def)

theorem crc16_detects_bursts_witness:
  "\<forall>t. STOS_CRC16 (STOS_InitCRCTable t) [0, 0, 0] 0 3 \<noteq> STOS_CRC16 (STOS_InitCRCTable t) [0, 1, 128] 0 3"
proof (intro allI, rule crc16_detects_bursts)
  show "load [0, 0, 0 :: u8] 0 (unat (3 :: u16)) = Inr [0, 0, 0]"
    and "load [0, 1, 128 :: u8] 0 (unat (3 :: u16)) = Inr [0, 1, 128]"
    by (simp_all add: load_def)
  show "message_bits [0, 0, 0] = replicate 15 False @ [False, False] @ replicate 7 False"
    and "message_bits [0, 1, 128] = replicate 15 False @ [True, True] @ replicate 7 False"
    by code_simp+
qed simp_all

text \<open>The check message of the CRC catalogues, the characters \<open>123456789\<close>.\<close>

definition check_message :: "u8 list" where
  "check_message = [0x31, 0x32, 0x33, 0x34, 0x35, 0x36, 0x37, 0x38, 0x39]"

lemmas crc_polys = STAR_CRC8_STANDARD_POLY_def STAR_CRC16_STANDARD_POLY_def STAR_CRC32_STANDARD_POLY_def

text \<open>
  The values of the three checksums on the catalogue's check message. The catalogue lists
  0xf4, 0xbb3d and 0xcbf43926 for the reflected CRC-16 and CRC-32 whose bit-reversed polynomials
  the constants are: the tables feed those polynomials to a register that shifts the other way.
\<close>

lemma crc_check_values:
  "STOS_CRC8 (STOS_InitCRCTable t) check_message 0 9 = Inr 0xf4 \<and>
   STOS_CRC16 (STOS_InitCRCTable t) check_message 0 9 = Inr 0xa47b \<and>
   STOS_CRC32 (STOS_InitCRCTable t) check_message 0 9 = Inr 0x8b120840"
proof -
  have "crc_serial 7 0 (message_bits check_message) = (0xf4 :: u8)"
    and "crc_serial 0xa001 0 (message_bits check_message) = (0xa47b :: u16)"
    and "crc_serial 0xedb88320 0xffffffff (message_bits check_message) = (0x8b120840 :: u32)"
    by code_simp+
  moreover have "load check_message 0 9 = Inr check_message" by (simp add: load_def check_message_def)
  ultimately show ?thesis by (simp add: crc_by_register crc_polys)
qed

text \<open>
  \<open>STOS_CRC32\<close>, whose polynomial constant is even in this register, gives the same value to
  two four-byte messages that differ in a burst of 28 bits, which no CRC with an invertible
  32-bit register can do.
\<close>

lemma crc32_misses_a_burst:
  "STOS_CRC32 (STOS_InitCRCTable t) [0, 0, 0, 0] 0 4 =
   STOS_CRC32 (STOS_InitCRCTable t) [0x0f, 0x6d, 0xc4, 0x19] 0 4"
proof -
  have "crc_serial 0xedb88320 0xffffffff (message_bits [0, 0, 0, 0]) =
      (crc_serial 0xedb88320 0xffffffff (message_bits [0x0f, 0x6d, 0xc4, 0x19]) :: u32)"
    by code_simp
  then show ?thesis by (simp add: crc_by_register crc_polys load_def)
qed

end
