(* ===== verification/Star_Text.thy ===== *)
theory Star_Text
  imports Star_Prelude
begin

text \<open>
  C strings as the code uses them: NUL-terminated character arrays, \<open>strstr\<close>, \<open>atoi\<close>,
  \<open>strcpy\<close> into a fixed array, the decimal conversions of \<open>sprintf\<close>, and \<open>printdigit\<close>, which
  formats a \<open>size_t\<close> with a comma between the thousands.
\<close>

section \<open>Terminated strings\<close>

definition NUL :: char where "NUL = CHR 0x00"
definition LF :: char where "LF = CHR 0x0A"

text \<open>The string an array holds; without a terminator the code reads on past the array.\<close>

definition c_string :: "char list \<Rightarrow> string result" where
  "c_string a = (if NUL \<in> set a then Inr (takeWhile (\<lambda>c. c \<noteq> NUL) a) else Inl OutOfBounds)"

definition c_strcpy :: "char list \<Rightarrow> string \<Rightarrow> char list result" where
  "c_strcpy dst s = store dst 0 (s @ [NUL])"

lemma c_string_strcpy:
  assumes "NUL \<notin> set s" and "c_strcpy dst s = Inr a"
  shows "c_string a = Inr s"
proof -
  from assms(2) have "a = s @ [NUL] @ drop (Suc (length s)) dst"
    by (auto simp: c_strcpy_def store_Inr_iff)
  moreover have "takeWhile (\<lambda>c. c \<noteq> NUL) (s @ [NUL] @ r) = s" for r
    using assms(1) by (subst takeWhile_append2) auto
  ultimately show ?thesis by (simp add: c_string_def)
qed

text \<open>
  \<open>strstr (mem, tag)\<close>: the suffix of the memory where the first occurrence starts, or \<open>None\<close> at
  the terminator.
\<close>

fun c_strstr :: "char list \<Rightarrow> string \<Rightarrow> char list option result" where
  "c_strstr [] tag = Inl OutOfBounds"
| "c_strstr (c # cs) tag =
     (if take (length tag) (c # cs) = tag then Inr (Some (c # cs))
      else if c = NUL then Inr None else c_strstr cs tag)"

section \<open>Numbers\<close>

definition digit_char :: "nat \<Rightarrow> char" where
  "digit_char d = char_of (48 + d)"

fun dec :: "nat \<Rightarrow> string" where
  "dec n = (if n < 10 then [digit_char n] else dec (n div 10) @ [digit_char (n mod 10)])"

declare dec.simps [simp del]

text \<open>The conversion \<open>%0kd\<close> of a value that is not negative.\<close>

definition dec_pad :: "nat \<Rightarrow> nat \<Rightarrow> string" where
  "dec_pad k n = replicate (k - length (dec n)) (digit_char 0) @ dec n"

definition is_digit :: "char \<Rightarrow> bool" where
  "is_digit c \<longleftrightarrow> 48 \<le> (of_char c :: nat) \<and> (of_char c :: nat) \<le> 57"

definition is_space :: "char \<Rightarrow> bool" where
  "is_space c \<longleftrightarrow> (of_char c :: nat) = 32 \<or> 9 \<le> (of_char c :: nat) \<and> (of_char c :: nat) \<le> 13"

definition digits_value :: "string \<Rightarrow> int" where
  "digits_value ds = foldl (\<lambda>n c. 10 * n + (of_char c - 48)) 0 ds"

definition atoi :: "string \<Rightarrow> int" where
  "atoi s =
     (case dropWhile is_space s of
        [] \<Rightarrow> 0
      | c # cs \<Rightarrow>
          if c = CHR ''-'' then - digits_value (takeWhile is_digit cs)
          else if c = CHR ''+'' then digits_value (takeWhile is_digit cs)
          else digits_value (takeWhile is_digit (c # cs)))"

lemma of_digit_char: "d < 10 \<Longrightarrow> (of_char (digit_char d) :: nat) = 48 + d"
  by (simp add: digit_char_def of_char_of take_bit_nat_eq_self)

lemma is_digit_digit_char: "d < 10 \<Longrightarrow> is_digit (digit_char d)"
  by (simp add: is_digit_def of_digit_char)

lemma dec_digits: "c \<in> set (dec n) \<Longrightarrow> is_digit c"
proof (induction n rule: dec.induct)
  case (1 n)
  then show ?case
    by (subst (asm) dec.simps) (auto simp: is_digit_digit_char split: if_splits)
qed

lemma dec_nonempty [simp]: "dec n \<noteq> []"
  by (subst dec.simps) simp

lemma digits_value_snoc: "digits_value (ds @ [c]) = 10 * digits_value ds + (of_char c - 48)"
  by (simp add: digits_value_def)

lemma digits_value_dec: "digits_value (dec n) = int n"
proof (induction n rule: dec.induct)
  case (1 n)
  have of: "(of_char (digit_char d) :: int) = 48 + int d" if "d < 10" for d
    using of_digit_char [OF that] by (metis of_nat_of_char of_nat_add of_nat_numeral)
  show ?case
  proof (cases "n < 10")
    case True
    then show ?thesis by (subst dec.simps) (simp add: digits_value_def of)
  next
    case False
    with 1 have "digits_value (dec (n div 10)) = int (n div 10)" by simp
    with False show ?thesis
      by (subst dec.simps) (simp add: digits_value_snoc of zdiv_int zmod_int)
  qed
qed

lemma takeWhile_all: "(\<And>x. x \<in> set xs \<Longrightarrow> P x) \<Longrightarrow> takeWhile P xs = xs"
  by simp

text \<open>The value \<open>sprintf ("%d")\<close> writes is the value \<open>atoi\<close> reads.\<close>

lemma atoi_dec: "atoi (dec n) = int n"
proof -
  obtain c cs where d: "dec n = c # cs" by (cases "dec n") auto
  then have "is_digit c" using dec_digits [of c n] by simp
  then have "\<not> is_space c" "c \<noteq> CHR ''-''" "c \<noteq> CHR ''+''"
    by (auto simp: is_digit_def is_space_def)
  moreover have "takeWhile is_digit (c # cs) = c # cs"
    using d dec_digits [of _ n] by (intro takeWhile_all) simp
  moreover have "digits_value (c # cs) = int n" using digits_value_dec [of n] d by simp
  ultimately show ?thesis by (simp add: atoi_def d)
qed

section \<open>printdigit\<close>

text \<open>The \<open>__LP64__\<close> branches; \<open>%ld\<close> prints a group, each of which is far below \<open>2 ^ 63\<close>.\<close>

definition printdigit :: "u64 \<Rightarrow> string" where
  "printdigit digit =
     (let d = unat digit; comma = '','' in
      if d > 999999999999 then
        dec (d div 1000000000000) @ comma @ dec_pad 3 (d mod 1000000000000 div 1000000000) @ comma
          @ dec_pad 3 (d mod 1000000000 div 1000000) @ comma @ dec_pad 3 (d mod 1000000 div 1000)
          @ comma @ dec_pad 3 (d mod 1000)
      else if d > 999999999 then
        dec (d div 1000000000) @ comma @ dec_pad 3 (d mod 1000000000 div 1000000) @ comma
          @ dec_pad 3 (d mod 1000000 div 1000) @ comma @ dec_pad 3 (d mod 1000)
      else if d > 999999 then
        dec (d mod 1000000000 div 1000000) @ comma @ dec_pad 3 (d mod 1000000 div 1000) @ comma
          @ dec_pad 3 (d mod 1000)
      else if d > 999 then
        dec (d div 1000) @ comma @ dec_pad 3 (d mod 1000)
      else dec d)"

lemma dec_pad3:
  assumes "b < 1000"
  shows "dec_pad 3 b = [digit_char (b div 100), digit_char (b div 10 mod 10), digit_char (b mod 10)]"
proof -
  consider "b < 10" | "10 \<le> b" "b < 100" | "100 \<le> b" by linarith
  then show ?thesis
  proof cases
    case 1
    then show ?thesis by (simp add: dec_pad_def dec.simps [of b] numeral_3_eq_3)
  next
    case 2
    then have "dec b = [digit_char (b div 10), digit_char (b mod 10)]"
      by (simp add: dec.simps [of b] dec.simps [of "b div 10"])
    with 2 show ?thesis by (simp add: dec_pad_def numeral_3_eq_3)
  next
    case 3
    moreover from 3 assms have "\<not> b div 10 < 10" "b div 100 < 10" "\<not> b < 10" by linarith+
    ultimately have "dec b = [digit_char (b div 100), digit_char (b div 10 mod 10), digit_char (b mod 10)]"
      by (simp add: dec.simps [of b] dec.simps [of "b div 10"] dec.simps [of "b div 100"]
          flip: div_mult2_eq)
    then show ?thesis by (simp add: dec_pad_def)
  qed
qed

lemma dec_split:
  assumes "0 < a" and "b < 1000"
  shows "dec (a * 1000 + b) = dec a @ dec_pad 3 b"
proof -
  let ?n = "a * 1000 + b"
  have "dec ?n = dec (?n div 10) @ [digit_char (?n mod 10)]"
    using assms(1) by (subst dec.simps) simp
  also have "dec (?n div 10) = dec (?n div 100) @ [digit_char (?n div 10 mod 10)]"
    using assms(1) by (subst dec.simps) (simp flip: div_mult2_eq)
  also have "dec (?n div 100) = dec (?n div 1000) @ [digit_char (?n div 100 mod 10)]"
    using assms(1) by (subst dec.simps) (simp flip: div_mult2_eq)
  finally have e: "dec ?n = dec (?n div 1000) @
    [digit_char (?n div 100 mod 10), digit_char (?n div 10 mod 10), digit_char (?n mod 10)]" by simp
  have n: "?n = 10 * (a * 100) + b" "?n = 100 * (a * 10) + b" by simp_all
  have q: "?n div 10 = 10 * (a * 10) + b div 10" "?n div 100 = 10 * a + b div 100"
    by (simp_all only: n(1) [THEN arg_cong, of "\<lambda>x. x div 10"] n(2) [THEN arg_cong, of "\<lambda>x. x div 100"]
        div_mult_self4 zero_neq_numeral [symmetric] not_False_eq_True)
  have b: "b div 100 < 10" using assms(2) by linarith
  have "?n div 1000 = a" using assms(2) by simp
  moreover have "?n div 100 mod 10 = b div 100" using b by (simp add: q(2))
  moreover have "?n div 10 mod 10 = b div 10 mod 10" by (simp only: q(1) mod_mult_self4)
  moreover have "?n mod 10 = b mod 10" by (simp only: n(1) mod_mult_self4)
  ultimately have "dec ?n = dec a @ [digit_char (b div 100), digit_char (b div 10 mod 10), digit_char (b mod 10)]"
    by (simp only: e)
  with assms(2) show ?thesis by (simp only: dec_pad3)
qed

lemma dec_group: "0 < d div 1000 \<Longrightarrow> dec d = dec (d div 1000) @ dec_pad 3 (d mod 1000)"
  using dec_split [of "d div 1000" "d mod 1000"] by simp

lemma no_comma: "filter (\<lambda>c. c \<noteq> CHR '','') (dec n) = dec n"
  by (rule filter_True) (auto dest!: dec_digits simp: is_digit_def)

lemma no_comma_pad: "filter (\<lambda>c. c \<noteq> CHR '','') (dec_pad k n) = dec_pad k n"
proof -
  have "is_digit (digit_char 0)" by (rule is_digit_digit_char) simp
  then have "digit_char 0 \<noteq> CHR '',''" by (auto simp: is_digit_def)
  then show ?thesis by (simp add: dec_pad_def no_comma)
qed

text \<open>
  \<open>printdigit\<close> writes the decimal digits of its argument, whatever the branch: without the
  commas its output is the plain decimal number, which \<open>atoi\<close> reads back.
\<close>

lemma printdigit_decimal:
  "filter (\<lambda>c. c \<noteq> CHR '','') (printdigit digit) = dec (unat digit) \<and>
   atoi (filter (\<lambda>c. c \<noteq> CHR '','') (printdigit digit)) = int (unat digit)"
proof -
  define d where "d = unat digit"
  have sw: "d mod (p * 1000) div p = d div p mod 1000" if "0 < p" for p :: nat
    using that by (simp add: mod_mult2_eq)
  have g: "p * 1000 \<le> d \<Longrightarrow> 0 < p \<Longrightarrow>
      dec (d div p) = dec (d div (p * 1000)) @ dec_pad 3 (d mod (p * 1000) div p)" for p
    using dec_group [of "d div p"]
    by (simp add: sw flip: div_mult2_eq) (simp add: div_greater_zero_iff)
  note gs = g [of 1, simplified] g [of 1000, simplified] g [of 1000000, simplified]
    g [of 1000000000, simplified]
  have "filter (\<lambda>c. c \<noteq> CHR '','') (printdigit digit) = dec d"
  proof -
    consider "d \<le> 999" | "999 < d" "d \<le> 999999" | "999999 < d" "d \<le> 999999999"
      | "999999999 < d" "d \<le> 999999999999" | "999999999999 < d" by linarith
    then show ?thesis
      by cases (simp_all add: printdigit_def Let_def no_comma no_comma_pad gs flip: d_def)
  qed
  then show ?thesis by (simp add: atoi_dec d_def)
qed

end
