(* ===== verification/Star_Config.thy ===== *)
theory Star_Config
  imports Star_Text
begin

text \<open>
  The configuration: \<open>GetStringValueConfig\<close> and \<open>ReadConfigFile\<close> of StarSocketServer.cpp, with
  the arrays at their sizes (\<open>configBuffer[2048]\<close>, \<open>valueBuffer[32]\<close>, \<open>s_szDBUser[16]\<close>, ...).
  What lies in the buffer behind the terminator of the file's text was never written, so reading
  it counts as \<^const>\<open>OutOfBounds\<close>.
\<close>

section \<open>Looking a value up\<close>

text \<open>The loop that looks for \<open>=\<close>; \<open>None\<close> is its early return at the terminator.\<close>

fun seek_equals :: "char list \<Rightarrow> char list option result" where
  "seek_equals [] = Inl OutOfBounds"
| "seek_equals (c # cs) =
     (if c = CHR ''='' then Inr (Some (c # cs))
      else case cs of
          [] \<Rightarrow> Inl OutOfBounds
        | d # _ \<Rightarrow> if d = NUL then Inr None else seek_equals cs)"

text \<open>The loop's two phases: once the first character is found, and before.\<close>

fun copy_found :: "char list \<Rightarrow> char list \<Rightarrow> nat \<Rightarrow> char list result" where
  "copy_found [] vb idxCount = Inl OutOfBounds"
| "copy_found (c # cs) vb idxCount =
     bindR (set_at vb (int idxCount) (if c = CHR 0x27 then NUL else c)) (\<lambda>vb'.
       case cs of
         [] \<Rightarrow> Inl OutOfBounds
       | d # _ \<Rightarrow>
           if d = LF \<or> d = CHR '' '' then set_at vb' (int (Suc idxCount)) NUL
           else copy_found cs vb' (Suc idxCount))"

fun copy_value :: "char list \<Rightarrow> char list \<Rightarrow> char list result" where
  "copy_value [] vb = Inl OutOfBounds"
| "copy_value (c # cs) vb =
     (if c \<noteq> CHR '' '' \<or> c = CHR 0x27 then copy_found (c # cs) vb 0 else copy_value cs vb)"

definition GetStringValueConfig :: "char list \<Rightarrow> string \<Rightarrow> char list \<Rightarrow> char list result" where
  "GetStringValueConfig configString tag vb =
     bindR (c_strstr configString tag) (\<lambda>found. case found of
       None \<Rightarrow> set_at vb 0 NUL
     | Some firstIdx \<Rightarrow>
         bindR (seek_equals firstIdx) (\<lambda>eq. case eq of
           None \<Rightarrow> Inr vb
         | Some p \<Rightarrow>
             (case tl p of
                [] \<Rightarrow> Inl OutOfBounds
              | c # cs \<Rightarrow> if c = LF then set_at vb 0 NUL else copy_value (c # cs) vb)))"

section \<open>Reading the file\<close>

record config =
  s_bDebugVersion :: bool
  s_nPort :: int
  s_nProtocol :: int
  s_nMaxConnection :: int
  s_nDataBuffer :: int
  s_nSQLBuffer :: int
  s_nDBMaxConnect :: int
  s_nServerType :: int
  s_nServerMEMG :: int
  s_nMaxRoom :: int
  s_nRoomCount :: int
  s_szDBUser :: "char list"
  s_szDBPass :: "char list"
  s_szDBName :: "char list"
  s_szIP :: "char list"

text \<open>One lookup into \<open>valueBuffer\<close> and the string it then holds.\<close>

definition cfg_get :: "char list \<Rightarrow> string \<Rightarrow> char list \<Rightarrow> (char list \<times> string) result" where
  "cfg_get mem tag valueBuffer =
     bindR (GetStringValueConfig mem tag valueBuffer) (\<lambda>v. bindR (c_string v) (\<lambda>s. Inr (v, s)))"

text \<open>The text the server writes when it has no configuration file.\<close>

definition default_file :: string where
  "default_file = concat (map (\<lambda>l. l @ [LF])
     [''[STAR_SOCKET_SERVER_CONFIG]'', ''DEBUG = 1'', ''PORT  = 9009'',
      ''PROTOCOL = 0 #TCP = 0,UDP =1'', ''MAX_CCU = 50'', ''DATA_BUFFER = 65536'',
      ''SQL_BUFFER = 65536'', ''DB_CCU = 10'', ''ALWAYON = 1'', ''SERVERMEM(GB) = 2'',
      ''[DB_CONFIG]'', ''DB_USER = root'', ''DB_PASS = '' @ [CHR 0x27, CHR 0x27], ''DB_NAME = StarDB'',
      ''DB_IP = 127.0.0.1''])"

definition default_config :: "config \<Rightarrow> config result" where
  "default_config c =
     bindR (c_strcpy (s_szDBUser c) ''root'') (\<lambda>user.
     bindR (c_strcpy (s_szDBPass c) ''123456'') (\<lambda>pass.
     bindR (c_strcpy (s_szDBName c) ''StarDB'') (\<lambda>name.
     bindR (c_strcpy (s_szIP c) ''127.0.0.1'') (\<lambda>ip.
       Inr (c\<lparr>s_bDebugVersion := True, s_nPort := 9009, s_nProtocol := 0, s_nMaxConnection := 50,
              s_nDataBuffer := 64 * 1024, s_nSQLBuffer := 64 * 1024, s_nDBMaxConnect := 10,
              s_nServerType := 1, s_nServerMEMG := 2, s_nMaxRoom := 0, s_nRoomCount := 0,
              s_szDBUser := user, s_szDBPass := pass, s_szDBName := name, s_szIP := ip\<rparr>)))))"

text \<open>
  \<open>ReadConfigFile\<close>: the file as its text, or \<open>None\<close> when it cannot be opened, and whether it can
  be created; the second result is the text written to a new file, if one is written. The result of
  \<open>fopen\<close> for writing is not checked: \<open>fprintf\<close> is given the null pointer where it failed.
\<close>

definition ReadConfigFile ::
  "string option \<Rightarrow> bool \<Rightarrow> char list \<Rightarrow> config \<Rightarrow> (config \<times> string option) result" where
  "ReadConfigFile file created valueBuffer c =
     (case file of
        None \<Rightarrow> bindR (default_config c) (\<lambda>c'. if created then Inr (c', Some default_file) else Inl NullDeref)
      | Some text \<Rightarrow>
          if 2048 < length text + 1 then Inl OutOfBounds
          else
            (let mem = text @ [NUL] in
             bindR (cfg_get mem ''DEBUG'' valueBuffer) (\<lambda>(v, debug).
             bindR (cfg_get mem ''PORT'' v) (\<lambda>(v, port).
             bindR (cfg_get mem ''PROTOCOL'' v) (\<lambda>(v, protocol).
             bindR (cfg_get mem ''MAX_CCU'' v) (\<lambda>(v, maxccu).
             bindR (cfg_get mem ''DATA_BUFFER'' v) (\<lambda>(v, databuf).
             bindR (cfg_get mem ''SQL_BUFFER'' v) (\<lambda>(v, sqlbuf).
             bindR (cfg_get mem ''DB_CCU'' v) (\<lambda>(v, dbccu).
             bindR (cfg_get mem ''ALWAYON'' v) (\<lambda>(v, alwayon).
             bindR (cfg_get mem ''SERVERMEM(GB)'' v) (\<lambda>(v, memg).
             bindR (cfg_get mem ''DB_USER'' v) (\<lambda>(v, user).
             bindR (c_strcpy (s_szDBUser c) user) (\<lambda>user'.
             bindR (cfg_get mem ''DB_PASS'' v) (\<lambda>(v, pass).
             bindR (c_strcpy (s_szDBPass c) pass) (\<lambda>pass'.
             bindR (cfg_get mem ''DB_NAME'' v) (\<lambda>(v, name).
             bindR (c_strcpy (s_szDBName c) name) (\<lambda>name'.
             bindR (cfg_get mem ''DB_IP'' v) (\<lambda>(v, ip).
             bindR (c_strcpy (s_szIP c) ip) (\<lambda>ip'.
               Inr (c\<lparr>s_bDebugVersion := (atoi debug \<noteq> 0), s_nPort := atoi port,
                      s_nProtocol := atoi protocol, s_nMaxConnection := atoi maxccu,
                      s_nDataBuffer := atoi databuf, s_nSQLBuffer := atoi sqlbuf,
                      s_nDBMaxConnect := atoi dbccu, s_nServerType := take_bit 32 (atoi alwayon),
                      s_nServerMEMG := atoi memg, s_nMaxRoom := 0, s_nRoomCount := 0,
                      s_szDBUser := user', s_szDBPass := pass', s_szDBName := name',
                      s_szIP := ip'\<rparr>, None))))))))))))))))))))"

section \<open>Lemmas on the lookup\<close>

lemma c_strstr_first:
  assumes "\<And>i. i < length pre \<Longrightarrow> take (length tag) (drop i (pre @ tag @ rest)) \<noteq> tag"
    and "NUL \<notin> set pre" and "tag \<noteq> []"
  shows "c_strstr (pre @ tag @ rest) tag = Inr (Some (tag @ rest))"
  using assms(1,2)
proof (induction pre)
  case Nil
  from assms(3) obtain t ts where "tag = t # ts" by (cases tag) auto
  then show ?case by simp
next
  case (Cons c pre)
  have "take (length tag) (drop i (pre @ tag @ rest)) \<noteq> tag" if "i < length pre" for i
    using Cons.prems(1) [of "Suc i"] that by simp
  with Cons.IH Cons.prems(2) have "c_strstr (pre @ tag @ rest) tag = Inr (Some (tag @ rest))"
    by simp
  moreover have "take (length tag) (c # pre @ tag @ rest) \<noteq> tag"
    using Cons.prems(1) [of 0] by simp
  ultimately show ?case using Cons.prems(2) by auto
qed

lemma seek_equals_skip:
  "CHR ''='' \<notin> set s \<Longrightarrow> NUL \<notin> set s \<Longrightarrow> seek_equals (s @ CHR ''='' # r) = Inr (Some (CHR ''='' # r))"
proof (induction s)
  case Nil
  then show ?case by simp
next
  case (Cons c s)
  have "(CHR ''='' :: char) \<noteq> NUL" by (simp add: NUL_def)
  with Cons show ?case by (cases s) auto
qed

lemma copy_value_spaces:
  "copy_value (replicate k (CHR '' '') @ r) vb = copy_value r vb"
  by (induction k) simp_all

text \<open>The loop stores the token character by character, a quote as a terminator.\<close>

definition unquote :: "string \<Rightarrow> char list" where
  "unquote v = map (\<lambda>c. if c = CHR 0x27 then NUL else c) v"

lemma copy_found_value:
  assumes "\<And>c. c \<in> set v \<Longrightarrow> c \<noteq> CHR '' '' \<and> c \<noteq> LF"
    and "sep = LF \<or> sep = CHR '' ''" and "v \<noteq> []" and "i + length v < length vb"
  shows "copy_found (v @ sep # r) vb i =
     Inr (take i vb @ unquote v @ NUL # drop (Suc (i + length v)) vb)"
  using assms(1,3,4)
proof (induction v arbitrary: i vb)
  case Nil
  then show ?case by simp
next
  case (Cons c v)
  let ?q = "if c = CHR 0x27 then NUL else c"
  let ?vb = "vb[i := ?q]"
  have set: "set_at vb (int i) ?q = Inr ?vb"
    using Cons.prems(3) by (intro set_at_nat) simp
  have split: "take (Suc i) ?vb = take i vb @ [?q]"
    using Cons.prems(3) by (simp add: take_Suc_conv_app_nth)
  show ?case
  proof (cases v)
    case Nil
    have "set_at ?vb (int (Suc i)) NUL = Inr (?vb[Suc i := NUL])"
      using Cons.prems(3) Nil by (intro set_at_nat) simp
    moreover have "?vb[Suc i := NUL] = take (Suc i) ?vb @ NUL # drop (Suc (Suc i)) ?vb"
      using Cons.prems(3) Nil by (intro upd_conv_take_nth_drop) simp
    ultimately show ?thesis
      using assms(2) Nil set split by (auto simp: unquote_def)
  next
    case (Cons d v')
    have "copy_found (v @ sep # r) ?vb (Suc i) =
        Inr (take (Suc i) ?vb @ unquote v @ NUL # drop (Suc (Suc i + length v)) ?vb)"
      using Cons local.Cons.prems by (intro local.Cons.IH) auto
    then show ?thesis
      using local.Cons.prems(1) [of d] Cons set split
      by (auto simp: unquote_def copy_found.simps(2) [of c] simp del: copy_found.simps(2))
  qed
qed

text \<open>
  What the lookup means: the token between the spaces after the first \<open>=\<close> behind the first
  occurrence of the key and the next space or line end, up to its first quote.
\<close>

definition config_token :: "char list \<Rightarrow> string \<Rightarrow> string option" where
  "config_token mem tag =
     (case c_strstr mem tag of
        Inr (Some p) \<Rightarrow>
          (case seek_equals p of
             Inr (Some (e # q)) \<Rightarrow>
               (let q' = dropWhile (\<lambda>c. c = CHR '' '') q;
                    v = takeWhile (\<lambda>c. c \<noteq> CHR '' '' \<and> c \<noteq> LF) q'
                in if v = [] \<or> NUL \<in> set v \<or> length v = length q' then None else Some v)
           | _ \<Rightarrow> None)
      | _ \<Rightarrow> None)"

lemma replicate_dropWhile: "replicate (length (takeWhile (\<lambda>c. c = x) q)) x @ dropWhile (\<lambda>c. c = x) q = q"
  by (induction q) auto

lemma c_string_unquote:
  assumes "NUL \<notin> set v"
  shows "c_string (unquote v @ NUL # r) = Inr (takeWhile (\<lambda>c. c \<noteq> CHR 0x27) v)"
proof -
  have "takeWhile (\<lambda>c. c \<noteq> NUL) (unquote v @ NUL # r) = takeWhile (\<lambda>c. c \<noteq> CHR 0x27) v"
    using assms by (induction v) (auto simp: unquote_def NUL_def)
  then show ?thesis by (simp add: c_string_def)
qed

lemma GetStringValueConfig_token:
  assumes "config_token mem tag = Some v" and "length v < length vb"
  shows "GetStringValueConfig mem tag vb = Inr (unquote v @ NUL # drop (Suc (length v)) vb)"
proof -
  from assms(1) obtain p e q where pq: "c_strstr mem tag = Inr (Some p)"
      "seek_equals p = Inr (Some (e # q))"
    by (auto simp: config_token_def split: sum.splits option.splits list.splits)
  define q' where "q' = dropWhile (\<lambda>c. c = CHR '' '') q"
  with assms(1) pq have v: "v = takeWhile (\<lambda>c. c \<noteq> CHR '' '' \<and> c \<noteq> LF) q'" "v \<noteq> []"
      "length v \<noteq> length q'"
    by (auto simp: config_token_def Let_def split: if_splits)
  define rest where "rest = dropWhile (\<lambda>c. c \<noteq> CHR '' '' \<and> c \<noteq> LF) q'"
  have q'_split: "q' = v @ rest" by (simp add: v(1) rest_def)
  with v(3) obtain sep r where rest: "rest = sep # r" by (cases rest) auto
  have sep: "sep = LF \<or> sep = CHR '' ''"
    using rest unfolding rest_def by (auto simp: dropWhile_eq_Cons_conv)
  have inv: "c \<in> set v \<Longrightarrow> c \<noteq> CHR '' '' \<and> c \<noteq> LF" for c
    unfolding v(1) by (drule set_takeWhileD) simp
  have q_split: "q = replicate (length (takeWhile (\<lambda>c. c = CHR '' '') q)) (CHR '' '') @ v @ sep # r"
    using replicate_dropWhile [of "CHR '' ''" q] unfolding q'_def [symmetric] q'_split rest by (rule sym)
  obtain d v' where dv: "v = d # v'" using v(2) by (cases v) auto
  then have d: "d \<noteq> CHR '' ''" "d \<noteq> LF" using inv by auto
  have cv: "copy_value q vb = Inr (unquote v @ NUL # drop (Suc (length v)) vb)"
    using copy_found_value [of v sep 0 vb r] inv sep v(2) assms(2) dv d
    by (subst q_split) (simp add: copy_value_spaces)
  obtain f fs where f: "q = f # fs" "f \<noteq> LF"
    using q_split dv d by (cases "length (takeWhile (\<lambda>c. c = CHR '' '') q)") (auto simp: LF_def)
  show ?thesis using pq cv f by (simp add: GetStringValueConfig_def)
qed

text \<open>
  Looking a key up stores the token behind it; the string then held is the token up to its
  first quote, so \<open>'abc'\<close> and \<open>''\<close> both read as the empty string.
\<close>

lemma cfg_get_token:
  assumes "config_token mem tag = Some v" and "length v < length vb"
  shows "\<exists>vb'. cfg_get mem tag vb = Inr (vb', takeWhile (\<lambda>c. c \<noteq> CHR 0x27) v) \<and> length vb' = length vb"
proof -
  have "NUL \<notin> set v"
    using assms(1) by (auto simp: config_token_def Let_def split: sum.splits option.splits list.splits if_splits)
  then show ?thesis
    using assms(2) by (simp add: cfg_get_def GetStringValueConfig_token [OF assms] c_string_unquote)
      (simp add: unquote_def)
qed

lemma cfg_get_token_witness:
  "\<exists>vb'. cfg_get (''DB_USER = '' @ [CHR 0x27] @ ''abc'' @ [CHR 0x27, LF, NUL]) ''DB_USER'' (replicate 32 NUL)
     = Inr (vb', []) \<and> length vb' = 32"
proof -
  have t: "config_token (''DB_USER = '' @ [CHR 0x27] @ ''abc'' @ [CHR 0x27, LF, NUL]) ''DB_USER'' =
      Some ([CHR 0x27] @ ''abc'' @ [CHR 0x27])"
    by code_simp
  show ?thesis using cfg_get_token [OF t, of "replicate 32 NUL"] by simp
qed

section \<open>The default configuration\<close>

lemma default_tokens:
  "config_token (default_file @ [NUL]) ''DEBUG'' = Some ''1''"
  "config_token (default_file @ [NUL]) ''PORT'' = Some ''9009''"
  "config_token (default_file @ [NUL]) ''PROTOCOL'' = Some ''0''"
  "config_token (default_file @ [NUL]) ''MAX_CCU'' = Some ''50''"
  "config_token (default_file @ [NUL]) ''DATA_BUFFER'' = Some ''65536''"
  "config_token (default_file @ [NUL]) ''SQL_BUFFER'' = Some ''65536''"
  "config_token (default_file @ [NUL]) ''DB_CCU'' = Some ''10''"
  "config_token (default_file @ [NUL]) ''ALWAYON'' = Some ''1''"
  "config_token (default_file @ [NUL]) ''SERVERMEM(GB)'' = Some ''2''"
  "config_token (default_file @ [NUL]) ''DB_USER'' = Some ''root''"
  "config_token (default_file @ [NUL]) ''DB_PASS'' = Some [CHR 0x27, CHR 0x27]"
  "config_token (default_file @ [NUL]) ''DB_NAME'' = Some ''StarDB''"
  "config_token (default_file @ [NUL]) ''DB_IP'' = Some ''127.0.0.1''"
  by code_simp+

lemma default_atoi:
  "atoi ''1'' = 1" "atoi ''9009'' = 9009" "atoi ''0'' = 0" "atoi ''50'' = 50"
  "atoi ''65536'' = 65536" "atoi ''10'' = 10" "atoi ''2'' = 2"
  by code_simp+

lemma cfg_get_step:
  assumes "config_token mem tag = Some v" and "length v < 32" and "length vb = 32"
    and "\<And>vb'. length vb' = 32 \<Longrightarrow> f (vb', takeWhile (\<lambda>c. c \<noteq> CHR 0x27) v) = r"
  shows "bindR (cfg_get mem tag vb) f = r"
  using cfg_get_token [OF assms(1), of vb] assms(2-4) by auto

lemma default_length: "length (default_file @ [NUL]) \<le> 2048"
  by code_simp

lemma cfg_get_step':
  assumes "config_token mem tag = Some v" and "takeWhile (\<lambda>c. c \<noteq> CHR 0x27) v = s"
    and "length v < 32" and "length vb = 32" and "\<And>vb'. length vb' = 32 \<Longrightarrow> f vb' s = r"
  shows "bindR (cfg_get mem tag vb) (\<lambda>(v, s). f v s) = r"
  using cfg_get_token [OF assms(1), of vb] assms(2-5) by auto

lemmas default_steps = default_tokens [THEN cfg_get_step', simplified]

text \<open>
  C32: a server started without a configuration file writes one that the next start reads as the
  same configuration, except for the database password: the first run uses \<open>123456\<close>, the second
  the empty string.
\<close>

theorem default_file_roundtrip:
  assumes "length vb = 32" and "length (s_szDBUser c) = 16" and "length (s_szDBPass c) = 16"
    and "length (s_szDBName c) = 16" and "length (s_szIP c) = 32"
  shows "\<exists>c1 pass2.
     ReadConfigFile None True vb c = Inr (c1, Some default_file) \<and>
     ReadConfigFile (Some default_file) w vb c = Inr (c1\<lparr>s_szDBPass := pass2\<rparr>, None) \<and>
     c_string (s_szDBPass c1) = Inr ''123456'' \<and> c_string pass2 = Inr []"
proof -
  have copies: "\<exists>a. c_strcpy (s_szDBUser c) ''root'' = Inr a" "\<exists>a. c_strcpy (s_szDBPass c) ''123456'' = Inr a"
    "\<exists>a. c_strcpy (s_szDBPass c) [] = Inr a" "\<exists>a. c_strcpy (s_szDBName c) ''StarDB'' = Inr a"
    "\<exists>a. c_strcpy (s_szIP c) ''127.0.0.1'' = Inr a"
    using assms by (simp_all add: c_strcpy_def store_total)
  then obtain user pass pass2 name ip where cp: "c_strcpy (s_szDBUser c) ''root'' = Inr user"
    "c_strcpy (s_szDBPass c) ''123456'' = Inr pass" "c_strcpy (s_szDBPass c) [] = Inr pass2"
    "c_strcpy (s_szDBName c) ''StarDB'' = Inr name" "c_strcpy (s_szIP c) ''127.0.0.1'' = Inr ip"
    by blast
  obtain c1 where first: "default_config c = Inr c1" and pass1: "s_szDBPass c1 = pass"
    and c1: "c1 = c\<lparr>s_bDebugVersion := True, s_nPort := 9009, s_nProtocol := 0, s_nMaxConnection := 50,
       s_nDataBuffer := 65536, s_nSQLBuffer := 65536, s_nDBMaxConnect := 10, s_nServerType := 1,
       s_nServerMEMG := 2, s_nMaxRoom := 0, s_nRoomCount := 0, s_szDBUser := user,
       s_szDBPass := pass, s_szDBName := name, s_szIP := ip\<rparr>"
    by (simp add: default_config_def cp)
  have "ReadConfigFile (Some default_file) w vb c = Inr (c1\<lparr>s_szDBPass := pass2\<rparr>, None)"
    unfolding ReadConfigFile_def option.case Let_def using default_length assms(1)
    by (simp only: length_append list.size, subst if_not_P, simp, intro default_steps)
      (simp_all add: default_steps cp c1 default_atoi, subst cp, simp add: cp default_atoi)
  moreover have "c_string pass = Inr ''123456''" "c_string pass2 = Inr []"
    by (rule c_string_strcpy [OF _ cp(2)], simp add: NUL_def) (rule c_string_strcpy [OF _ cp(3)], simp)
  ultimately show ?thesis using first pass1 by (auto simp: ReadConfigFile_def)
qed

theorem default_file_roundtrip_witness:
  "\<exists>c c1 pass2.
     ReadConfigFile None True (replicate 32 NUL) c = Inr (c1, Some default_file) \<and>
     ReadConfigFile (Some default_file) True (replicate 32 NUL) c = Inr (c1\<lparr>s_szDBPass := pass2\<rparr>, None) \<and>
     c_string (s_szDBPass c1) = Inr ''123456'' \<and> c_string pass2 = Inr []"
proof -
  let ?c = "\<lparr>s_bDebugVersion = True, s_nPort = 0, s_nProtocol = 0, s_nMaxConnection = 0,
    s_nDataBuffer = 0, s_nSQLBuffer = 0, s_nDBMaxConnect = 0, s_nServerType = 0, s_nServerMEMG = 0,
    s_nMaxRoom = 0, s_nRoomCount = 0, s_szDBUser = replicate 16 NUL, s_szDBPass = replicate 16 NUL,
    s_szDBName = replicate 16 NUL, s_szIP = replicate 32 NUL\<rparr>"
  show ?thesis
    by (rule exI [of _ ?c]) (rule default_file_roundtrip, simp_all)
qed

lemma copy_found_runs_off:
  assumes "\<And>c. c \<in> set v \<Longrightarrow> c \<noteq> CHR '' '' \<and> c \<noteq> LF"
  shows "copy_found v vb i = Inl OutOfBounds"
  using assms
proof (induction v vb i rule: copy_found.induct)
  case (1 vb i)
  show ?case by simp
next
  case (2 c cs vb i)
  show ?case
  proof (cases "set_at vb (int i) (if c = CHR 0x27 then NUL else c)")
    case (Inl e)
    then have "e = OutOfBounds" by (auto simp: set_at_def split: if_splits)
    with Inl show ?thesis by simp
  next
    case (Inr vb')
    with "2.IH" [of vb'] "2.prems" show ?thesis by (cases cs) auto
  qed
qed

text \<open>
  Without a file, and where none can be written (a directory without write permission, a full table
  of descriptors), the server does not fall back on the defaults it has just set: it crashes.
\<close>

lemma no_config_crashes:
  assumes "default_config c = Inr c'"
  shows "ReadConfigFile None False vb c = Inl NullDeref"
  using assms by (simp add: ReadConfigFile_def)

text \<open>
  A value that ends the file, with no line end or space behind it, is not found: the copy loop
  does not stop at the terminator and leaves the buffer (the one it reads, or \<open>valueBuffer\<close>).
\<close>

lemma unterminated_value_runs_off:
  assumes "c_strstr mem tag = Inr (Some p)"
    and "seek_equals p = Inr (Some (e # q))" and "q \<noteq> []" and "hd q \<noteq> CHR '' ''"
    and "\<And>c. c \<in> set q \<Longrightarrow> c \<noteq> CHR '' '' \<and> c \<noteq> LF"
  shows "GetStringValueConfig mem tag vb = Inl OutOfBounds"
proof -
  obtain c cs where q: "q = c # cs" using assms(3) by (cases q) auto
  with assms(5) [of c] have "c \<noteq> LF" "c \<noteq> CHR '' ''" by auto
  moreover have "copy_found q vb 0 = Inl OutOfBounds"
    by (rule copy_found_runs_off) (rule assms(5))
  ultimately show ?thesis
    using assms(1,2) q
    by (simp add: GetStringValueConfig_def del: copy_found.simps)
qed

lemma unterminated_value_runs_off_witness:
  "GetStringValueConfig (''PORT=9009'' @ [NUL]) ''PORT'' (replicate 32 NUL) = Inl OutOfBounds"
proof (rule unterminated_value_runs_off)
  show "c_strstr (''PORT=9009'' @ [NUL]) ''PORT'' = Inr (Some (''PORT=9009'' @ [NUL]))" by code_simp
  show "seek_equals (''PORT=9009'' @ [NUL]) = Inr (Some (CHR ''='' # ''9009'' @ [NUL]))" by code_simp
qed (auto simp: NUL_def LF_def)

end
