(* ===== verification/Star_Socket.thy ===== *)
theory Star_Socket
  imports Star_Wire
begin

text \<open>
  The socket loops \<open>Read\<close>, \<open>ReadFrom\<close>, \<open>WriteTo\<close> and the per-client body of \<open>WriteAll\<close>. A
  connection carries the results the operating system will give to the next calls: what
  \<open>recv\<close> delivers (an error, bytes, or the end of the stream), what \<open>send\<close> returns, and what
  \<open>poll\<close> returns. Where these run out the call waits: \<^const>\<open>Blocked\<close>.
\<close>

section \<open>Connections\<close>

text \<open>\<open>RecvBytes []\<close> is the end of the stream: \<open>recv\<close> returns 0, and will again.\<close>

datatype recv_event = RecvError | RecvBytes "u8 list"

record conn =
  rx :: "recv_event list"
  tx :: "int list"
  sent :: "u8 list"
  closed :: bool

text \<open>One call \<open>recv (sock, buf, n)\<close>: its result and what it puts into the buffer.\<close>

fun recv_once :: "nat \<Rightarrow> recv_event list \<Rightarrow> (int \<times> u8 list \<times> recv_event list) result" where
  "recv_once n [] = Inl Blocked"
| "recv_once n (RecvError # evs) = Inr (-1, [], evs)"
| "recv_once n (RecvBytes bs # evs) =
     (if bs = [] then Inr (0, [], RecvBytes bs # evs)
      else if length bs \<le> n then Inr (int (length bs), bs, evs)
      else Inr (int n, take n bs, RecvBytes (drop n bs) # evs))"

text \<open>One call \<open>send (sock, buf, n)\<close>: the bytes the system takes.\<close>

definition send_taken :: "int \<Rightarrow> u8 list \<Rightarrow> nat" where
  "send_taken w bs = min (nat w) (length bs)"

section \<open>ReadFrom\<close>

text \<open>
  The loop of the blocking branch: repeat \<open>recv\<close> while it fails, add what it delivers, return 0 at
  the end of the stream. The bytes are what has been written to the buffer when it returns.
\<close>

fun ReadFrom_loop :: "recv_event list \<Rightarrow> nat \<Rightarrow> u8 list \<Rightarrow> (int \<times> u8 list \<times> recv_event list) result" where
  "ReadFrom_loop evs 0 got = Inr (int (length got), got, evs)"
| "ReadFrom_loop [] (Suc n) got = Inl Blocked"
| "ReadFrom_loop (RecvError # evs) (Suc n) got = ReadFrom_loop evs (Suc n) got"
| "ReadFrom_loop (RecvBytes bs # evs) (Suc n) got =
     (if bs = [] then Inr (0, got, RecvBytes bs # evs)
      else if length bs \<le> Suc n then ReadFrom_loop evs (Suc n - length bs) (got @ bs)
      else Inr (int (length got + Suc n), got @ take (Suc n) bs, RecvBytes (drop (Suc n) bs) # evs))"

definition ReadFrom :: "conn \<Rightarrow> nat \<Rightarrow> bool \<Rightarrow> (int \<times> u8 list \<times> conn) result" where
  "ReadFrom c count NonBlocking =
     (if \<not> NonBlocking
      then bindR (ReadFrom_loop (rx c) count []) (\<lambda>(r, bs, evs). Inr (r, bs, c\<lparr>rx := evs\<rparr>))
      else bindR (recv_once count (rx c)) (\<lambda>(r, bs, evs). Inr (r, bs, c\<lparr>rx := evs\<rparr>)))"

text \<open>
  The other branch on a datagram socket (the listening socket of a UDP server): one call takes one
  datagram, \<open>recvfrom\<close> discards what does not fit into the buffer, and an empty datagram, unlike the
  end of a stream, is taken too.
\<close>

fun ReadFrom_datagram :: "recv_event list \<Rightarrow> nat \<Rightarrow> (int \<times> u8 list \<times> recv_event list) result" where
  "ReadFrom_datagram [] count = Inl Blocked"
| "ReadFrom_datagram (RecvError # evs) count = Inr (-1, [], evs)"
| "ReadFrom_datagram (RecvBytes bs # evs) count = Inr (int (length (take count bs)), take count bs, evs)"

section \<open>WriteTo\<close>

fun WriteTo_loop :: "int list \<Rightarrow> u8 list \<Rightarrow> u8 list \<Rightarrow> (int \<times> u8 list \<times> int list) result" where
  "WriteTo_loop ws [] out = Inr (int (length out), out, ws)"
| "WriteTo_loop [] (b # bs) out = Inl Blocked"
| "WriteTo_loop (w # ws) (b # bs) out =
     (if w = 0 then Inr (0, out, ws)
      else if 0 < w
      then WriteTo_loop ws (drop (send_taken w (b # bs)) (b # bs)) (out @ take (send_taken w (b # bs)) (b # bs))
      else WriteTo_loop ws (b # bs) out)"

text \<open>The UDP branch is a comment in the source: it sends nothing and returns 0.\<close>

definition WriteTo :: "int \<Rightarrow> conn \<Rightarrow> u8 list \<Rightarrow> (int \<times> conn) result" where
  "WriteTo s_nProtocol c buf =
     (if s_nProtocol = STSV_TCP_PROTOCOL
      then bindR (WriteTo_loop (tx c) buf [])
        (\<lambda>(r, out, ws). Inr (r, c\<lparr>tx := ws, sent := sent c @ out\<rparr>))
      else Inr (0, c))"

section \<open>Read and WriteAll\<close>

text \<open>
  \<open>Read\<close>. In its blocking branch \<open>this_read\<close> is never reset, so after the first successful
  \<open>recv\<close> the loop only adds the same number again until \<open>count\<close> is reached.
\<close>

fun recv_retry :: "nat \<Rightarrow> recv_event list \<Rightarrow> (int \<times> u8 list \<times> recv_event list) result" where
  "recv_retry n [] = Inl Blocked"
| "recv_retry n (RecvError # evs) = recv_retry n evs"
| "recv_retry n (RecvBytes bs # evs) = recv_once n (RecvBytes bs # evs)"

definition Read :: "bool \<Rightarrow> conn \<Rightarrow> nat \<Rightarrow> (int \<times> u8 list \<times> conn) result" where
  "Read NonBlocking c count =
     (if \<not> NonBlocking then
        (if count = 0 then Inr (0, [], c)
         else bindR (recv_retry count (rx c)) (\<lambda>(this_read, bs, evs).
           if this_read = 0 then Inr (0, [], c\<lparr>rx := evs\<rparr>) else Inr (int count, bs, c\<lparr>rx := evs\<rparr>)))
      else bindR (recv_once count (rx c)) (\<lambda>(this_read, bs, evs).
        if this_read < 0 then Inr (this_read, [], c\<lparr>rx := evs\<rparr>)
        else if this_read = 0 then Inr (0, [], c\<lparr>rx := evs\<rparr>)
        else Inr (int count, bs, c\<lparr>rx := evs\<rparr>)))"

text \<open>
  The body of \<open>WriteAll\<close> for one online client. Here \<open>this_write\<close> is never reset either: one
  successful \<open>sendto\<close> is counted until \<open>count\<close> is reached, and a result 0 loops for ever.
\<close>

fun sendto_retry :: "int list \<Rightarrow> (int \<times> int list) result" where
  "sendto_retry [] = Inl Blocked"
| "sendto_retry (w # ws) = (if w < 0 then sendto_retry ws else Inr (w, ws))"

definition WriteAll_one :: "bool \<Rightarrow> conn \<Rightarrow> u8 list \<Rightarrow> conn result" where
  "WriteAll_one NonBlocking c buff =
     (if \<not> NonBlocking then
        (if buff = [] then Inr c
         else bindR (sendto_retry (tx c)) (\<lambda>(w, ws).
           if w = 0 then Inl Blocked
           else Inr (c\<lparr>tx := ws, sent := sent c @ take (send_taken w buff) buff\<rparr>)))
      else (case tx c of
          [] \<Rightarrow> Inl Blocked
        | w # ws \<Rightarrow> Inr (c\<lparr>tx := ws, sent := sent c @ take (send_taken w buff) buff\<rparr>)))"

section \<open>What ReadFrom delivers\<close>

text \<open>The specification: the bytes still to come, however the network cuts them.\<close>

fun stream :: "recv_event list \<Rightarrow> u8 list" where
  "stream [] = []"
| "stream (RecvError # evs) = stream evs"
| "stream (RecvBytes bs # evs) = (if bs = [] then [] else bs @ stream evs)"

fun stream_ends :: "recv_event list \<Rightarrow> bool" where
  "stream_ends [] = False"
| "stream_ends (RecvError # evs) = stream_ends evs"
| "stream_ends (RecvBytes bs # evs) = (bs = [] \<or> stream_ends evs)"

lemma ReadFrom_loop_stream:
  "n \<le> length (stream evs) \<Longrightarrow>
   \<exists>evs'. ReadFrom_loop evs n got = Inr (int (length got + n), got @ take n (stream evs), evs') \<and>
     stream evs' = drop n (stream evs) \<and> (stream_ends evs' \<longleftrightarrow> stream_ends evs)"
  by (induction evs n got rule: ReadFrom_loop.induct) (auto split: if_splits)

lemma ReadFrom_loop_short:
  "length (stream evs) < n \<Longrightarrow>
   ReadFrom_loop evs n got =
     (if stream_ends evs then Inr (0, got @ stream evs, dropWhile (\<lambda>e. e \<noteq> RecvBytes []) evs)
      else Inl Blocked)"
  by (induction evs n got rule: ReadFrom_loop.induct) (auto split: if_splits)

text \<open>
  C26: the blocking \<open>ReadFrom\<close> reads exactly \<open>count\<close> bytes of the stream when that many come,
  whatever the sizes of the segments and however many times \<open>recv\<close> fails in between, and leaves
  the rest of the stream for the next call. If the stream ends before, it returns 0; otherwise
  it waits.
\<close>

theorem ReadFrom_reads_stream:
  "if count \<le> length (stream (rx c))
   then \<exists>c'. ReadFrom c count False = Inr (int count, take count (stream (rx c)), c') \<and>
     stream (rx c') = drop count (stream (rx c)) \<and> tx c' = tx c \<and> sent c' = sent c
   else if stream_ends (rx c)
   then \<exists>c'. ReadFrom c count False = Inr (0, stream (rx c), c')
   else ReadFrom c count False = Inl Blocked"
  using ReadFrom_loop_stream [of count "rx c" "[]"] ReadFrom_loop_short [of "rx c" count "[]"]
  by (auto simp: ReadFrom_def not_le)

section \<open>What WriteTo sends\<close>

text \<open>
  The bytes the calls of \<open>send\<close> take before one of them finds the connection closed (its result is 0). A
  result below 0 takes none, and the loop calls again.
\<close>

definition offered :: "int list \<Rightarrow> nat" where
  "offered ws = sum_list (map nat (takeWhile (\<lambda>w. w \<noteq> 0) ws))"

lemma offered_simps [simp]:
  "offered [] = 0" "offered (w # ws) = (if w = 0 then 0 else nat w + offered ws)"
  by (simp_all add: offered_def)

lemma WriteTo_loop_all:
  "length bs \<le> offered ws \<Longrightarrow>
   \<exists>used rest. ws = used @ rest \<and> 0 \<notin> set used \<and> WriteTo_loop ws bs out = Inr (int (length (out @ bs)), out @ bs, rest)"
proof (induction ws bs out rule: WriteTo_loop.induct)
  case (3 w ws b bs out)
  let ?k = "send_taken w (b # bs)"
  have k: "length (drop ?k (b # bs)) \<le> offered ws" if "0 < w"
    using "3.prems" that by (auto simp: send_taken_def min_def)
  have "w \<noteq> 0" using "3.prems" by auto
  then consider "0 < w" | "w < 0" by linarith
  then have "\<exists>used rest. ws = used @ rest \<and> 0 \<notin> set used \<and>
      WriteTo_loop (w # ws) (b # bs) out = Inr (int (length (out @ b # bs)), out @ b # bs, rest)"
  proof cases
    case 1
    from "3.IH"(1) [OF _ 1 k [OF 1]] 1 show ?thesis by auto
  next
    case 2
    with "3.IH"(2) "3.prems" show ?thesis by auto
  qed
  with \<open>w \<noteq> 0\<close> show ?case by (metis append_Cons set_ConsD)
qed auto

lemma WriteTo_loop_lost:
  "offered ws < length bs \<Longrightarrow> WriteTo_loop ws bs out =
    (if 0 \<in> set ws then Inr (0, out @ take (offered ws) bs, tl (dropWhile (\<lambda>w. w \<noteq> 0) ws)) else Inl Blocked)"
proof (induction ws bs out rule: WriteTo_loop.induct)
  case (3 w ws b bs out)
  consider "w = 0" | "0 < w" | "w < 0" by linarith
  then show ?case
  proof cases
    case 2
    then have k: "send_taken w (b # bs) = nat w" using "3.prems" by (simp add: send_taken_def)
    have "offered ws < length (drop (nat w) (b # bs))" using "3.prems" 2 by simp
    with "3.IH"(1) 2 k have "WriteTo_loop ws (drop (nat w) (b # bs)) (out @ take (nat w) (b # bs)) =
      (if 0 \<in> set ws then Inr (0, (out @ take (nat w) (b # bs)) @ take (offered ws) (drop (nat w) (b # bs)),
         tl (dropWhile (\<lambda>w. w \<noteq> 0) ws)) else Inl Blocked)" by simp
    with 2 k show ?thesis by (simp add: take_add)
  qed (use 3 in auto)
qed auto

text \<open>How many calls of \<open>send\<close> take something.\<close>

definition progress :: "int list \<Rightarrow> nat" where
  "progress ws = length (filter (\<lambda>w. 0 < w) ws)"

lemma WriteTo_loop_returns:
  "0 \<notin> set ws \<Longrightarrow> length bs \<le> progress ws \<Longrightarrow>
   \<exists>ws'. WriteTo_loop ws bs out = Inr (int (length (out @ bs)), out @ bs, ws') \<and>
     0 \<notin> set ws' \<and> progress ws \<le> progress ws' + length bs"
proof (induction ws bs out rule: WriteTo_loop.induct)
  case (3 w ws b bs out)
  show ?case
  proof (cases "0 < w")
    case True
    let ?k = "send_taken w (b # bs)"
    have "0 < ?k" using True by (simp add: send_taken_def)
    then have "length (drop ?k (b # bs)) \<le> progress ws"
      using "3.prems"(2) True by (auto simp: progress_def)
    with "3.IH"(1) "3.prems"(1) True obtain ws' where
      "WriteTo_loop ws (drop ?k (b # bs)) (out @ take ?k (b # bs)) =
        Inr (int (length ((out @ take ?k (b # bs)) @ drop ?k (b # bs))),
             (out @ take ?k (b # bs)) @ drop ?k (b # bs), ws')"
      "0 \<notin> set ws'" "progress ws \<le> progress ws' + length (drop ?k (b # bs))"
      by auto
    then have "WriteTo_loop ws (drop ?k (b # bs)) (out @ take ?k (b # bs)) =
        Inr (int (length (out @ b # bs)), out @ b # bs, ws')"
      by simp
    moreover have "progress (w # ws) \<le> progress ws' + length (b # bs)"
      using True \<open>0 < ?k\<close> \<open>progress ws \<le> progress ws' + length (drop ?k (b # bs))\<close> by (auto simp: progress_def)
    ultimately show ?thesis using True \<open>0 \<notin> set ws'\<close> by simp
  next
    case False
    with 3 show ?thesis by (auto simp: progress_def)
  qed
qed (auto simp: progress_def)

text \<open>
  C25: over TCP \<open>WriteTo\<close> sends the whole buffer, in order and once, when the calls of \<open>send\<close> take that much
  before one of them finds the connection closed; failing calls (-1) in between are repeated. It returns 0 for a
  buffer that is not empty exactly when a call returns 0 first: then the bytes taken so far are sent, and no call
  is made after that one. Otherwise it does not return. Over UDP it sends nothing and returns 0, which its
  callers take for a lost connection.
\<close>

theorem WriteTo_all_or_disconnect:
  "if proto \<noteq> STSV_TCP_PROTOCOL then WriteTo proto c buf = Inr (0, c)
   else if length buf \<le> offered (tx c)
   then \<exists>used rest. tx c = used @ rest \<and> 0 \<notin> set used \<and>
     WriteTo proto c buf = Inr (int (length buf), c\<lparr>tx := rest, sent := sent c @ buf\<rparr>)
   else if 0 \<in> set (tx c)
   then WriteTo proto c buf =
     Inr (0, c\<lparr>tx := tl (dropWhile (\<lambda>w. w \<noteq> 0) (tx c)), sent := sent c @ take (offered (tx c)) buf\<rparr>)
   else WriteTo proto c buf = Inl Blocked"
proof (cases "length buf \<le> offered (tx c)")
  case True
  from WriteTo_loop_all [OF True, of "[]"] obtain used rest where
    "tx c = used @ rest" "0 \<notin> set used" "WriteTo_loop (tx c) buf [] = Inr (int (length buf), buf, rest)" by auto
  then have "\<exists>used rest. tx c = used @ rest \<and> 0 \<notin> set used \<and>
      WriteTo STSV_TCP_PROTOCOL c buf = Inr (int (length buf), c\<lparr>tx := rest, sent := sent c @ buf\<rparr>)"
    by (intro exI [of _ used] exI [of _ rest]) (simp add: WriteTo_def)
  with True show ?thesis by (simp add: WriteTo_def)
next
  case False
  with WriteTo_loop_lost [of "tx c" buf "[]"] show ?thesis by (simp add: WriteTo_def)
qed

theorem WriteTo_all_or_disconnect_witness:
  "(\<exists>ws. WriteTo STSV_TCP_PROTOCOL \<lparr>rx = [], tx = [2, -1, 5], sent = [9], closed = False\<rparr> [1, 2, 3] =
     Inr (3, \<lparr>rx = [], tx = ws, sent = [9, 1, 2, 3], closed = False\<rparr>)) \<and>
   WriteTo STSV_TCP_PROTOCOL \<lparr>rx = [], tx = [2, -1, 0, 5], sent = [9], closed = False\<rparr> [1, 2, 3] =
     Inr (0, \<lparr>rx = [], tx = [5], sent = [9, 1, 2], closed = False\<rparr>) \<and>
   WriteTo STSV_TCP_PROTOCOL \<lparr>rx = [], tx = [2, -1], sent = [9], closed = False\<rparr> [1, 2, 3] = Inl Blocked"
proof -
  let ?c = "\<lambda>ws. \<lparr>rx = [], tx = ws, sent = [9], closed = False\<rparr>"
  show ?thesis
    using WriteTo_all_or_disconnect [of STSV_TCP_PROTOCOL "?c [2, -1, 5]" "[1, 2, 3]"]
      WriteTo_all_or_disconnect [of STSV_TCP_PROTOCOL "?c [2, -1, 0, 5]" "[1, 2, 3]"]
      WriteTo_all_or_disconnect [of STSV_TCP_PROTOCOL "?c [2, -1]" "[1, 2, 3]"]
    by auto
qed



text \<open>
  The blocking \<open>Read\<close> reports \<open>count\<close> bytes although it has received only the first segment.
\<close>

lemma Read_reports_unreceived_bytes:
  assumes "bs \<noteq> []" and "length bs < count"
  shows "Read False (c\<lparr>rx := replicate k RecvError @ RecvBytes bs # evs\<rparr>) count =
    Inr (int count, bs, c\<lparr>rx := evs\<rparr>)"
proof -
  have "recv_retry count (replicate k RecvError @ RecvBytes bs # evs) = Inr (int (length bs), bs, evs)"
    using assms by (induction k) simp_all
  with assms show ?thesis by (simp add: Read_def)
qed

lemma Read_reports_unreceived_bytes_witness:
  "Read False \<lparr>rx = [RecvError, RecvBytes [5]], tx = [], sent = [], closed = False\<rparr> 4 =
    Inr (4, [5], \<lparr>rx = [], tx = [], sent = [], closed = False\<rparr>)"
  using Read_reports_unreceived_bytes [where bs = "[5]" and count = 4 and k = 1 and evs = "[]"
      and c = "\<lparr>rx = [], tx = [], sent = [], closed = False\<rparr>"]
  by simp

end
