(* ===== verification/Star_Client.thy ===== *)
theory Star_Client
  imports Star_Wire
begin

text \<open>
  The state of one client, the struct \<open>Client_t\<close> of StarSocketServer.h. The two buffers are
  memory; the arrays \<open>sendBufferMSG\<close> and \<open>recvBufferMSG\<close> are pointers into the client's own
  \<open>sendBuffer\<close> and \<open>recvBuffer\<close>, so they are offsets, with \<open>None\<close> for NULL. The counters of type
  \<open>s16\<close> and \<open>int\<close> that never come near their limits are integers; the numbers that the protocol
  compares or wraps keep their width. The mutex is a flag: locked or not.
\<close>

record Client_t =
  socket :: int
  online :: bool
  thread :: bool
  idx :: u16
  roomIdx :: int
  sendingData :: bool
  sendDataSize :: nat
  sendDone :: bool
  recieveDone :: bool
  recieveHeader :: bool
  addrLen :: int
  NonBlocking :: bool
  recvBuffer :: "u8 list"
  sendBuffer :: "u8 list"
  packRef :: u32
  streamSize :: int
  sendCount :: int
  recvCount :: int
  curPacketNo :: u16
  sendPacketNo :: "u8 list"
  bigDataBuffer :: "nat option"
  bigDataReadSize :: u32
  bigDataReadSizeDone :: u32
  bigDataReady :: bool
  fileDataReady :: bool
  fileDataName :: "u8 list"
  fileSendName :: "u8 list"
  fileDataSending :: bool
  bigDataSendSize :: s32
  bigDataSendSizeDone :: u32
  sendBufferMSG :: "nat option list"
  recvBufferMSG :: "nat option list"
  sendBufferMSGSize :: "int list"
  recvBufferMSGSize :: "int list"
  m_Mutex :: bool

text \<open>Block \<open>j\<close> of the send buffer starts behind two kilobytes that the packet is packed into.\<close>

definition block_at :: "nat \<Rightarrow> nat" where
  "block_at j = STAR_CLIENT_DEFAULT_BUFFER * 2 + j * STAR_CLIENT_DEFAULT_BUFFER"

text \<open>The loop of \<open>InitServerLimit\<close> and \<open>InitServerUnlimit\<close> that sets \<open>sendBufferMSG\<close>.\<close>

definition init_sendBufferMSG :: "Client_t \<Rightarrow> Client_t" where
  "init_sendBufferMSG c =
     c\<lparr>sendBufferMSG :=
         map (\<lambda>j. if j < STAR_CLIENT_DEFAULT_MAX_BLOCK - 2 then Some (block_at j) else sendBufferMSG c ! j)
           [0..<STAR_CLIENT_DEFAULT_MAX_BLOCK]\<rparr>"

text \<open>
  The shape that \<open>Init\<close> gives a client and every operation keeps: the arrays at their sizes, the
  blocks where they belong, at most 62 blocks queued, each of at most 1024 bytes.
\<close>

definition wf_client :: "Client_t \<Rightarrow> bool" where
  "wf_client c \<longleftrightarrow>
     65536 \<le> length (sendBuffer c) \<and>
     length (sendBufferMSG c) = 64 \<and> (\<forall>j < 62. sendBufferMSG c ! j = Some (block_at j)) \<and>
     length (sendBufferMSGSize c) = 64 \<and> length (sendPacketNo c) = 64 \<and>
     length (recvBufferMSG c) = 64 \<and> length (recvBufferMSGSize c) = 64 \<and>
     0 \<le> sendCount c \<and> sendCount c \<le> 62 \<and>
     (\<forall>j < nat (sendCount c). 0 \<le> sendBufferMSGSize c ! j \<and> sendBufferMSGSize c ! j \<le> 1024)"

lemma wf_clientD:
  assumes "wf_client c"
  shows "65536 \<le> length (sendBuffer c)" "length (sendBufferMSG c) = 64"
    "length (sendBufferMSGSize c) = 64" "length (sendPacketNo c) = 64"
    "length (recvBufferMSG c) = 64" "length (recvBufferMSGSize c) = 64"
    "0 \<le> sendCount c" "sendCount c \<le> 62"
  using assms by (simp_all add: wf_client_def)

lemma wf_client_block: "wf_client c \<Longrightarrow> j < 62 \<Longrightarrow> sendBufferMSG c ! j = Some (2048 + j * 1024)"
  by (simp add: wf_client_def block_at_def block_defs)

lemma wf_client_size:
  "wf_client c \<Longrightarrow> j < nat (sendCount c) \<Longrightarrow> 0 \<le> sendBufferMSGSize c ! j \<and> sendBufferMSGSize c ! j \<le> 1024"
  by (simp add: wf_client_def)

text \<open>The mutex of one thread: locking it twice waits for ever.\<close>

definition lock_client :: "Client_t \<Rightarrow> Client_t result" where
  "lock_client c = (if m_Mutex c then Inl Deadlock else Inr (c\<lparr>m_Mutex := True\<rparr>))"

definition unlock_client :: "Client_t \<Rightarrow> Client_t" where
  "unlock_client c = c\<lparr>m_Mutex := False\<rparr>"

text \<open>
  A client as \<open>memset\<close> and \<open>Init\<close> leave it, with buffers of \<open>n\<close> bytes whose contents \<open>malloc\<close>
  does not set; here they are zero.
\<close>

definition fresh_client :: "nat \<Rightarrow> Client_t" where
  "fresh_client n = init_sendBufferMSG
     \<lparr>socket = 0, online = False, thread = False, idx = 0, roomIdx = 0, sendingData = False,
      sendDataSize = 0, sendDone = False, recieveDone = False, recieveHeader = False, addrLen = 0,
      NonBlocking = False, recvBuffer = replicate n 0, sendBuffer = replicate n 0, packRef = 0,
      streamSize = 0, sendCount = 0, recvCount = 0, curPacketNo = 0, sendPacketNo = replicate 64 0,
      bigDataBuffer = None, bigDataReadSize = 0, bigDataReadSizeDone = 0, bigDataReady = False,
      fileDataReady = False, fileDataName = replicate 32 0, fileSendName = replicate 32 0,
      fileDataSending = False, bigDataSendSize = 0, bigDataSendSizeDone = 0,
      sendBufferMSG = replicate 64 None, recvBufferMSG = replicate 64 None,
      sendBufferMSGSize = replicate 64 0, recvBufferMSGSize = replicate 64 0, m_Mutex = False\<rparr>"

lemma wf_fresh_client: "65536 \<le> n \<Longrightarrow> wf_client (fresh_client n)"
  by (simp add: wf_client_def fresh_client_def init_sendBufferMSG_def block_defs)

end
