(* ===== verification/Star_Send.thy ===== *)
theory Star_Send
  imports Star_Client Star_CRC
begin

text \<open>
  Queueing and packing what the server sends: \<open>STSV_SendData\<close>, \<open>_PackDataWithPacket\<close>,
  \<open>_PackDataWithCRC16\<close>. The abstract view of a client's send side is the list of queued blocks
  with their packet numbers; the packet is the header, the size table and the blocks.
\<close>

unbundle bit_operations_syntax

section \<open>STSV_SendData\<close>

text \<open>One turn of the loop: the block at \<open>sendCount\<close> takes \<open>n\<close> bytes of the caller's buffer.\<close>

definition SendData_block :: "Client_t \<Rightarrow> u8 list \<Rightarrow> nat \<Rightarrow> nat \<Rightarrow> Client_t result" where
  "SendData_block c bufferSend off n =
     bindR (get_at (sendBufferMSG c) (sendCount c)) (\<lambda>p. case p of
       None \<Rightarrow> Inl NullDeref
     | Some dst \<Rightarrow>
         bindR (load bufferSend off n) (\<lambda>bs.
         bindR (store (sendBuffer c) dst bs) (\<lambda>sb.
         bindR (set_at (sendBufferMSGSize c) (sendCount c) (int n)) (\<lambda>sz.
         bindR (set_at (sendPacketNo c) (sendCount c) (ucast (curPacketNo c))) (\<lambda>pn.
           Inr (c\<lparr>sendBuffer := sb, sendBufferMSGSize := sz, sendPacketNo := pn,
                  sendCount := sendCount c + 1\<rparr>))))))"

function SendData_loop :: "Client_t \<Rightarrow> u8 list \<Rightarrow> nat \<Rightarrow> nat \<Rightarrow> Client_t result" where
  "SendData_loop c bufferSend off fillSize =
     (if fillSize = 0 then Inr c
      else
        (let n = (if fillSize \<le> STAR_CLIENT_DEFAULT_BUFFER then fillSize else STAR_CLIENT_DEFAULT_BUFFER) in
         bindR (SendData_block c bufferSend off n) (\<lambda>c'.
           if int (STAR_CLIENT_DEFAULT_MAX_BLOCK - 2) \<le> sendCount c' then Inr c'
           else SendData_loop c' bufferSend (off + n) (fillSize - n))))"
  by pat_completeness auto
termination
  by (relation "measure (\<lambda>(c, b, off, fillSize). fillSize)") (auto simp: block_defs)

declare SendData_loop.simps [simp del]

text \<open>One round of the loop.\<close>

lemma SendData_loop_step:
  assumes "fillSize \<noteq> 0" and "n = (if fillSize \<le> STAR_CLIENT_DEFAULT_BUFFER then fillSize else STAR_CLIENT_DEFAULT_BUFFER)"
  shows "SendData_loop c bufferSend off fillSize = bindR (SendData_block c bufferSend off n) (\<lambda>c'.
    if int (STAR_CLIENT_DEFAULT_MAX_BLOCK - 2) \<le> sendCount c' then Inr c'
    else SendData_loop c' bufferSend (off + n) (fillSize - n))"
  using assms(1) unfolding assms(2) by (subst SendData_loop.simps) (simp only: if_False Let_def)

text \<open>\<open>sockID\<close> is not used by the code: the data goes to the client it is called with.\<close>

definition STSV_SendData :: "Client_t \<Rightarrow> int \<Rightarrow> u8 list \<Rightarrow> u32 \<Rightarrow> Client_t result" where
  "STSV_SendData client sockID buffer sz =
     bindR (lock_client client) (\<lambda>c.
       if sendCount c < int (STAR_CLIENT_DEFAULT_MAX_BLOCK - 2)
       then bindR (SendData_loop c buffer 0 (unat sz)) (\<lambda>c'.
         Inr (unlock_client (c'\<lparr>curPacketNo := curPacketNo c' + 1\<rparr>)))
       else Inr (unlock_client c))"

section \<open>The queue of blocks\<close>

definition queued :: "Client_t \<Rightarrow> (u8 \<times> u8 list) list" where
  "queued c = map (\<lambda>j. (sendPacketNo c ! j,
       take (nat (sendBufferMSGSize c ! j)) (drop (block_at j) (sendBuffer c)))) [0..<nat (sendCount c)]"

fun chunks :: "u8 list \<Rightarrow> u8 list list" where
  "chunks d = (if d = [] then [] else if length d \<le> 1024 then [d] else take 1024 d # chunks (drop 1024 d))"

declare chunks.simps [simp del]

lemma chunks_simps [simp]:
  "chunks [] = []"
  "d \<noteq> [] \<Longrightarrow> length d \<le> 1024 \<Longrightarrow> chunks d = [d]"
  "1024 < length d \<Longrightarrow> chunks d = take 1024 d # chunks (drop 1024 d)"
  by (subst chunks.simps; force)+

lemma concat_chunks: "concat (chunks d) = d"
  by (induction d rule: chunks.induct) (subst chunks.simps, auto)

lemma chunks_size: "b \<in> set (chunks d) \<Longrightarrow> b \<noteq> [] \<and> length b \<le> 1024"
  by (induction d rule: chunks.induct) (subst (asm) chunks.simps, auto split: if_splits)

lemma queued_length: "wf_client c \<Longrightarrow> int (length (queued c)) = sendCount c"
  by (simp add: queued_def wf_clientD)

text \<open>What the send operations change.\<close>

definition send_frame :: "Client_t \<Rightarrow> Client_t \<Rightarrow> bool" where
  "send_frame c c' \<longleftrightarrow> (\<exists>sb sz pn n. c' =
     c\<lparr>sendBuffer := sb, sendBufferMSGSize := sz, sendPacketNo := pn, sendCount := n\<rparr>)"

lemma send_frame_refl: "send_frame c c"
  unfolding send_frame_def
  by (rule exI [of _ "sendBuffer c"], rule exI [of _ "sendBufferMSGSize c"],
      rule exI [of _ "sendPacketNo c"], rule exI [of _ "sendCount c"]) simp

lemma send_frameI:
  "c' = c\<lparr>sendBuffer := sb, sendBufferMSGSize := sz, sendPacketNo := pn, sendCount := n\<rparr> \<Longrightarrow>
    send_frame c c'"
  by (auto simp: send_frame_def)

lemma send_frame_trans: "send_frame a b \<Longrightarrow> send_frame b c \<Longrightarrow> send_frame a c"
  unfolding send_frame_def by (elim exE) (hypsubst, simp, blast)

lemma send_frame_fields:
  "send_frame c c' \<Longrightarrow> curPacketNo c' = curPacketNo c \<and> m_Mutex c' = m_Mutex c \<and>
     packRef c' = packRef c \<and> sendBufferMSG c' = sendBufferMSG c \<and> online c' = online c \<and>
     fileDataSending c' = fileDataSending c \<and> recvBuffer c' = recvBuffer c"
  by (auto simp: send_frame_def)

lemma Suc_as_int: "nat (1 + int n) = Suc n"
  by simp

lemma SendData_block_queues:
  assumes wf: "wf_client c" and n: "sendCount c = int n" "n < 62"
    and bs: "load data off m = Inr bs" "m \<le> 1024"
  shows "\<exists>c'. SendData_block c data off m = Inr c' \<and> wf_client c' \<and> send_frame c c' \<and>
    sendCount c' = int (Suc n) \<and> queued c' = queued c @ [(ucast (curPacketNo c), bs)]"
proof -
  note W = wf_clientD [OF wf]
  have len: "length bs = m" using bs(1) by (rule load_length)
  obtain sb where sb: "store (sendBuffer c) (block_at n) bs = Inr sb"
    using store_total [of "block_at n" bs "sendBuffer c"] len bs(2) n(2) W(1)
    by (auto simp: block_at_def block_defs)
  let ?sz = "(sendBufferMSGSize c)[n := int m]"
  let ?pn = "(sendPacketNo c)[n := ucast (curPacketNo c)]"
  let ?c = "c\<lparr>sendBuffer := sb, sendBufferMSGSize := ?sz, sendPacketNo := ?pn, sendCount := int (Suc n)\<rparr>"
  have run: "SendData_block c data off m = Inr ?c"
    using n W wf_client_block [OF wf n(2)] bs(1) sb
    by (simp add: SendData_block_def mem_simps block_at_def block_defs algebra_simps)
  have old: "take k (drop (block_at j) sb) = take k (drop (block_at j) (sendBuffer c))"
    if "j < n" "k \<le> 1024" for j k
  proof -
    have "load sb (block_at j) k = load (sendBuffer c) (block_at j) k"
      using that by (intro load_store_other [OF sb]) (auto simp: block_at_def block_defs)
    moreover have "block_at j + k \<le> length (sendBuffer c)" "length sb = length (sendBuffer c)"
      using that n(2) W(1) store_length [OF sb] by (auto simp: block_at_def block_defs)
    ultimately show ?thesis by (simp add: load_def)
  qed
  have new: "take m (drop (block_at n) sb) = bs"
    using load_store_same [OF sb len [symmetric]] by (simp add: load_Inr_iff)
  have wf': "wf_client ?c"
    using wf n bs(2) store_length [OF sb] by (auto simp: wf_client_def nth_list_update less_Suc_eq)
  have "queued ?c = queued c @ [(ucast (curPacketNo c), bs)]"
  proof -
    have kept: "take (nat (sendBufferMSGSize c ! j)) (drop (block_at j) sb) =
        take (nat (sendBufferMSGSize c ! j)) (drop (block_at j) (sendBuffer c))" if "j < n" for j
      using that wf_client_size [OF wf, of j] n(1) by (intro old) auto
    show ?thesis using n(2) W(3,4) new kept by (simp add: queued_def n(1) Suc_as_int)
  qed
  with run wf' n show ?thesis
    by (auto simp: send_frame_def)
qed

text \<open>The first chunk of the data that is left.\<close>

lemma chunks_step:
  assumes "fill \<noteq> 0" and "off + fill \<le> length data" and "m = (if fill \<le> 1024 then fill else 1024)"
  shows "chunks (take fill (drop off data)) = take m (drop off data) # chunks (take (fill - m) (drop (off + m) data))"
proof (cases "fill \<le> 1024")
  case True
  then show ?thesis using assms by simp
next
  case False
  moreover from this have "1024 < length (take fill (drop off data))" using assms(2) by simp
  ultimately show ?thesis using assms(3) by (simp add: drop_take add.commute min_def)
qed

lemma SendData_loop_queues:
  assumes "wf_client c" and "sendCount c = int n" and "n < 62" and "off + fill \<le> length data"
  shows "\<exists>c'. SendData_loop c data off fill = Inr c' \<and> wf_client c' \<and> send_frame c c' \<and>
    queued c' = queued c @
      map (Pair (ucast (curPacketNo c))) (take (62 - n) (chunks (take fill (drop off data))))"
  using assms
proof (induction c data off fill arbitrary: n rule: SendData_loop.induct)
  case (1 c data off fill)
  show ?case
  proof (cases "fill = 0")
    case True
    then show ?thesis using "1.prems" send_frame_refl by (subst SendData_loop.simps) simp
  next
    case False
    define m where "m = (if fill \<le> STAR_CLIENT_DEFAULT_BUFFER then fill else STAR_CLIENT_DEFAULT_BUFFER)"
    have m: "m \<le> 1024" "m \<le> fill" "0 < m" using False by (auto simp: m_def block_defs)
    define bs where "bs = take m (drop off data)"
    have ld: "load data off m = Inr bs"
      using "1.prems"(4) m by (simp add: load_def bs_def)
    from SendData_block_queues [OF "1.prems"(1-3) ld m(1)] obtain c1 where
      c1: "SendData_block c data off m = Inr c1" "wf_client c1" "send_frame c c1"
        "sendCount c1 = int (Suc n)" "queued c1 = queued c @ [(ucast (curPacketNo c), bs)]"
      by blast
    let ?all = "take fill (drop off data)"
    have ch: "chunks ?all = bs # chunks (take (fill - m) (drop (off + m) data))"
      unfolding bs_def using False "1.prems"(4) by (rule chunks_step) (simp add: m_def block_defs)
    from SendData_loop_step [OF False m_def, of c data off] c1(1) have step: "SendData_loop c data off fill =
      (if 62 \<le> sendCount c1 then Inr c1 else SendData_loop c1 data (off + m) (fill - m))"
      by (simp add: block_defs)
    have cur: "curPacketNo c1 = curPacketNo c" using send_frame_fields [OF c1(3)] by simp
    show ?thesis
    proof (cases "Suc n < 62")
      case False
      with "1.prems"(3) have "n = 61" by simp
      with step c1 ch show ?thesis by simp
    next
      case True
      have "\<exists>c'. SendData_loop c1 data (off + m) (fill - m) = Inr c' \<and> wf_client c' \<and> send_frame c1 c' \<and>
        queued c' = queued c1 @ map (Pair (ucast (curPacketNo c1)))
          (take (62 - Suc n) (chunks (take (fill - m) (drop (off + m) data))))"
        using False m "1.prems"(4) c1 True by (intro "1.IH") (auto simp: m_def, simp add: block_defs)
      then obtain c' where c': "SendData_loop c1 data (off + m) (fill - m) = Inr c'" "wf_client c'"
        "send_frame c1 c'" "queued c' = queued c1 @ map (Pair (ucast (curPacketNo c1)))
          (take (62 - Suc n) (chunks (take (fill - m) (drop (off + m) data))))" by blast
      have "62 - n = Suc (62 - Suc n)" using True by simp
      then have "queued c' = queued c @ map (Pair (ucast (curPacketNo c))) (take (62 - n) (chunks ?all))"
        by (simp only: c'(4) c1(5) cur ch take_Suc_Cons list.map append_assoc append.simps)
      moreover have "SendData_loop c data off fill = Inr c'"
        using step c1(4) True c'(1) by simp
      ultimately show ?thesis using c'(2) send_frame_trans [OF c1(3) c'(3)] by blast
    qed
  qed
qed

lemma wf_client_unlocked [simp]:
  "wf_client (c\<lparr>m_Mutex := b\<rparr>) = wf_client c" "wf_client (c\<lparr>curPacketNo := k\<rparr>) = wf_client c"
  "queued (c\<lparr>m_Mutex := b\<rparr>) = queued c" "queued (c\<lparr>curPacketNo := k\<rparr>) = queued c"
  by (simp_all add: wf_client_def queued_def)

lemma SendData_queues:
  assumes "wf_client c" and "\<not> m_Mutex c" and "unat sz \<le> length data"
  shows "\<exists>c'. STSV_SendData c sockID data sz = Inr c' \<and> wf_client c' \<and> \<not> m_Mutex c' \<and>
    queued c' = queued c @ map (Pair (ucast (curPacketNo c)))
      (take (62 - length (queued c)) (chunks (take (unat sz) data))) \<and>
    curPacketNo c' = (if length (queued c) < 62 then curPacketNo c + 1 else curPacketNo c) \<and>
    send_frame (c\<lparr>curPacketNo := curPacketNo c'\<rparr>) c'"
proof -
  let ?c = "c\<lparr>m_Mutex := True\<rparr>"
  let ?n = "length (queued c)"
  have lock: "lock_client c = Inr ?c" using assms(2) by (simp add: lock_client_def)
  have n: "sendCount c = int ?n" using queued_length [OF assms(1)] by simp
  show ?thesis
  proof (cases "?n < 62")
    case False
    then have "STSV_SendData c sockID data sz = Inr (unlock_client ?c)"
      using lock n by (simp add: STSV_SendData_def block_defs)
    moreover have "unlock_client ?c = c"
      using assms(2) by (cases c) (simp add: unlock_client_def)
    ultimately show ?thesis using False assms by (simp add: send_frame_refl)
  next
    case True
    have "\<exists>c'. SendData_loop ?c data 0 (unat sz) = Inr c' \<and> wf_client c' \<and> send_frame ?c c' \<and>
      queued c' = queued ?c @
        map (Pair (ucast (curPacketNo ?c))) (take (62 - ?n) (chunks (take (unat sz) (drop 0 data))))"
      using assms n True by (intro SendData_loop_queues) simp_all
    then obtain c' where c': "SendData_loop ?c data 0 (unat sz) = Inr c'" "wf_client c'" "send_frame ?c c'"
      "queued c' = queued c @
        map (Pair (ucast (curPacketNo c))) (take (62 - ?n) (chunks (take (unat sz) data)))"
      by auto
    have run: "STSV_SendData c sockID data sz =
        Inr (unlock_client (c'\<lparr>curPacketNo := curPacketNo c' + 1\<rparr>))"
      using lock n True c'(1) by (simp add: STSV_SendData_def block_defs)
    from c'(3) obtain sb sz pn k where f: "c' = c\<lparr>m_Mutex := True, sendBuffer := sb,
        sendBufferMSGSize := sz, sendPacketNo := pn, sendCount := k\<rparr>"
      by (auto simp: send_frame_def)
    have "send_frame (c\<lparr>curPacketNo := curPacketNo c' + 1\<rparr>)
        (unlock_client (c'\<lparr>curPacketNo := curPacketNo c' + 1\<rparr>))"
      by (rule send_frameI [where sb = sb and sz = sz and pn = pn and n = k])
        (use assms(2) in \<open>cases c, simp add: f unlock_client_def\<close>)
    with run True c' send_frame_fields [OF c'(3)] show ?thesis
      by (simp add: unlock_client_def)
  qed
qed

text \<open>C12: Queueing a message appends its chunks of at most 1024 bytes, under the client's current
packet number, to the blocks queued before, as many as fit under the limit of 62 blocks, and
releases the mutex; the packet number advances when the queue was not full.\<close>

theorem STSV_SendData_queues:
  assumes "wf_client c" and "\<not> m_Mutex c" and "unat sz \<le> length data"
  shows "\<exists>c'. STSV_SendData c sockID data sz = Inr c' \<and> wf_client c' \<and> \<not> m_Mutex c' \<and>
    queued c' = queued c @ map (Pair (ucast (curPacketNo c)))
      (take (62 - length (queued c)) (chunks (take (unat sz) data))) \<and>
    curPacketNo c' = (if length (queued c) < 62 then curPacketNo c + 1 else curPacketNo c)"
  using SendData_queues [OF assms] by blast

theorem STSV_SendData_queues_witness:
  "\<exists>c'. STSV_SendData (fresh_client 65536) 0 [7, 8, 9] 2 = Inr c' \<and> queued c' = [(0, [7, 8])]"
proof -
  have wf: "wf_client (fresh_client 65536)" by (rule wf_fresh_client) simp
  have m: "\<not> m_Mutex (fresh_client 65536)" "curPacketNo (fresh_client 65536) = 0"
    "queued (fresh_client 65536) = []"
    by (simp_all add: fresh_client_def init_sendBufferMSG_def queued_def)
  have len: "unat (2 :: u32) \<le> length [7, 8, 9 :: u8]" by simp
  show ?thesis
    using STSV_SendData_queues [OF wf m(1) len, of 0] m(2,3) by auto
qed

end
