(* ===== verification/Star_Pack.thy ===== *)
theory Star_Pack
  imports Star_Send Star_CRC
begin

text \<open>
  Packing: \<open>_PackDataWithPacket\<close> lays the queued blocks out as one packet in the front of the
  client's send buffer, \<open>_PackDataWithCRC16\<close> fills in the checksum. The packet is specified by
  the queue: a header, the table of sizes and flags, the blocks one after the other.
\<close>

unbundle bit_operations_syntax

section \<open>The code\<close>

text \<open>The three loops over \<open>dataCount\<close> blocks.\<close>

definition pack_sumSize :: "Client_t \<Rightarrow> nat \<Rightarrow> u32 result" where
  "pack_sumSize client dataCount =
     foldR (\<lambda>sumSize i. bindR (get_at (sendBufferMSGSize client) (int i)) (\<lambda>n.
         Inr (sumSize + word_of_int n))) 0 [0..<dataCount]"

definition pack_entry :: "Client_t \<Rightarrow> u8 list \<times> u16 \<times> u8 \<Rightarrow> nat \<Rightarrow> (u8 list \<times> u16 \<times> u8) result" where
  "pack_entry client = (\<lambda>(buf, continuePack, curPacket) i.
     bindR (get_at (sendPacketNo client) (int i)) (\<lambda>pn.
     let cont = (if curPacket \<noteq> pn then 1 - continuePack else continuePack) in
     bindR (get_at (sendBufferMSGSize client) (int i)) (\<lambda>n.
     bindR (wr16 buf (sizeof_PACKDATASIZE + 2 * i) (size_entry n cont)) (\<lambda>buf'.
       Inr (buf', cont, pn)))))"

definition pack_copy :: "Client_t \<Rightarrow> u8 list \<times> nat \<Rightarrow> nat \<Rightarrow> (u8 list \<times> nat) result" where
  "pack_copy client = (\<lambda>(buf, startDataAddr) i.
     bindR (get_at (sendBufferMSG client) (int i)) (\<lambda>p.
     bindR (get_at (sendBufferMSGSize client) (int i)) (\<lambda>n. case p of
       None \<Rightarrow> Inl NullDeref
     | Some src \<Rightarrow> if n < 0 then Inl OutOfBounds
         else bindR (memcpy_within buf startDataAddr src (nat n)) (\<lambda>buf'.
           Inr (buf', startDataAddr + nat n)))))"

definition PackDataWithPacket :: "Client_t \<Rightarrow> Client_t result" where
  "PackDataWithPacket client =
     (let dataCount = nat (sendCount client mod 2 ^ 16) in
      bindR (wr16 (sendBuffer client) 0 STSOCKMSG_PACKDATASIZE) (\<lambda>b.
      bindR (wr32 b 4 (packRef client)) (\<lambda>b.
      bindR (wr16 b 2 STSOCKID_SERVER) (\<lambda>b.
      bindR (pack_sumSize client dataCount) (\<lambda>s.
      let sumSize = s + of_nat (dataCount * 2) + 4 in
      bindR (wr32 b 8 sumSize) (\<lambda>b.
      bindR (wr16 b 14 (of_nat dataCount)) (\<lambda>b.
      bindR (foldR (pack_entry client) (b, 0, 0) [0..<dataCount]) (\<lambda>(b, _, _).
      bindR (foldR (pack_copy client) (b, sizeof_PACKDATASIZE + 2 * dataCount) [0..<dataCount]) (\<lambda>(b, _).
        Inr (client\<lparr>sendBuffer := b\<rparr>))))))))))"

definition PackDataWithCRC16 :: "crc_tables \<Rightarrow> Client_t \<Rightarrow> Client_t result" where
  "PackDataWithCRC16 T client =
     bindR (msg_size (sendBuffer client)) (\<lambda>sizeAll.
     bindR (STOS_CRC16 T (sendBuffer client) sizeof_PACKDATASIZE (ucast (sizeAll - 4))) (\<lambda>crc16.
     bindR (wr16 (sendBuffer client) 12 crc16) (\<lambda>b.
       Inr (client\<lparr>sendBuffer := b\<rparr>))))"

section \<open>The packet of a queue\<close>

fun entries :: "u16 \<Rightarrow> u8 \<Rightarrow> (u8 \<times> u8 list) list \<Rightarrow> u16 list" where
  "entries cont cur [] = []"
| "entries cont cur ((pn, b) # q) =
     (let cont' = (if cur \<noteq> pn then 1 - cont else cont)
      in size_entry (int (length b)) cont' # entries cont' pn q)"

definition payload :: "(u8 \<times> u8 list) list \<Rightarrow> u8 list" where
  "payload q = concat (map snd q)"

definition packet_body :: "(u8 \<times> u8 list) list \<Rightarrow> u8 list" where
  "packet_body q = concat (map le16 (entries 0 0 q)) @ payload q"

definition packet_header :: "u32 \<Rightarrow> (u8 \<times> u8 list) list \<Rightarrow> u16 \<Rightarrow> STSOCKMSGDATA_PACKDATASIZE" where
  "packet_header ref q crc = \<lparr>pk_type = STSOCKMSG_PACKDATASIZE, pk_fromID = STSOCKID_SERVER,
     pk_packNo = ref, pk_sizeAll = of_nat (length (packet_body q) + 4), pk_crc = crc,
     pk_numData = of_nat (length q)\<rparr>"

lemma entries_length [simp]: "length (entries cont cur q) = length q"
  by (induction cont cur q rule: entries.induct) (auto simp: Let_def)

lemma concat_le16_length [simp]: "length (concat (map le16 es)) = 2 * length es"
  by (induction es) simp_all

lemma packet_body_length: "length (packet_body q) = 2 * length q + length (payload q)"
  by (simp add: packet_body_def)

lemma payload_Cons [simp]: "payload ((p, b) # q) = b @ payload q" "payload [] = []"
  by (simp_all add: payload_def)

lemma payload_single [simp]: "payload [x] = snd x"
  by (simp add: payload_def)

lemma payload_append [simp]: "payload (q @ r) = payload q @ payload r"
  by (simp add: payload_def)

lemma payload_bound: "(\<And>p b. (p, b) \<in> set q \<Longrightarrow> length b \<le> k) \<Longrightarrow> length (payload q) \<le> k * length q"
proof (induction q)
  case (Cons x q)
  then have "length (snd x) \<le> k" "length (payload q) \<le> k * length q"
    by (cases x; auto)+
  then show ?case by (cases x) simp
qed simp

lemma queued_size: "wf_client c \<Longrightarrow> (p, b) \<in> set (queued c) \<Longrightarrow> length b \<le> 1024"
  using wf_client_size [of c] by (force simp: queued_def)

text \<open>What the loops read: block \<open>j\<close> of the queue.\<close>

definition queue_at :: "Client_t \<Rightarrow> (u8 \<times> u8 list) list \<Rightarrow> bool" where
  "queue_at c q \<longleftrightarrow> length q \<le> 62 \<and> (\<forall>j < length q. length (snd (q ! j)) \<le> 1024 \<and>
     sendPacketNo c ! j = fst (q ! j) \<and> sendBufferMSGSize c ! j = int (length (snd (q ! j))))"

lemma queued_nth:
  assumes "wf_client c" and "j < nat (sendCount c)"
  shows "block_at j + nat (sendBufferMSGSize c ! j) \<le> length (sendBuffer c)"
    and "queued c ! j = (sendPacketNo c ! j,
      take (nat (sendBufferMSGSize c ! j)) (drop (block_at j) (sendBuffer c)))"
    and "length (snd (queued c ! j)) = nat (sendBufferMSGSize c ! j)"
proof -
  have "j < 62" "nat (sendBufferMSGSize c ! j) \<le> 1024"
    using wf_clientD(7,8) [OF assms(1)] wf_client_size [OF assms] assms(2) by linarith+
  with wf_clientD(1) [OF assms(1)]
  show fits: "block_at j + nat (sendBufferMSGSize c ! j) \<le> length (sendBuffer c)"
    by (simp add: block_at_def block_defs)
  show q: "queued c ! j = (sendPacketNo c ! j,
      take (nat (sendBufferMSGSize c ! j)) (drop (block_at j) (sendBuffer c)))"
    using assms(2) by (simp add: queued_def)
  show "length (snd (queued c ! j)) = nat (sendBufferMSGSize c ! j)"
    using fits by (simp add: q)
qed

lemma queue_at_queued:
  assumes "wf_client c" shows "queue_at c (queued c)"
  unfolding queue_at_def
proof (intro conjI allI impI)
  show "length (queued c) \<le> 62" using queued_length [OF assms] wf_clientD(8) [OF assms] by simp
next
  fix j assume "j < length (queued c)"
  then have j: "j < nat (sendCount c)" using queued_length [OF assms] by simp
  show "length (snd (queued c ! j)) \<le> 1024"
    using wf_client_size [OF assms j] by (simp add: queued_nth(3) [OF assms j] nat_le_iff)
  show "sendPacketNo c ! j = fst (queued c ! j)" by (simp add: queued_nth(2) [OF assms j])
  show "sendBufferMSGSize c ! j = int (length (snd (queued c ! j)))"
    using wf_client_size [OF assms j] by (simp add: queued_nth(3) [OF assms j])
qed

lemma queued_load:
  assumes "wf_client c" and "j < length (queued c)"
  shows "load (sendBuffer c) (block_at j) (length (snd (queued c ! j))) = Inr (snd (queued c ! j))"
proof -
  have j: "j < nat (sendCount c)" using assms queued_length [OF assms(1)] by simp
  show ?thesis
    using queued_nth(1) [OF assms(1) j]
    by (simp only: queued_nth(3) [OF assms(1) j]) (simp add: load_def queued_nth(2) [OF assms(1) j])
qed

section \<open>The loops\<close>

lemma pack_sumSize_sum:
  assumes "queue_at c q" and "length (sendBufferMSGSize c) = 64"
  shows "pack_sumSize c (length q) = Inr (of_nat (length (payload q)))"
proof -
  have "foldR (\<lambda>sumSize i. bindR (get_at (sendBufferMSGSize c) (int i)) (\<lambda>n.
      Inr (sumSize + word_of_int n))) 0 [0..<k] = Inr (of_nat (length (payload (take k q))))"
    if "k \<le> length q" for k
    using that
  proof (induction k)
    case (Suc k)
    then have "sendBufferMSGSize c ! k = int (length (snd (q ! k)))" "k < 62"
      using assms(1) by (auto simp: queue_at_def)
    moreover have "take (Suc k) q = take k q @ [(fst (q ! k), snd (q ! k))]"
      using Suc.prems by (simp add: take_Suc_conv_app_nth)
    ultimately show ?case
      using Suc assms(2) by (simp add: foldR_append mem_simps)
  qed simp
  from this [of "length q"] show ?thesis by (simp add: pack_sumSize_def)
qed

lemma pack_table:
  assumes "queue_at c q" and "length (sendBufferMSGSize c) = 64" and "length (sendPacketNo c) = 64"
    and "16 + 2 * length q \<le> length buf" and "i \<le> length q"
  shows "\<exists>buf' cont' cur'. foldR (pack_entry c) (buf, cont, cur) [i..<length q] = Inr (buf', cont', cur') \<and>
    length buf' = length buf \<and>
    load buf' (16 + 2 * i) (2 * (length q - i)) = Inr (concat (map le16 (entries cont cur (drop i q)))) \<and>
    (\<forall>off m. off + m \<le> 16 + 2 * i \<or> 16 + 2 * length q \<le> off \<longrightarrow> load buf' off m = load buf off m)"
  using assms(4,5)
proof (induction "length q - i" arbitrary: i buf cont cur)
  case 0
  then show ?case by (simp add: load_def)
next
  case (Suc d)
  then have i: "i < length q" by simp
  define pn where "pn = fst (q ! i)"
  define b where "b = snd (q ! i)"
  define cont1 where "cont1 = (if cur \<noteq> pn then 1 - cont else cont)"
  let ?e = "size_entry (int (length b)) cont1"
  have reads: "get_at (sendPacketNo c) (int i) = Inr pn"
    "get_at (sendBufferMSGSize c) (int i) = Inr (int (length b))"
    using assms(1-3) i by (auto simp: queue_at_def pn_def b_def mem_simps)
  obtain buf1 where w: "wr16 buf (16 + 2 * i) ?e = Inr buf1"
    using c16.wr_total [of "16 + 2 * i" buf ?e] i Suc.prems by auto
  have len1: "length buf1 = length buf" using w by (rule c16.wr_length)
  have "\<exists>buf' cont' cur'. foldR (pack_entry c) (buf1, cont1, pn) [Suc i..<length q] = Inr (buf', cont', cur') \<and>
    length buf' = length buf1 \<and>
    load buf' (16 + 2 * Suc i) (2 * (length q - Suc i)) =
      Inr (concat (map le16 (entries cont1 pn (drop (Suc i) q)))) \<and>
    (\<forall>off m. off + m \<le> 16 + 2 * Suc i \<or> 16 + 2 * length q \<le> off \<longrightarrow> load buf' off m = load buf1 off m)"
    using Suc.hyps(2) Suc.prems i len1 by (intro Suc.hyps(1)) auto
  then obtain buf' cont' cur' where r: "foldR (pack_entry c) (buf1, cont1, pn) [Suc i..<length q] = Inr (buf', cont', cur')"
    "length buf' = length buf1"
    "load buf' (16 + 2 * Suc i) (2 * (length q - Suc i)) =
      Inr (concat (map le16 (entries cont1 pn (drop (Suc i) q))))"
    "\<And>off m. off + m \<le> 16 + 2 * Suc i \<or> 16 + 2 * length q \<le> off \<Longrightarrow> load buf' off m = load buf1 off m"
    by blast
  have run: "foldR (pack_entry c) (buf, cont, cur) [i..<length q] = Inr (buf', cont', cur')"
    using reads w r(1) i by (simp add: upt_conv_Cons pack_entry_def sizeof_defs cont1_def)
  have dr: "drop i q = (pn, b) # drop (Suc i) q"
    using i by (simp add: pn_def b_def Cons_nth_drop_Suc)
  have "load buf' (16 + 2 * i) 2 = Inr (le16 ?e)"
    using r(4) [of "16 + 2 * i" 2] c16.wr_load [OF w] by simp
  moreover have "load buf' (16 + 2 * i + 2) (2 * (length q - Suc i)) =
      Inr (concat (map le16 (entries cont1 pn (drop (Suc i) q))))"
    using r(3) by (simp add: add.commute)
  ultimately have "load buf' (16 + 2 * i) (2 + 2 * (length q - Suc i)) =
      Inr (le16 ?e @ concat (map le16 (entries cont1 pn (drop (Suc i) q))))"
    by (rule load_append)
  then have tab: "load buf' (16 + 2 * i) (2 * (length q - i)) =
      Inr (concat (map le16 (entries cont cur (drop i q))))"
    using i by (simp add: dr cont1_def Let_def Suc_diff_Suc flip: mult_Suc_right)
  have frame: "load buf' off m = load buf off m"
    if "off + m \<le> 16 + 2 * i \<or> 16 + 2 * length q \<le> off" for off m
  proof -
    have "load buf' off m = load buf1 off m" using that i by (intro r(4)) auto
    also have "\<dots> = load buf off m" using that i by (intro c16.wr_load_other [OF w]) auto
    finally show ?thesis .
  qed
  show ?case using run r(2) len1 tab frame by auto
qed

text \<open>
  The copies go down in the buffer: the destination of block \<open>i\<close> ends before block \<open>i\<close> starts,
  so no copy overlaps its source or touches a block that is still to come.
\<close>

lemma pack_blocks:
  assumes "queue_at c q" and "wf_client c" and "i \<le> length q"
    and "\<And>j. i \<le> j \<Longrightarrow> j < length q \<Longrightarrow> load buf (block_at j) (length (snd (q ! j))) = Inr (snd (q ! j))"
    and "addr \<le> 140 + 1024 * i" and "65536 \<le> length buf"
  shows "\<exists>buf' addr'. foldR (pack_copy c) (buf, addr) [i..<length q] = Inr (buf', addr') \<and>
    length buf' = length buf \<and>
    load buf' addr (length (payload (drop i q))) = Inr (payload (drop i q)) \<and>
    (\<forall>off m. off + m \<le> addr \<longrightarrow> load buf' off m = load buf off m)"
  using assms(3-6)
proof (induction "length q - i" arbitrary: i buf addr)
  case 0
  then show ?case using assms(1) by (simp add: load_def queue_at_def)
next
  case (Suc d)
  then have i: "i < length q" "i < 62" using assms(1) by (auto simp: queue_at_def)
  define b where "b = snd (q ! i)"
  have b: "length b \<le> 1024" using assms(1) i(1) by (simp add: queue_at_def b_def)
  have reads: "get_at (sendBufferMSG c) (int i) = Inr (Some (block_at i))"
    "get_at (sendBufferMSGSize c) (int i) = Inr (int (length b))"
    using assms(1,2) i wf_clientD [OF assms(2)] wf_client_block [OF assms(2), of i]
    by (auto simp: queue_at_def b_def mem_simps block_at_def block_defs)
  have apart: "addr + length b \<le> block_at i"
    using Suc.prems(3) b by (simp add: block_at_def block_defs)
  have ld: "load buf (block_at i) (length b) = Inr b"
    using Suc.prems(2) [of i] i by (simp add: b_def)
  obtain buf1 where w: "store buf addr b = Inr buf1"
    using store_total [of addr b buf] Suc.prems(3,4) i b by auto
  have len1: "length buf1 = length buf" using w by (rule store_length)
  have "\<exists>buf' addr'. foldR (pack_copy c) (buf1, addr + length b) [Suc i..<length q] = Inr (buf', addr') \<and>
    length buf' = length buf1 \<and>
    load buf' (addr + length b) (length (payload (drop (Suc i) q))) = Inr (payload (drop (Suc i) q)) \<and>
    (\<forall>off m. off + m \<le> addr + length b \<longrightarrow> load buf' off m = load buf1 off m)"
  proof (rule Suc.hyps(1))
    show "d = length q - Suc i" "Suc i \<le> length q" using Suc.hyps(2) i by auto
    show "addr + length b \<le> 140 + 1024 * Suc i" using Suc.prems(3) b by simp
    show "65536 \<le> length buf1" using len1 Suc.prems(4) by simp
    fix j assume j: "Suc i \<le> j" "j < length q"
    have "load buf1 (block_at j) (length (snd (q ! j))) = load buf (block_at j) (length (snd (q ! j)))"
      using apart j(1) by (intro load_store_other [OF w]) (auto simp: block_at_def block_defs)
    then show "load buf1 (block_at j) (length (snd (q ! j))) = Inr (snd (q ! j))"
      using Suc.prems(2) [of j] j by simp
  qed
  then obtain buf' addr' where r:
    "foldR (pack_copy c) (buf1, addr + length b) [Suc i..<length q] = Inr (buf', addr')"
    "length buf' = length buf1"
    "load buf' (addr + length b) (length (payload (drop (Suc i) q))) = Inr (payload (drop (Suc i) q))"
    "\<And>off m. off + m \<le> addr + length b \<Longrightarrow> load buf' off m = load buf1 off m"
    by blast
  have run: "foldR (pack_copy c) (buf, addr) [i..<length q] = Inr (buf', addr')"
    using reads w ld r(1) i apart by (simp add: upt_conv_Cons pack_copy_def memcpy_within_def)
  have dr: "drop i q = (fst (q ! i), b) # drop (Suc i) q"
    using i by (simp add: b_def Cons_nth_drop_Suc)
  have "load buf' addr (length b) = Inr b"
    using r(4) [of addr "length b"] load_store_same [OF w refl] by simp
  then have pay: "load buf' addr (length (payload (drop i q))) = Inr (payload (drop i q))"
    using load_append [OF _ r(3)] by (simp add: dr)
  have frame: "load buf' off m = load buf off m" if "off + m \<le> addr" for off m
    using that r(4) [of off m] load_store_other [OF w, of off m] by simp
  show ?case using run r(2) len1 pay frame by auto
qed

lemma packet_body_bound:
  assumes "queue_at c q" shows "length (packet_body q) \<le> 2 * 62 + 1024 * 62"
proof -
  have "length (payload q) \<le> 1024 * length q"
    using assms by (intro payload_bound) (auto simp: queue_at_def in_set_conv_nth)
  with assms show ?thesis by (simp add: packet_body_length queue_at_def)
qed

section \<open>Packing\<close>

lemma le16_un16: "length bs = 2 \<Longrightarrow> le16 (un16 bs) = bs"
proof -
  assume "length bs = 2"
  then obtain a b where bs: "bs = [a, b]" by (auto simp: numeral_2_eq_2 length_Suc_conv)
  have "(ucast (un16 bs) :: u8) = a" "(ucast (drop_bit 8 (un16 bs)) :: u8) = b"
    by (rule bit_word_eqI, auto simp: bs un16_def bit_ucast_iff bit_or_iff bit_push_bit_iff
        bit_drop_bit_eq dest: bit_imp_le_length)+
  then show ?thesis by (simp add: le16_def bs)
qed

lemma header_fields:
  assumes "load b 0 2 = Inr (le16 ty)" and "load b 2 2 = Inr (le16 from)" and "load b 4 4 = Inr (le32 no)"
    and "load b 8 4 = Inr (le32 sz)" and "load b 12 2 = Inr (le16 crc)" and "load b 14 2 = Inr (le16 nd)"
  shows "load b 0 16 = Inr (PACKDATASIZE_bytes
    \<lparr>pk_type = ty, pk_fromID = from, pk_packNo = no, pk_sizeAll = sz, pk_crc = crc, pk_numData = nd\<rparr>)"
proof -
  have 1: "load b 0 (2 + 2) = Inr (le16 ty @ le16 from)"
    by (rule load_append [OF assms(1)]) (simp only: add_0 assms(2))
  have 2: "load b 0 (4 + 4) = Inr ((le16 ty @ le16 from) @ le32 no)"
    by (rule load_append) (use 1 assms(3) in simp_all)
  have 3: "load b 0 (8 + 4) = Inr (((le16 ty @ le16 from) @ le32 no) @ le32 sz)"
    by (rule load_append) (use 2 assms(4) in simp_all)
  have 4: "load b 0 (12 + 2) = Inr ((((le16 ty @ le16 from) @ le32 no) @ le32 sz) @ le16 crc)"
    by (rule load_append) (use 3 assms(5) in simp_all)
  have "load b 0 (14 + 2) = Inr (((((le16 ty @ le16 from) @ le32 no) @ le32 sz) @ le16 crc) @ le16 nd)"
    by (rule load_append) (use 4 assms(6) in simp_all)
  then show ?thesis by (simp add: PACKDATASIZE_bytes_def)
qed

text \<open>The five fields of the header that are set; its checksum is still what the buffer held.\<close>

lemma header_writes:
  assumes "65536 \<le> length b"
  shows "\<exists>b1 b2 b3 b4 b5. wr16 b 0 STSOCKMSG_PACKDATASIZE = Inr b1 \<and> wr32 b1 4 ref = Inr b2 \<and>
    wr16 b2 2 STSOCKID_SERVER = Inr b3 \<and> wr32 b3 8 sizeAll = Inr b4 \<and> wr16 b4 14 numData = Inr b5 \<and>
    length b5 = length b \<and> (\<forall>off m. 16 \<le> off \<longrightarrow> load b5 off m = load b off m) \<and>
    load b5 0 16 = Inr (PACKDATASIZE_bytes \<lparr>pk_type = STSOCKMSG_PACKDATASIZE, pk_fromID = STSOCKID_SERVER,
      pk_packNo = ref, pk_sizeAll = sizeAll, pk_crc = un16 (take 2 (drop 12 b5)), pk_numData = numData\<rparr>)"
proof -
  obtain b1 where b1: "wr16 b 0 STSOCKMSG_PACKDATASIZE = Inr b1"
    using c16.wr_total [of 0 b] assms by auto
  note l1 = c16.wr_length [OF b1]
  obtain b2 where b2: "wr32 b1 4 ref = Inr b2"
    using c32.wr_total [of 4 b1] assms l1 by auto
  note l2 = c32.wr_length [OF b2]
  obtain b3 where b3: "wr16 b2 2 STSOCKID_SERVER = Inr b3"
    using c16.wr_total [of 2 b2] assms l1 l2 by auto
  note l3 = c16.wr_length [OF b3]
  obtain b4 where b4: "wr32 b3 8 sizeAll = Inr b4"
    using c32.wr_total [of 8 b3] assms l1 l2 l3 by auto
  note l4 = c32.wr_length [OF b4]
  obtain b5 where b5: "wr16 b4 14 numData = Inr b5"
    using c16.wr_total [of 14 b4] assms l1 l2 l3 l4 by auto
  have len: "length b5 = length b" using c16.wr_length [OF b5] l1 l2 l3 l4 by simp
  have far: "load b5 off m = load b off m" if "16 \<le> off" for off m
    using that c16.wr_load_other [OF b5, of off m] c32.wr_load_other [OF b4, of off m]
      c16.wr_load_other [OF b3, of off m] c32.wr_load_other [OF b2, of off m] c16.wr_load_other [OF b1, of off m]
    by simp
  have "load b5 0 16 = Inr (PACKDATASIZE_bytes \<lparr>pk_type = STSOCKMSG_PACKDATASIZE, pk_fromID = STSOCKID_SERVER,
      pk_packNo = ref, pk_sizeAll = sizeAll, pk_crc = un16 (take 2 (drop 12 b5)), pk_numData = numData\<rparr>)"
  proof (rule header_fields)
    show "load b5 0 2 = Inr (le16 STSOCKMSG_PACKDATASIZE)"
      using c16.wr_load_other [OF b5, of 0 2] c32.wr_load_other [OF b4, of 0 2]
        c16.wr_load_other [OF b3, of 0 2] c32.wr_load_other [OF b2, of 0 2] c16.wr_load [OF b1] by simp
    show "load b5 2 2 = Inr (le16 STSOCKID_SERVER)"
      using c16.wr_load_other [OF b5, of 2 2] c32.wr_load_other [OF b4, of 2 2] c16.wr_load [OF b3] by simp
    show "load b5 4 4 = Inr (le32 ref)"
      using c16.wr_load_other [OF b5, of 4 4] c32.wr_load_other [OF b4, of 4 4]
        c16.wr_load_other [OF b3, of 4 4] c32.wr_load [OF b2] by simp
    show "load b5 8 4 = Inr (le32 sizeAll)"
      using c16.wr_load_other [OF b5, of 8 4] c32.wr_load [OF b4] by simp
    show "load b5 12 2 = Inr (le16 (un16 (take 2 (drop 12 b5))))"
      using len assms by (simp add: load_def le16_un16)
    show "load b5 14 2 = Inr (le16 numData)"
      using c16.wr_load [OF b5] by simp
  qed
  with b1 b2 b3 b4 b5 len far show ?thesis by blast
qed

lemma PackDataWithPacket_body:
  assumes wf: "wf_client c"
  shows "\<exists>b crc. PackDataWithPacket c = Inr (c\<lparr>sendBuffer := b\<rparr>) \<and> length b = length (sendBuffer c) \<and>
    load b 0 16 = Inr (PACKDATASIZE_bytes (packet_header (packRef c) (queued c) crc)) \<and>
    load b 16 (length (packet_body (queued c))) = Inr (packet_body (queued c))"
proof -
  let ?q = "queued c"
  let ?n = "length (queued c)"
  let ?S = "of_nat (length (payload ?q)) + of_nat (?n * 2) + 4 :: u32"
  note W = wf_clientD [OF wf]
  have q: "queue_at c ?q" using wf by (rule queue_at_queued)
  then have n62: "?n \<le> 62" by (simp add: queue_at_def)
  have n: "nat (sendCount c mod 2 ^ 16) = ?n" using queued_length [OF wf] n62 by simp
  obtain b1 b2 b3 b4 b5 where w: "wr16 (sendBuffer c) 0 STSOCKMSG_PACKDATASIZE = Inr b1" "wr32 b1 4 (packRef c) = Inr b2"
      "wr16 b2 2 STSOCKID_SERVER = Inr b3" "wr32 b3 8 ?S = Inr b4" "wr16 b4 14 (of_nat ?n) = Inr b5"
    and len: "length b5 = length (sendBuffer c)"
    and far: "\<And>off m. 16 \<le> off \<Longrightarrow> load b5 off m = load (sendBuffer c) off m"
    and hd: "load b5 0 16 = Inr (PACKDATASIZE_bytes \<lparr>pk_type = STSOCKMSG_PACKDATASIZE, pk_fromID = STSOCKID_SERVER,
      pk_packNo = packRef c, pk_sizeAll = ?S, pk_crc = un16 (take 2 (drop 12 b5)), pk_numData = of_nat ?n\<rparr>)"
    using header_writes [OF W(1)] by metis
  have "16 + 2 * ?n \<le> length b5" using len W(1) n62 by simp
  from pack_table [OF q W(3,4) this le0, of 0 0] obtain b6 ct cu where t: "foldR (pack_entry c) (b5, 0, 0) [0..<?n] = Inr (b6, ct, cu)"
    "length b6 = length b5" "load b6 16 (2 * ?n) = Inr (concat (map le16 (entries 0 0 ?q)))"
    "\<And>off m. off + m \<le> 16 \<or> 16 + 2 * ?n \<le> off \<Longrightarrow> load b6 off m = load b5 off m"
    by (simp only: mult_0_right add_0_right diff_zero drop_0) blast
  have blocks: "load b6 (block_at j) (length (snd (?q ! j))) = Inr (snd (?q ! j))" if "j < ?n" for j
  proof -
    have "140 \<le> block_at j" by (simp add: block_at_def block_defs)
    then have "load b6 (block_at j) m = load (sendBuffer c) (block_at j) m" for m
      using t(4) [of "block_at j" m] far [of "block_at j" m] n62 by simp
    then show ?thesis using queued_load [OF wf that] by simp
  qed
  have "16 + 2 * ?n \<le> 140 + 1024 * 0" "65536 \<le> length b6" using len t(2) W(1) n62 by simp_all
  from pack_blocks [OF q wf le0 blocks this] obtain b addr' where p: "foldR (pack_copy c) (b6, 16 + 2 * ?n) [0..<?n] = Inr (b, addr')"
    "length b = length b6" "load b (16 + 2 * ?n) (length (payload ?q)) = Inr (payload ?q)"
    "\<And>off m. off + m \<le> 16 + 2 * ?n \<Longrightarrow> load b off m = load b6 off m"
    by (simp only: drop_0) blast
  have run: "PackDataWithPacket c = Inr (c\<lparr>sendBuffer := b\<rparr>)"
    using w t(1) p(1) pack_sumSize_sum [OF q W(3)]
    unfolding PackDataWithPacket_def Let_def n by (simp add: sizeof_defs del: of_nat_mult of_nat_add)
  have body: "load b 16 (length (packet_body ?q)) = Inr (packet_body ?q)"
    using load_append [where off = 16 and n = "2 * ?n", OF _ p(3)] t(3) p(4) [of 16 "2 * ?n"]
    by (simp add: packet_body_length) (simp add: packet_body_def)
  have "load b 0 16 = load b5 0 16" using p(4) [of 0 16] t(4) [of 0 16] by simp
  moreover have "?S = of_nat (length (packet_body ?q) + 4)"
    by (simp add: packet_body_length)
  ultimately have "load b 0 16 = Inr (PACKDATASIZE_bytes
      (packet_header (packRef c) ?q (un16 (take 2 (drop 12 b5)))))"
    by (simp only: hd packet_header_def)
  with run body p(2) t(2) len show ?thesis by auto
qed

definition packet_crc :: "(u8 \<times> u8 list) list \<Rightarrow> u16" where
  "packet_crc q = crc_serial STAR_CRC16_STANDARD_POLY 0 (message_bits (packet_body q))"

definition packet :: "u32 \<Rightarrow> (u8 \<times> u8 list) list \<Rightarrow> u8 list" where
  "packet ref q = PACKDATASIZE_bytes (packet_header ref q (packet_crc q)) @ packet_body q"

lemma packet_length: "length (packet ref q) = 16 + length (packet_body q)"
  by (simp add: packet_def)

lemma header_size:
  "load b 0 16 = Inr (PACKDATASIZE_bytes h) \<Longrightarrow> msg_size b = Inr (pk_sizeAll h)"
proof -
  assume "load b 0 16 = Inr (PACKDATASIZE_bytes h)"
  from load_within [OF this, of 8 4] have "load b 8 4 = Inr (le32 (pk_sizeAll h))"
    by (simp add: PACKDATASIZE_bytes_def)
  then show ?thesis unfolding msg_size_def by (rule c32.rd_load)
qed

lemma header_crc:
  assumes "load b 0 16 = Inr (PACKDATASIZE_bytes h)" and "wr16 b 12 crc = Inr b'"
  shows "load b' 0 16 = Inr (PACKDATASIZE_bytes (h\<lparr>pk_crc := crc\<rparr>))"
proof -
  have f: "load b' off m = Inr (take m (drop off (PACKDATASIZE_bytes h)))"
    if "off + m \<le> 12 \<or> 14 \<le> off" "off + m \<le> 16" for off m
    using that c16.wr_load_other [OF assms(2), of off m] load_within [OF assms(1), of off m] by auto
  show ?thesis
  proof (cases h)
    case (fields ty frm no sz cr nd)
    show ?thesis
      unfolding fields using f [of 0 2] f [of 2 2] f [of 4 4] f [of 8 4] f [of 14 2]
        c16.wr_load [OF assms(2)]
      by (simp only: STSOCKMSGDATA_PACKDATASIZE.simps)
        (rule header_fields; simp add: fields PACKDATASIZE_bytes_def)
  qed
qed

lemma pack_all:
  assumes wf: "wf_client c"
  shows "\<exists>b. bindR (PackDataWithPacket c) (PackDataWithCRC16 (STOS_InitCRCTable t)) = Inr (c\<lparr>sendBuffer := b\<rparr>) \<and>
    length b = length (sendBuffer c) \<and>
    load b 0 (length (packet (packRef c) (queued c))) = Inr (packet (packRef c) (queued c))"
proof -
  let ?q = "queued c"
  let ?body = "packet_body ?q"
  obtain b0 crc0 where p: "PackDataWithPacket c = Inr (c\<lparr>sendBuffer := b0\<rparr>)" "length b0 = length (sendBuffer c)"
    "load b0 0 16 = Inr (PACKDATASIZE_bytes (packet_header (packRef c) ?q crc0))"
    "load b0 16 (length ?body) = Inr ?body"
    using PackDataWithPacket_body [OF wf] by blast
  have bound: "length ?body < 2 ^ 16"
    using packet_body_bound [OF queue_at_queued [OF wf]] by simp
  have sz: "msg_size b0 = Inr (of_nat (length ?body + 4))"
    using header_size [OF p(3)] by (simp add: packet_header_def)
  have len: "unat (of_nat (length ?body) :: u16) = length ?body"
    using bound by (simp add: unat_of_nat)
  have cut: "ucast (of_nat (length ?body + 4) - 4 :: u32) = (of_nat (length ?body) :: u16)"
    by (rule bit_word_eqI) (simp add: bit_ucast_iff bit_of_nat_iff)
  have crc: "STOS_CRC16 (STOS_InitCRCTable t) b0 16 (of_nat (length ?body)) = Inr (packet_crc ?q)"
    unfolding packet_crc_def by (rule crc16_value) (simp only: len p(4))
  have "12 + 2 \<le> length b0" using p(2) wf_clientD(1) [OF wf] by simp
  then obtain b where w: "wr16 b0 12 (packet_crc ?q) = Inr b" using c16.wr_total by blast
  have run: "PackDataWithCRC16 (STOS_InitCRCTable t) (c\<lparr>sendBuffer := b0\<rparr>) = Inr (c\<lparr>sendBuffer := b\<rparr>)"
    using sz crc w cut by (simp add: PackDataWithCRC16_def sizeof_defs del: of_nat_add)
  have h: "load b 0 16 = Inr (PACKDATASIZE_bytes (packet_header (packRef c) ?q (packet_crc ?q)))"
    using header_crc [OF p(3) w] by (simp add: packet_header_def)
  have "load b 16 (length ?body) = Inr ?body"
    using c16.wr_load_other [OF w, of 16 "length ?body"] p(4) by simp
  with load_append [OF h, of "length ?body" ?body]
  have "load b 0 (length (packet (packRef c) ?q)) = Inr (packet (packRef c) ?q)"
    by (simp add: packet_def)
  with p(1) run c16.wr_length [OF w] p(2) show ?thesis by auto
qed

text \<open>C8: Packing a client's queue yields, in the front of its send buffer, exactly the packet of the
queue: the header with the packet reference, the size of everything after the first 12 bytes and
the number of blocks, the checksum of the body, the table of sizes and continuation flags, and the
blocks in order. No copy overlaps its source and no write leaves the buffer, and nothing but the
send buffer changes.\<close>

theorem pack_yields_packet:
  assumes "wf_client c"
  shows "\<exists>b. bindR (PackDataWithPacket c) (PackDataWithCRC16 (STOS_InitCRCTable t)) =
      Inr (c\<lparr>sendBuffer := b\<rparr>) \<and>
    length b = length (sendBuffer c) \<and>
    load b 0 (length (packet (packRef c) (queued c))) = Inr (packet (packRef c) (queued c))"
  using pack_all [OF assms] .

theorem pack_yields_packet_witness:
  "\<forall>t. \<exists>c b. STSV_SendData (fresh_client 65536) 0 [7, 8, 9] 2 = Inr c \<and> queued c = [(0, [7, 8])] \<and>
     bindR (PackDataWithPacket c) (PackDataWithCRC16 (STOS_InitCRCTable t)) = Inr (c\<lparr>sendBuffer := b\<rparr>) \<and>
     load b 0 20 = Inr (packet (packRef c) [(0, [7, 8])])"
proof
  fix t
  have "wf_client (fresh_client 65536)" by (rule wf_fresh_client) simp
  moreover have "\<not> m_Mutex (fresh_client 65536)" "queued (fresh_client 65536) = []" "curPacketNo (fresh_client 65536) = 0"
    by (simp_all add: fresh_client_def init_sendBufferMSG_def queued_def)
  ultimately obtain c where c: "STSV_SendData (fresh_client 65536) 0 [7, 8, 9] 2 = Inr c" "wf_client c" "queued c = [(0, [7, 8])]"
    using SendData_queues [of "fresh_client 65536" 2 "[7, 8, 9]" 0] by auto
  have "length (packet (packRef c) [(0, [7, 8])]) = 20"
    by (simp add: packet_length packet_body_def)
  with pack_yields_packet [OF c(2), of t] c(1,3)
  show "\<exists>c b. STSV_SendData (fresh_client 65536) 0 [7, 8, 9] 2 = Inr c \<and> queued c = [(0, [7, 8])] \<and>
     bindR (PackDataWithPacket c) (PackDataWithCRC16 (STOS_InitCRCTable t)) = Inr (c\<lparr>sendBuffer := b\<rparr>) \<and>
     load b 0 20 = Inr (packet (packRef c) [(0, [7, 8])])"
    by (intro exI [of _ c]) auto
qed

end
