(* ===== verification/Star_Recv.thy ===== *)
theory Star_Recv
  imports Star_Pack
begin

text \<open>
  Taking a received packet apart: \<open>_processMessagePacket\<close> and the accessors \<open>STSV_GetData\<close> and
  \<open>STSV_GetDataCount\<close>. The specification is the round trip: the messages queued with
  \<open>STSV_SendData\<close> and packed by the sending side are the messages the receiving side hands out.
\<close>

section \<open>The code\<close>

text \<open>
  One turn of the loop. \<open>curPacket\<close> starts at -1 and counts the messages; the toggle
  \<open>continuePack = 1 - continuePack\<close> in the branch is overwritten before it is read.
\<close>

definition recv_entry ::
  "Client_t \<times> u16 \<times> int \<times> nat \<Rightarrow> nat \<Rightarrow> (Client_t \<times> u16 \<times> int \<times> nat) result" where
  "recv_entry = (\<lambda>(client, continuePack, curPacket, startDataAddr) i.
     bindR (rd16 (recvBuffer client) (sizeof_PACKDATASIZE + 2 * i)) (\<lambda>e.
     bindR (if continuePack \<noteq> entry_flag e
            then bindR (set_at (recvBufferMSG client) (curPacket + 1) (Some startDataAddr)) (\<lambda>msg.
                 bindR (set_at (recvBufferMSGSize client) (curPacket + 1) 0) (\<lambda>sz.
                   Inr (client\<lparr>recvBufferMSG := msg, recvBufferMSGSize := sz\<rparr>, curPacket + 1)))
            else Inr (client, curPacket)) (\<lambda>(client, curPacket).
     bindR (get_at (recvBufferMSGSize client) curPacket) (\<lambda>s.
     bindR (set_at (recvBufferMSGSize client) curPacket (s + int (entry_size e))) (\<lambda>sz.
       Inr (client\<lparr>recvBufferMSGSize := sz\<rparr>, entry_flag e, curPacket, startDataAddr + entry_size e))))))"

definition processMessagePacket :: "Client_t \<Rightarrow> Client_t result" where
  "processMessagePacket client =
     bindR (msg_numData (recvBuffer client)) (\<lambda>numData.
       if numData = 0 then Inr client
       else
         bindR (foldR recv_entry
             (client, 1, -1, nat (int sizeof_PACKDATASIZE + 2 * sint numData)) [0..<nat (sint numData)])
           (\<lambda>(client, _, curPacket, _). Inr (client\<lparr>recvCount := curPacket + 1\<rparr>)))"

text \<open>The accessors take the index of a client in \<open>s_Client_t\<close>.\<close>

definition STSV_GetData :: "Client_t list \<Rightarrow> int \<Rightarrow> int \<Rightarrow> (nat option \<times> u32) result" where
  "STSV_GetData s_Client_t i dataIdx =
     bindR (get_at s_Client_t i) (\<lambda>c.
     bindR (get_at (recvBufferMSGSize c) dataIdx) (\<lambda>n.
     bindR (get_at (recvBufferMSG c) dataIdx) (\<lambda>p.
       Inr (p, word_of_int n))))"

definition STSV_GetDataCount :: "Client_t list \<Rightarrow> int \<Rightarrow> int result" where
  "STSV_GetDataCount s_Client_t i = bindR (get_at s_Client_t i) (\<lambda>c. Inr (recvCount c))"

section \<open>The groups of a size table\<close>

text \<open>
  What the loop does to the list of messages found so far, as pairs of address and size: an entry
  whose flag differs from the flag before opens a message, any other entry extends the last one.
\<close>

definition group_step :: "(nat \<times> nat) list \<times> u16 \<times> nat \<Rightarrow> u16 \<Rightarrow> (nat \<times> nat) list \<times> u16 \<times> nat" where
  "group_step = (\<lambda>(gs, cont, addr) e.
     (if cont \<noteq> entry_flag e then gs @ [(addr, entry_size e)]
      else butlast gs @ [(fst (last gs), snd (last gs) + entry_size e)],
      entry_flag e, addr + entry_size e))"

definition groups_of :: "Client_t \<Rightarrow> (nat \<times> nat) list \<Rightarrow> bool" where
  "groups_of c gs \<longleftrightarrow> length (recvBufferMSG c) = 64 \<and> length (recvBufferMSGSize c) = 64 \<and>
     (\<forall>j < length gs. recvBufferMSG c ! j = Some (fst (gs ! j)) \<and>
        recvBufferMSGSize c ! j = int (snd (gs ! j)))"

definition recv_frame :: "Client_t \<Rightarrow> Client_t \<Rightarrow> bool" where
  "recv_frame c c' \<longleftrightarrow> (\<exists>m s. c' = c\<lparr>recvBufferMSG := m, recvBufferMSGSize := s\<rparr>)"

lemma recv_frame_refl: "recv_frame c c"
  unfolding recv_frame_def by (rule exI [of _ "recvBufferMSG c"], rule exI [of _ "recvBufferMSGSize c"]) simp

lemma recv_frame_trans: "recv_frame a b \<Longrightarrow> recv_frame b c \<Longrightarrow> recv_frame a c"
  unfolding recv_frame_def by (elim exE) (hypsubst, simp, blast)

lemma recv_frame_buffer: "recv_frame c c' \<Longrightarrow> recvBuffer c' = recvBuffer c"
  by (auto simp: recv_frame_def)

lemma recv_frame_count:
  assumes "recv_frame r c" shows "recv_frame (r\<lparr>recvCount := k\<rparr>) (c\<lparr>recvCount := k\<rparr>)"
proof -
  from assms obtain m s where "c = r\<lparr>recvBufferMSG := m, recvBufferMSGSize := s\<rparr>"
    by (auto simp: recv_frame_def)
  then show ?thesis
    unfolding recv_frame_def by (cases r) (intro exI [of _ m] exI [of _ s], simp)
qed

lemma recv_entry_groups:
  assumes g: "groups_of c gs" and rd: "rd16 (recvBuffer c) (16 + 2 * i) = Inr e"
    and new: "cont = entry_flag e \<Longrightarrow> gs \<noteq> []" and room: "length gs < 64"
    and st: "group_step (gs, cont, addr) e = (gs', cont', addr')"
  shows "\<exists>c'. recv_entry (c, cont, int (length gs) - 1, addr) i = Inr (c', cont', int (length gs') - 1, addr') \<and>
    groups_of c' gs' \<and> recv_frame c c'"
proof (cases "cont = entry_flag e")
  case True
  then have ne: "gs \<noteq> []" by (rule new)
  define k where "k = length gs - 1"
  have k: "int (length gs) - 1 = int k" "k < 64" "k < length gs" "last gs = gs ! k"
    using ne room by (auto simp: k_def last_conv_nth Suc_le_eq of_nat_diff)
  have n: "gs' = butlast gs @ [(fst (gs ! k), snd (gs ! k) + entry_size e)]" "cont' = entry_flag e"
    "addr' = addr + entry_size e"
    using st True k(4) by (auto simp: group_step_def)
  have len: "length gs' = length gs" using ne by (simp add: n)
  let ?c = "c\<lparr>recvBufferMSGSize := (recvBufferMSGSize c)[k := recvBufferMSGSize c ! k + int (entry_size e)]\<rparr>"
  have "recv_entry (c, cont, int (length gs) - 1, addr) i = Inr (?c, cont', int (length gs') - 1, addr')"
    using g rd k True n len by (simp add: recv_entry_def sizeof_defs groups_of_def mem_simps)
  moreover have "groups_of ?c gs'"
    using g k ne by (auto simp: groups_of_def n nth_append nth_list_update nth_butlast k_def)
  moreover have "recv_frame c ?c"
    unfolding recv_frame_def by (rule exI [of _ "recvBufferMSG c"], rule exI) simp
  ultimately show ?thesis by blast
next
  case False
  let ?k = "length gs"
  have n: "gs' = gs @ [(addr, entry_size e)]" "cont' = entry_flag e" "addr' = addr + entry_size e"
    using st False by (auto simp: group_step_def)
  let ?c = "c\<lparr>recvBufferMSG := (recvBufferMSG c)[?k := Some addr],
    recvBufferMSGSize := (recvBufferMSGSize c)[?k := int (entry_size e)]\<rparr>"
  have "recv_entry (c, cont, int (length gs) - 1, addr) i = Inr (?c, cont', int (length gs') - 1, addr')"
    using g rd room False n by (simp add: recv_entry_def sizeof_defs groups_of_def mem_simps)
  moreover have "groups_of ?c gs'"
    using g room by (auto simp: groups_of_def n nth_append nth_list_update less_Suc_eq)
  ultimately show ?thesis by (auto simp: recv_frame_def)
qed

lemma recv_loop_groups:
  assumes "\<And>j. j < length es \<Longrightarrow> rd16 (recvBuffer c) (16 + 2 * (i + j)) = Inr (es ! j)"
    and "groups_of c gs" and "es \<noteq> [] \<Longrightarrow> cont = entry_flag (hd es) \<Longrightarrow> gs \<noteq> []"
    and "length gs + length es \<le> 64"
    and "foldl group_step (gs, cont, addr) es = (gs', cont', addr')"
  shows "\<exists>c'. foldR recv_entry (c, cont, int (length gs) - 1, addr) [i..<i + length es] =
      Inr (c', cont', int (length gs') - 1, addr') \<and> groups_of c' gs' \<and> recv_frame c c'"
  using assms
proof (induction es arbitrary: c cont gs addr i)
  case Nil
  then show ?case using recv_frame_refl by simp
next
  case (Cons e es)
  obtain gs1 cont1 addr1 where st: "group_step (gs, cont, addr) e = (gs1, cont1, addr1)"
    by (cases "group_step (gs, cont, addr) e") auto
  have rd: "rd16 (recvBuffer c) (16 + 2 * i) = Inr e" using Cons.prems(1) [of 0] by simp
  have "cont = entry_flag e \<Longrightarrow> gs \<noteq> []" and "length gs < 64"
    using Cons.prems(3,4) by simp_all
  from recv_entry_groups [OF Cons.prems(2) rd this st] obtain c1 where
    c1: "recv_entry (c, cont, int (length gs) - 1, addr) i = Inr (c1, cont1, int (length gs1) - 1, addr1)"
      "groups_of c1 gs1" "recv_frame c c1" by blast
  have gs1: "gs1 \<noteq> []" "length gs1 \<le> Suc (length gs)"
    using st by (auto simp: group_step_def split: if_splits)
  have "\<exists>c'. foldR recv_entry (c1, cont1, int (length gs1) - 1, addr1) [Suc i..<Suc i + length es] =
      Inr (c', cont', int (length gs') - 1, addr') \<and> groups_of c' gs' \<and> recv_frame c1 c'"
  proof (rule Cons.IH)
    fix j assume "j < length es"
    then show "rd16 (recvBuffer c1) (16 + 2 * (Suc i + j)) = Inr (es ! j)"
      using Cons.prems(1) [of "Suc j"] recv_frame_buffer [OF c1(3)] by simp
  qed (use Cons.prems(4,5) c1(2) gs1 st in auto)
  then obtain c' where c': "foldR recv_entry (c1, cont1, int (length gs1) - 1, addr1) [Suc i..<Suc i + length es] =
      Inr (c', cont', int (length gs') - 1, addr')" "groups_of c' gs'" "recv_frame c1 c'" by blast
  have "[i..<i + length (e # es)] = i # [Suc i..<Suc i + length es]"
    by (simp add: upt_conv_Cons del: upt_Suc)
  then show ?case using c1(1) c' recv_frame_trans [OF c1(3) c'(3)] by auto
qed

section \<open>The round trip\<close>

text \<open>The queue of a list of messages, numbered from \<open>p\<close>, and where the messages lie in the payload.\<close>

fun flat :: "nat \<Rightarrow> u8 list list \<Rightarrow> (u8 \<times> u8 list) list" where
  "flat p [] = []"
| "flat p (m # ms) = map (Pair (of_nat p)) (chunks m) @ flat (Suc p) ms"

fun spans :: "nat \<Rightarrow> u8 list list \<Rightarrow> (nat \<times> nat) list" where
  "spans addr [] = []"
| "spans addr (m # ms) = (addr, length m) # spans (addr + length m) ms"

definition block_count :: "u8 list list \<Rightarrow> nat" where
  "block_count ms = sum_list (map (\<lambda>m. length (chunks m)) ms)"

lemma block_count_simps [simp]:
  "block_count [] = 0" "block_count (m # ms) = length (chunks m) + block_count ms"
  by (simp_all add: block_count_def)

lemma flat_length [simp]: "length (flat p ms) = block_count ms"
  by (induction p ms rule: flat.induct) simp_all

lemma payload_flat [simp]: "payload (flat p ms) = concat ms"
proof (induction p ms rule: flat.induct)
  case (2 p m ms)
  have "payload (map (Pair (of_nat p)) (chunks m)) = m"
    by (simp add: payload_def comp_def concat_chunks)
  with 2 show ?case by simp
qed simp

lemma spans_length [simp]: "length (spans addr ms) = length ms"
  by (induction addr ms rule: spans.induct) simp_all

lemma spans_nth:
  "j < length ms \<Longrightarrow> spans addr ms ! j = (addr + length (concat (take j ms)), length (ms ! j))"
  by (induction addr ms arbitrary: j rule: spans.induct) (auto simp: nth_Cons' take_Cons')

lemma chunks_ne: "m \<noteq> [] \<Longrightarrow> chunks m \<noteq> []"
  by (subst chunks.simps) simp

lemma chunks_bound: "length m \<le> 1024 * length (chunks m)"
proof -
  have "length (concat cs) \<le> 1024 * length cs" if "\<And>b. b \<in> set cs \<Longrightarrow> length b \<le> 1024" for cs :: "u8 list list"
    using that by (induction cs) (auto, force)
  from this [of "chunks m"] show ?thesis using chunks_size concat_chunks by metis
qed

lemma blocks_le_count: "m \<in> set ms \<Longrightarrow> length (chunks m) \<le> block_count ms"
  by (induction ms) auto

lemma messages_le_blocks: "[] \<notin> set ms \<Longrightarrow> length ms \<le> block_count ms"
proof (induction ms)
  case (Cons m ms)
  then have "chunks m \<noteq> []" using chunks_ne [of m] by auto
  with Cons show ?case by (cases "chunks m") auto
qed simp

lemma entries_message:
  assumes "cs \<noteq> []" and "f = (if cur \<noteq> p then 1 - cont else cont)"
  shows "entries cont cur (map (Pair p) cs @ q) = map (\<lambda>b. size_entry (int (length b)) f) cs @ entries f p q"
proof -
  have same: "entries f p (map (Pair p) cs @ q) = map (\<lambda>b. size_entry (int (length b)) f) cs @ entries f p q" for cs
    by (induction cs) simp_all
  from assms obtain b bs where cs: "cs = b # bs" by (cases cs) auto
  show ?thesis using same [of bs] by (simp add: cs assms(2) Let_def)
qed

lemma groups_same_flag:
  assumes "\<And>b. b \<in> set cs \<Longrightarrow> length b < 2048" and "f < 32"
  shows "foldl group_step (gs @ [(a, s)], f, addr) (map (\<lambda>b. size_entry (int (length b)) f) cs) =
    (gs @ [(a, s + length (concat cs))], f, addr + length (concat cs))"
  using assms by (induction cs arbitrary: s addr) (auto simp: group_step_def entry_size_entry algebra_simps)

lemma groups_message:
  assumes "\<And>b. b \<in> set cs \<Longrightarrow> length b < 2048" and "f < 32" and "cs \<noteq> []" and "rc \<noteq> f"
  shows "foldl group_step (gs, rc, addr) (map (\<lambda>b. size_entry (int (length b)) f) cs) =
    (gs @ [(addr, length (concat cs))], f, addr + length (concat cs))"
proof -
  from assms(3) obtain b bs where cs: "cs = b # bs" by (cases cs) auto
  have "group_step (gs, rc, addr) (size_entry (int (length b)) f) = (gs @ [(addr, length b)], f, addr + length b)"
    using assms by (simp add: cs group_step_def entry_size_entry)
  then show ?thesis
    using groups_same_flag [of bs f gs addr "length b" "addr + length b"] assms by (simp add: cs)
qed

lemma groups_of_messages:
  assumes "[] \<notin> set ms" and "cont = 0 \<or> cont = 1"
    and "rc \<noteq> (if cur \<noteq> of_nat p then 1 - cont else cont)"
  shows "\<exists>cont'. foldl group_step (gs, rc, addr) (entries cont cur (flat p ms)) =
    (gs @ spans addr ms, cont', addr + length (concat ms))"
  using assms
proof (induction ms arbitrary: p cont cur rc gs addr)
  case Nil
  then show ?case by simp
next
  case (Cons m ms)
  define f where "f = (if cur \<noteq> of_nat p then 1 - cont else cont)"
  have f: "f = 0 \<or> f = 1" "rc \<noteq> f" "f < 32" using Cons.prems(2,3) by (auto simp: f_def)
  have small: "\<And>b. b \<in> set (chunks m) \<Longrightarrow> length b < 2048" using chunks_size by force
  have ne: "chunks m \<noteq> []" using Cons.prems(1) chunks_ne [of m] by auto
  have next_flag: "(of_nat p :: u8) \<noteq> of_nat (Suc p)" by simp
  have "\<exists>cont'. foldl group_step (gs @ [(addr, length m)], f, addr + length m) (entries f (of_nat p) (flat (Suc p) ms)) =
    ((gs @ [(addr, length m)]) @ spans (addr + length m) ms, cont', addr + length m + length (concat ms))"
    using f next_flag Cons.prems(1) by (intro Cons.IH) auto
  then show ?case
    using groups_message [OF small f(3) ne f(2), of gs addr]
    by (simp add: entries_message [OF ne f_def] concat_chunks add.assoc)
qed

lemma message_in_payload:
  assumes "load buf addr (length (concat ms)) = Inr (concat ms)" and "j < length ms"
  shows "load buf (addr + length (concat (take j ms))) (length (ms ! j)) = Inr (ms ! j)"
proof -
  have e: "concat ms = concat (take j ms) @ ms ! j @ concat (drop (Suc j) ms)"
    using arg_cong [OF id_take_nth_drop [OF assms(2)], of concat] by simp
  have "length (concat (take j ms)) + length (ms ! j) \<le> length (concat ms)"
    by (subst e) simp
  moreover have "take (length (ms ! j)) (drop (length (concat (take j ms))) (concat ms)) = ms ! j"
    by (subst e) simp
  ultimately show ?thesis using load_within [OF assms(1)] by metis
qed

text \<open>Queueing all messages in order, into an empty queue.\<close>

text \<open>One message that fits into the queue.\<close>

lemma SendData_message:
  assumes "wf_client c" and "\<not> m_Mutex c" and "curPacketNo c = of_nat p"
    and "length (queued c) + length (chunks m) \<le> 62" and "m \<noteq> []"
  shows "\<exists>c'. STSV_SendData c 0 m (of_nat (length m)) = Inr c' \<and> wf_client c' \<and> \<not> m_Mutex c' \<and>
    queued c' = queued c @ map (Pair (of_nat p)) (chunks m) \<and> curPacketNo c' = of_nat (Suc p) \<and>
    send_frame (c\<lparr>curPacketNo := curPacketNo c'\<rparr>) c'"
proof -
  have lt: "length (queued c) < 62" using assms(4,5) chunks_ne [of m] by (cases "chunks m") auto
  have "length m \<le> 1024 * 62" using chunks_bound [of m] assms(4) by simp
  then have sz: "unat (of_nat (length m) :: u32) = length m" by (simp add: unat_of_nat)
  have no: "(ucast (of_nat p :: u16) :: u8) = of_nat p"
    by (rule bit_word_eqI) (simp add: bit_ucast_iff bit_of_nat_iff)
  show ?thesis
    using SendData_queues [OF assms(1,2), of "of_nat (length m)" m 0] sz lt assms(3,4) by (auto simp: no)
qed

lemma SendData_all:
  assumes "wf_client c" and "\<not> m_Mutex c" and "curPacketNo c = of_nat p"
    and "length (queued c) + block_count ms \<le> 62" and "[] \<notin> set ms"
  shows "\<exists>c'. foldR (\<lambda>c m. STSV_SendData c 0 m (of_nat (length m))) c ms = Inr c' \<and>
    wf_client c' \<and> \<not> m_Mutex c' \<and> queued c' = queued c @ flat p ms \<and> packRef c' = packRef c"
  using assms
proof (induction ms arbitrary: c p)
  case Nil
  then show ?case by simp
next
  case (Cons m ms)
  have "length (queued c) + length (chunks m) \<le> 62" "m \<noteq> []" using Cons.prems(4,5) by auto
  from SendData_message [OF Cons.prems(1-3) this]
  obtain c1 where c1: "STSV_SendData c 0 m (of_nat (length m)) = Inr c1" "wf_client c1" "\<not> m_Mutex c1"
    and q1: "queued c1 = queued c @ map (Pair (of_nat p)) (chunks m)"
    and no: "curPacketNo c1 = of_nat (Suc p)" "send_frame (c\<lparr>curPacketNo := curPacketNo c1\<rparr>) c1" by blast
  have "\<exists>c'. foldR (\<lambda>c m. STSV_SendData c 0 m (of_nat (length m))) c1 ms = Inr c' \<and>
    wf_client c' \<and> \<not> m_Mutex c' \<and> queued c' = queued c1 @ flat (Suc p) ms \<and> packRef c' = packRef c1"
    using Cons.prems(4,5) c1(2,3) q1 no(1) by (intro Cons.IH) (auto simp: ac_simps)
  with c1(1) q1 send_frame_fields [OF no(2)] show ?case by auto
qed

lemma header_numData:
  "load b 0 16 = Inr (PACKDATASIZE_bytes h) \<Longrightarrow> msg_numData b = Inr (pk_numData h)"
proof -
  assume "load b 0 16 = Inr (PACKDATASIZE_bytes h)"
  from load_within [OF this, of 14 2] have "load b 14 2 = Inr (le16 (pk_numData h))"
    by (simp add: PACKDATASIZE_bytes_def)
  then show ?thesis unfolding msg_numData_def by (rule c16.rd_load)
qed

lemma concat_le16_nth:
  "j < length es \<Longrightarrow> take 2 (drop (2 * j) (concat (map le16 es))) = le16 (es ! j)"
proof (induction es arbitrary: j)
  case (Cons e es)
  then show ?case by (cases j) (simp_all add: le16_def)
qed simp

lemma packet_parts:
  assumes "load buf 0 (length (packet ref q)) = Inr (packet ref q)"
  shows "load buf 0 16 = Inr (PACKDATASIZE_bytes (packet_header ref q (packet_crc q)))"
    and "\<And>j. j < length q \<Longrightarrow> rd16 buf (16 + 2 * j) = Inr (entries 0 0 q ! j)"
    and "load buf (16 + 2 * length q) (length (payload q)) = Inr (payload q)"
proof -
  show "load buf 0 16 = Inr (PACKDATASIZE_bytes (packet_header ref q (packet_crc q)))"
    using load_within [OF assms, of 0 16] by (simp add: packet_length) (simp add: packet_def)
  have body: "load buf 16 (length (packet_body q)) = Inr (packet_body q)"
    using load_within [OF assms, of 16 "length (packet_body q)"]
    by (simp add: packet_length) (simp add: packet_def)
  show "load buf (16 + 2 * length q) (length (payload q)) = Inr (payload q)"
    using load_within [OF body, of "2 * length q" "length (payload q)"]
    by (simp add: packet_body_length) (simp add: packet_body_def)
  fix j assume j: "j < length q"
  then have "load buf (16 + 2 * j) 2 = Inr (le16 (entries 0 0 q ! j))"
    using load_within [OF body, of "2 * j" 2] concat_le16_nth [of j "entries 0 0 q"]
    by (simp add: packet_body_length) (simp add: packet_body_def)
  then show "rd16 buf (16 + 2 * j) = Inr (entries 0 0 q ! j)" by (rule c16.rd_load)
qed

lemma first_flag:
  assumes "[] \<notin> set ms" and "entries 0 0 (flat 0 ms) \<noteq> []"
  shows "entry_flag (hd (entries 0 0 (flat 0 ms))) = 0"
proof (cases ms)
  case (Cons m ms')
  then have "chunks m \<noteq> []" using assms(1) chunks_ne [of m] by auto
  then obtain b bs where "chunks m = b # bs" by (cases "chunks m") auto
  moreover from this have "length b < 2048" using chunks_size [of b m] by simp
  ultimately show ?thesis by (simp add: Cons Let_def entry_size_entry)
qed (use assms(2) in simp)

lemma process_parts:
  assumes num: "msg_numData (recvBuffer r) = Inr (of_nat (block_count ms))"
    and rds: "\<And>j. j < block_count ms \<Longrightarrow> rd16 (recvBuffer r) (16 + 2 * j) = Inr (entries 0 0 (flat 0 ms) ! j)"
    and ms: "[] \<notin> set ms" "block_count ms \<le> 62"
    and r: "length (recvBufferMSG r) = 64" "length (recvBufferMSGSize r) = 64" "recvCount r = 0"
  shows "\<exists>r'. processMessagePacket r = Inr r' \<and> recvCount r' = int (length ms) \<and>
    recv_frame (r\<lparr>recvCount := int (length ms)\<rparr>) r' \<and> groups_of r' (spans (16 + 2 * block_count ms) ms)"
proof -
  let ?es = "entries 0 0 (flat 0 ms)"
  let ?n = "block_count ms"
  have sn: "sint (of_nat ?n :: s16) = int ?n"
    using ms(2) by (simp add: signed_of_nat signed_take_bit_int_eq_self)
  have zero: "(of_nat ?n :: s16) = 0 \<longleftrightarrow> ?n = 0"
    using ms(2) by (simp add: word_of_nat_eq_0_iff dvd_eq_mod_eq_0)
  show ?thesis
  proof (cases "?n = 0")
    case True
    then have "ms = []" using messages_le_blocks [OF ms(1)] by simp
    moreover have "r\<lparr>recvCount := 0\<rparr> = r" using r(3) by (cases r) simp
    then have "recv_frame (r\<lparr>recvCount := 0\<rparr>) r" by (simp only: recv_frame_refl)
    ultimately show ?thesis using num r True
      by (simp add: processMessagePacket_def groups_of_def)
  next
    case False
    obtain cont' where g: "foldl group_step ([], 1, 16 + 2 * ?n) ?es =
        (spans (16 + 2 * ?n) ms, cont', 16 + 2 * ?n + length (concat ms))"
      using groups_of_messages [OF ms(1), of 0 1 0 0 "[]" "16 + 2 * ?n"] by auto
    have "\<exists>c'. foldR recv_entry (r, 1, int (length ([] :: (nat \<times> nat) list)) - 1, 16 + 2 * ?n) [0..<0 + length ?es] =
      Inr (c', cont', int (length (spans (16 + 2 * ?n) ms)) - 1, 16 + 2 * ?n + length (concat ms)) \<and>
      groups_of c' (spans (16 + 2 * ?n) ms) \<and> recv_frame r c'"
    proof (rule recv_loop_groups [OF _ _ _ _ g])
      show "groups_of r []" using r by (simp add: groups_of_def)
      show "length ([] :: (nat \<times> nat) list) + length ?es \<le> 64" using ms(2) by simp
      show "rd16 (recvBuffer r) (16 + 2 * (0 + j)) = Inr (?es ! j)" if "j < length ?es" for j
        using that rds by simp
      assume "?es \<noteq> []" "1 = entry_flag (hd ?es)"
      then show "([] :: (nat \<times> nat) list) \<noteq> []" using first_flag [OF ms(1)] by simp
    qed
    then obtain c' where c': "foldR recv_entry (r, 1, -1, 16 + 2 * ?n) [0..<?n] =
      Inr (c', cont', int (length ms) - 1, 16 + 2 * ?n + length (concat ms))"
      "groups_of c' (spans (16 + 2 * ?n) ms)" "recv_frame r c'" by auto
    have "nat (int sizeof_PACKDATASIZE + 2 * int ?n) = 16 + 2 * ?n" by (simp add: sizeof_defs)
    then have "processMessagePacket r = Inr (c'\<lparr>recvCount := int (length ms)\<rparr>)"
      using num c'(1) False zero by (simp add: processMessagePacket_def sn)
    moreover have "groups_of (c'\<lparr>recvCount := int (length ms)\<rparr>) (spans (16 + 2 * ?n) ms)"
      using c'(2) by (simp add: groups_of_def)
    moreover have "recv_frame (r\<lparr>recvCount := int (length ms)\<rparr>) (c'\<lparr>recvCount := int (length ms)\<rparr>)"
      using c'(3) by (rule recv_frame_count)
    ultimately show ?thesis by auto
  qed
qed

lemma process_packet:
  assumes pk: "load (recvBuffer r) 0 (length (packet ref (flat 0 ms))) = Inr (packet ref (flat 0 ms))"
    and ms: "[] \<notin> set ms" "block_count ms \<le> 62"
    and r: "length (recvBufferMSG r) = 64" "length (recvBufferMSGSize r) = 64" "recvCount r = 0"
  shows "\<exists>r'. processMessagePacket r = Inr r' \<and> recvCount r' = int (length ms) \<and>
    recvBuffer r' = recvBuffer r \<and> groups_of r' (spans (16 + 2 * block_count ms) ms)"
proof -
  note parts = packet_parts [OF pk]
  have "msg_numData (recvBuffer r) = Inr (of_nat (block_count ms))"
    using header_numData [OF parts(1)] by (simp add: packet_header_def)
  from process_parts [OF this parts(2) ms r] show ?thesis by (auto dest: recv_frame_buffer)
qed

lemma groups_of_GetData:
  assumes "groups_of r gs" and "j < length gs" and "j < 64"
  shows "STSV_GetData [r] 0 (int j) = Inr (Some (fst (gs ! j)), of_nat (snd (gs ! j)))"
  using assms by (simp add: STSV_GetData_def groups_of_def get_at_def)

lemma roundtrip:
  assumes c: "wf_client c" "\<not> m_Mutex c" "queued c = []" "curPacketNo c = 0"
    and ms: "[] \<notin> set ms" "block_count ms \<le> 62"
  shows "\<exists>c1 c2 sizeAll. foldR (\<lambda>c m. STSV_SendData c 0 m (of_nat (length m))) c ms = Inr c1 \<and>
    bindR (PackDataWithPacket c1) (PackDataWithCRC16 (STOS_InitCRCTable t)) = Inr c2 \<and>
    msg_size (sendBuffer c2) = Inr (of_nat sizeAll) \<and> sizeAll + 12 \<le> 65536 \<and>
    (\<forall>r. length (recvBufferMSG r) = 64 \<and> length (recvBufferMSGSize r) = 64 \<and> recvCount r = 0 \<and>
        load (recvBuffer r) 0 (sizeAll + 12) = load (sendBuffer c2) 0 (sizeAll + 12) \<longrightarrow>
      (\<exists>r'. processMessagePacket r = Inr r' \<and> recvBuffer r' = recvBuffer r \<and>
        STSV_GetDataCount [r'] 0 = Inr (int (length ms)) \<and>
        (\<forall>j < length ms. \<exists>addr. STSV_GetData [r'] 0 (int j) = Inr (Some addr, of_nat (length (ms ! j))) \<and>
          load (recvBuffer r') addr (length (ms ! j)) = Inr (ms ! j))))"
proof -
  have p0: "curPacketNo c = of_nat 0" "length (queued c) + block_count ms \<le> 62"
    using c(3,4) ms(2) by simp_all
  obtain c1 where c1: "foldR (\<lambda>c m. STSV_SendData c 0 m (of_nat (length m))) c ms = Inr c1"
    "wf_client c1" "queued c1 = flat 0 ms"
    using SendData_all [OF c(1,2) p0 ms(1)] c(3) by auto
  let ?P = "packet (packRef c1) (flat 0 ms)"
  obtain b where b: "bindR (PackDataWithPacket c1) (PackDataWithCRC16 (STOS_InitCRCTable t)) =
      Inr (c1\<lparr>sendBuffer := b\<rparr>)" "load b 0 (length ?P) = Inr ?P"
    using pack_all [OF c1(2), of t] c1(3) by auto
  let ?size = "length (packet_body (flat 0 ms)) + 4"
  have len: "?size + 12 = length ?P" by (simp add: packet_length)
  have "?size + 12 \<le> 65536"
    using packet_body_bound [OF queue_at_queued [OF c1(2)]] c1(3) by simp
  moreover have "msg_size b = Inr (of_nat ?size)"
    using header_size [OF packet_parts(1) [OF b(2)]] by (simp add: packet_header_def)
  moreover have "\<exists>r'. processMessagePacket r = Inr r' \<and> recvBuffer r' = recvBuffer r \<and>
      STSV_GetDataCount [r'] 0 = Inr (int (length ms)) \<and>
      (\<forall>j < length ms. \<exists>addr. STSV_GetData [r'] 0 (int j) = Inr (Some addr, of_nat (length (ms ! j))) \<and>
        load (recvBuffer r') addr (length (ms ! j)) = Inr (ms ! j))"
    if r: "length (recvBufferMSG r) = 64" "length (recvBufferMSGSize r) = 64" "recvCount r = 0"
      "load (recvBuffer r) 0 (?size + 12) = load b 0 (?size + 12)" for r
  proof -
    have pk: "load (recvBuffer r) 0 (length ?P) = Inr ?P" using r(4) b(2) by (simp only: len)
    from process_packet [OF pk ms r(1-3)] obtain r' where r': "processMessagePacket r = Inr r'"
      "recvCount r' = int (length ms)" "recvBuffer r' = recvBuffer r"
      "groups_of r' (spans (16 + 2 * block_count ms) ms)" by blast
    have pay: "load (recvBuffer r') (16 + 2 * block_count ms) (length (concat ms)) = Inr (concat ms)"
      using packet_parts(3) [OF pk] r'(3) by simp
    have "\<exists>addr. STSV_GetData [r'] 0 (int j) = Inr (Some addr, of_nat (length (ms ! j))) \<and>
        load (recvBuffer r') addr (length (ms ! j)) = Inr (ms ! j)" if j: "j < length ms" for j
    proof -
      have "j < 64" using j messages_le_blocks [OF ms(1)] ms(2) by simp
      then show ?thesis
        using groups_of_GetData [OF r'(4), of j] j message_in_payload [OF pay j]
        by (simp add: spans_nth)
    qed
    with r' show ?thesis by (auto simp: STSV_GetDataCount_def get_at_def)
  qed
  ultimately show ?thesis using c1(1) b(1) by (intro exI [of _ c1] exI [of _ "c1\<lparr>sendBuffer := b\<rparr>"] exI [of _ ?size]) auto
qed

text \<open>C6: What a peer hands out is what was sent: messages queued one after the other into an empty
queue, at most 62 blocks in all, and packed, arrive through \<open>_processMessagePacket\<close> in a client whose
receive buffer holds the \<open>sizeAll + 12\<close> bytes that \<open>EndPackSendData\<close> writes: \<open>STSV_GetDataCount\<close>
counts them and \<open>STSV_GetData\<close> points at each of them, with its size and its bytes, in order.\<close>

theorem messages_roundtrip:
  assumes "wf_client c" and "\<not> m_Mutex c" and "queued c = []" and "curPacketNo c = 0"
    and "[] \<notin> set ms" and "block_count ms \<le> 62"
  shows "\<exists>c1 c2 sizeAll. foldR (\<lambda>c m. STSV_SendData c 0 m (of_nat (length m))) c ms = Inr c1 \<and>
    bindR (PackDataWithPacket c1) (PackDataWithCRC16 (STOS_InitCRCTable t)) = Inr c2 \<and>
    msg_size (sendBuffer c2) = Inr (of_nat sizeAll) \<and> sizeAll + 12 \<le> 65536 \<and>
    (\<forall>r. length (recvBufferMSG r) = 64 \<and> length (recvBufferMSGSize r) = 64 \<and> recvCount r = 0 \<and>
        load (recvBuffer r) 0 (sizeAll + 12) = load (sendBuffer c2) 0 (sizeAll + 12) \<longrightarrow>
      (\<exists>r'. processMessagePacket r = Inr r' \<and> recvBuffer r' = recvBuffer r \<and>
        STSV_GetDataCount [r'] 0 = Inr (int (length ms)) \<and>
        (\<forall>j < length ms. \<exists>addr. STSV_GetData [r'] 0 (int j) = Inr (Some addr, of_nat (length (ms ! j))) \<and>
          load (recvBuffer r') addr (length (ms ! j)) = Inr (ms ! j))))"
  by (rule roundtrip [OF assms])

theorem messages_roundtrip_witness:
  "\<forall>t. \<exists>c1 c2. foldR (\<lambda>c m. STSV_SendData c 0 m (of_nat (length m))) (fresh_client 65536) [[1, 2], [3]] = Inr c1 \<and>
    bindR (PackDataWithPacket c1) (PackDataWithCRC16 (STOS_InitCRCTable t)) = Inr c2 \<and>
    (\<exists>r'. processMessagePacket ((fresh_client 65536)\<lparr>recvBuffer := sendBuffer c2\<rparr>) = Inr r' \<and>
      STSV_GetDataCount [r'] 0 = Inr 2)"
proof
  fix t
  let ?c = "fresh_client 65536"
  have wf: "wf_client ?c" by (rule wf_fresh_client) simp
  have f: "\<not> m_Mutex ?c" "queued ?c = []" "curPacketNo ?c = 0"
    by (simp_all add: fresh_client_def init_sendBufferMSG_def queued_def)
  have ms: "[] \<notin> set [[1, 2], [3 :: u8]]" "block_count [[1, 2], [3 :: u8]] \<le> 62" by simp_all
  from messages_roundtrip [OF wf f ms, of t] obtain c1 c2 sz where
    c: "foldR (\<lambda>c m. STSV_SendData c 0 m (of_nat (length m))) ?c [[1, 2], [3]] = Inr c1"
      "bindR (PackDataWithPacket c1) (PackDataWithCRC16 (STOS_InitCRCTable t)) = Inr c2"
    and r: "\<And>r. length (recvBufferMSG r) = 64 \<and> length (recvBufferMSGSize r) = 64 \<and> recvCount r = 0 \<and>
        load (recvBuffer r) 0 (sz + 12) = load (sendBuffer c2) 0 (sz + 12) \<Longrightarrow>
      \<exists>r'. processMessagePacket r = Inr r' \<and>
        STSV_GetDataCount [r'] 0 = Inr (int (length [[1, 2], [3 :: u8]]))"
    by (elim exE conjE) (rule that, assumption, assumption, blast)
  have "\<exists>r'. processMessagePacket (?c\<lparr>recvBuffer := sendBuffer c2\<rparr>) = Inr r' \<and>
      STSV_GetDataCount [r'] 0 = Inr (int (length [[1, 2], [3 :: u8]]))"
    by (rule r) (simp add: fresh_client_def init_sendBufferMSG_def)
  with c show "\<exists>c1 c2. foldR (\<lambda>c m. STSV_SendData c 0 m (of_nat (length m))) (fresh_client 65536) [[1, 2], [3]] = Inr c1 \<and>
    bindR (PackDataWithPacket c1) (PackDataWithCRC16 (STOS_InitCRCTable t)) = Inr c2 \<and>
    (\<exists>r'. processMessagePacket ((fresh_client 65536)\<lparr>recvBuffer := sendBuffer c2\<rparr>) = Inr r' \<and>
      STSV_GetDataCount [r'] 0 = Inr 2)"
    by auto
qed

text \<open>C40: The other side of the toggle: a packet whose first size-table entry carries the flag 1, as one
packed after a message of size 0 does, is never taken apart; the code reads and writes the array at
index -1.\<close>

theorem first_flag_one_out_of_bounds:
  assumes "msg_numData (recvBuffer r) = Inr nd" and "0 < sint nd"
    and "rd16 (recvBuffer r) 16 = Inr e" and "entry_flag e = 1"
  shows "processMessagePacket r = Inl OutOfBounds"
proof -
  have "nd \<noteq> 0" using assms(2) by auto
  have "[0..<nat (sint nd)] = 0 # [Suc 0..<nat (sint nd)]" using assms(2) by (simp add: upt_conv_Cons)
  with assms \<open>nd \<noteq> 0\<close> show ?thesis
    by (simp add: processMessagePacket_def recv_entry_def sizeof_defs get_at_def)
qed

theorem first_flag_one_out_of_bounds_witness:
  "processMessagePacket ((fresh_client 65536)\<lparr>recvBuffer := replicate 14 0 @ [1, 0, 4, 8, 9, 9, 9, 9]\<rparr>) = Inl OutOfBounds"
  by (rule first_flag_one_out_of_bounds [where nd = 1 and e = 2052])
    (simp_all add: msg_numData_def rd16_def load_def un16_def entry_flag_def)

end
