(* ===== verification/Star_State.thy ===== *)
theory Star_State
  imports Star_Recv Star_Config Star_Socket
begin

text \<open>
  The state of the whole server: the globals of StarSocketServer.cpp, the files it works on and
  the connections behind the sockets. A \<open>Client_t *\<close> is the index of the client in
  \<open>s_Client_t\<close>, a \<open>FILE *\<close> only lives inside one operation, so a file is its contents under its
  path. The operations here are the ones the protocol and the other components share: looking at
  and replacing one client, sending and receiving on a client's socket.
\<close>

section \<open>State\<close>

datatype callback = NoCallback | TempCallback | UserCallback

record SERVER_ROOM_DESC =
  numClient :: int
  roomName :: string
  joinRoom :: "nat option list"
  mutexRoom :: bool

record SERVERDESC =
  listenSocket :: int
  sd_online :: bool

record server =
  cfg :: config
  s_bUnlimit :: bool
  s_Client_t :: "Client_t list"
  s_Room_t :: "SERVER_ROOM_DESC list"
  s_MutexFreeRoomIdx :: bool
  s_nCurLoginCount :: u32
  engineSupport :: StarVersion
  clientSupport :: StarVersion
  crcTable :: crc_tables
  s_ServerDesc :: SERVERDESC
  s_BigDataBuffer :: "u8 list option list"
  s_BigDataUse :: "bool list"
  s_bBigDataLock :: bool
  processMSGClientRequest :: callback
  processMSGClientConnect :: callback
  processMSGClientDisconnect :: callback
  s_nMemoryUse :: nat
  s_EstimateRam :: nat
  s_nMaxStackSize :: int
  s_nMaxFile :: int
  net :: "int \<Rightarrow> conn"
  files :: "string \<Rightarrow> u8 list option"
  no_create :: "string \<Rightarrow> bool"

text \<open>The predefined versions the server asks of a client engine and of a client.\<close>

definition default_engineSupport :: StarVersion where "default_engineSupport = StarVersion 2 86 0"
definition default_clientSupport :: StarVersion where "default_clientSupport = StarVersion 1 8 0"

text \<open>The globals before \<open>STSV_Init\<close>: zero, with the predefined versions, and clients as given.\<close>

definition fresh_config :: config where
  "fresh_config = \<lparr>s_bDebugVersion = False, s_nPort = 0, s_nProtocol = 0, s_nMaxConnection = 0,
     s_nDataBuffer = 0, s_nSQLBuffer = 0, s_nDBMaxConnect = 0, s_nServerType = 0, s_nServerMEMG = 0,
     s_nMaxRoom = 0, s_nRoomCount = 0, s_szDBUser = replicate 16 NUL, s_szDBPass = replicate 16 NUL,
     s_szDBName = replicate 16 NUL, s_szIP = replicate 32 NUL\<rparr>"

definition fresh_server :: "Client_t list \<Rightarrow> server" where
  "fresh_server cs = \<lparr>cfg = fresh_config, s_bUnlimit = False, s_Client_t = cs, s_Room_t = [],
     s_MutexFreeRoomIdx = False, s_nCurLoginCount = 0, engineSupport = default_engineSupport,
     clientSupport = default_clientSupport,
     crcTable = \<lparr>s_CRC8Table = [], s_CRC16Table = [], s_CRC32Table = []\<rparr>,
     s_ServerDesc = \<lparr>listenSocket = 0, sd_online = False\<rparr>, s_BigDataBuffer = [None],
     s_BigDataUse = [False], s_bBigDataLock = False, processMSGClientRequest = NoCallback,
     processMSGClientConnect = NoCallback, processMSGClientDisconnect = NoCallback,
     s_nMemoryUse = 0, s_EstimateRam = 0, s_nMaxStackSize = 0, s_nMaxFile = 0,
     net = (\<lambda>_. \<lparr>rx = [], tx = [], sent = [], closed = False\<rparr>), files = (\<lambda>_. None),
     no_create = (\<lambda>_. False)\<rparr>"

definition STSV_SetClientSupport :: "server \<Rightarrow> StarVersion \<Rightarrow> server" where
  "STSV_SetClientSupport s clientVer = s\<lparr>clientSupport := clientVer\<rparr>"

section \<open>One client\<close>

definition client_at :: "server \<Rightarrow> nat \<Rightarrow> Client_t result" where
  "client_at s i = get_at (s_Client_t s) (int i)"

definition put_client :: "server \<Rightarrow> nat \<Rightarrow> Client_t \<Rightarrow> server" where
  "put_client s i c = s\<lparr>s_Client_t := (s_Client_t s)[i := c]\<rparr>"

text \<open>An operation on the client alone, run on the client of a server.\<close>

definition on_client :: "server \<Rightarrow> nat \<Rightarrow> (Client_t \<Rightarrow> Client_t result) \<Rightarrow> server result" where
  "on_client s i f = bindR (client_at s i) (\<lambda>c. bindR (f c) (\<lambda>c'. Inr (put_client s i c')))"

definition go_offline :: "server \<Rightarrow> nat \<Rightarrow> server result" where
  "go_offline s i = on_client s i (\<lambda>c. Inr (c\<lparr>online := False\<rparr>))"

lemma client_at_Inr_iff: "client_at s i = Inr c \<longleftrightarrow> i < length (s_Client_t s) \<and> c = s_Client_t s ! i"
  by (auto simp: client_at_def get_at_def)

lemma put_client_at [simp]:
  "i < length (s_Client_t s) \<Longrightarrow> client_at (put_client s i c) i = Inr c"
  by (simp add: client_at_Inr_iff put_client_def)

lemma put_client_other: "j \<noteq> i \<Longrightarrow> client_at (put_client s i c) j = client_at s j"
  by (simp add: client_at_def get_at_def put_client_def)

lemma put_client_length [simp]: "length (s_Client_t (put_client s i c)) = length (s_Client_t s)"
  by (simp add: put_client_def)

lemma put_client_frame [simp]:
  "cfg (put_client s i c) = cfg s" "net (put_client s i c) = net s" "files (put_client s i c) = files s"
  "no_create (put_client s i c) = no_create s" "crcTable (put_client s i c) = crcTable s"
  "engineSupport (put_client s i c) = engineSupport s" "clientSupport (put_client s i c) = clientSupport s"
  "s_nCurLoginCount (put_client s i c) = s_nCurLoginCount s" "s_Room_t (put_client s i c) = s_Room_t s"
  "s_MutexFreeRoomIdx (put_client s i c) = s_MutexFreeRoomIdx s"
  "s_BigDataUse (put_client s i c) = s_BigDataUse s" "s_BigDataBuffer (put_client s i c) = s_BigDataBuffer s"
  by (simp_all add: put_client_def)

lemma put_client_twice [simp]: "put_client (put_client s i c) i d = put_client s i d"
  by (simp add: put_client_def)

lemma on_client_Inr:
  "client_at s i = Inr c \<Longrightarrow> f c = Inr c' \<Longrightarrow> on_client s i f = Inr (put_client s i c')"
  by (simp add: on_client_def)

section \<open>Searching a table\<close>

text \<open>
  The loops that look for the first slot of an array that is free, from \<open>i\<close> for \<open>n\<close> slots: an
  index out of the array is an error, no free slot is -1.
\<close>

fun find_slot :: "('a \<Rightarrow> bool) \<Rightarrow> 'a list \<Rightarrow> nat \<Rightarrow> nat \<Rightarrow> int result" where
  "find_slot free xs i 0 = Inr (-1)"
| "find_slot free xs i (Suc n) =
     bindR (get_at xs (int i)) (\<lambda>x. if free x then Inr (int i) else find_slot free xs (Suc i) n)"

lemma find_slot_first_free:
  "i + n \<le> length xs \<Longrightarrow> find_slot free xs i n = Inr (first_free (\<lambda>j. free (xs ! j)) i n)"
  by (induction free xs i n rule: find_slot.induct) (auto simp: get_at_nat)

lemma find_slot_cases:
  assumes "find_slot free xs i n = Inr r"
  obtains "r = -1" "\<forall>j. i \<le> j \<and> j < i + n \<longrightarrow> j < length xs \<and> \<not> free (xs ! j)"
    | k where "r = int k" "i \<le> k" "k < i + n" "k < length xs" "free (xs ! k)"
      "\<forall>j. i \<le> j \<and> j < k \<longrightarrow> \<not> free (xs ! j)"
proof -
  have "(r = -1 \<and> (\<forall>j. i \<le> j \<and> j < i + n \<longrightarrow> j < length xs \<and> \<not> free (xs ! j))) \<or>
    (\<exists>k. r = int k \<and> i \<le> k \<and> k < i + n \<and> k < length xs \<and> free (xs ! k) \<and>
      (\<forall>j. i \<le> j \<and> j < k \<longrightarrow> \<not> free (xs ! j)))"
    using assms
  proof (induction free xs i n rule: find_slot.induct)
    case (2 free xs i n)
    then have i: "i < length xs" by (auto simp: bindR_Inr_iff get_at_Inr_iff)
    show ?case
    proof (cases "free (xs ! i)")
      case True
      with 2 i show ?thesis by (auto simp: get_at_nat)
    next
      case False
      with 2 i have "find_slot free xs (Suc i) n = Inr r" by (simp add: get_at_nat)
      with 2 i False have IH: "(r = -1 \<and> (\<forall>j. Suc i \<le> j \<and> j < Suc i + n \<longrightarrow> j < length xs \<and> \<not> free (xs ! j))) \<or>
        (\<exists>k. r = int k \<and> Suc i \<le> k \<and> k < Suc i + n \<and> k < length xs \<and> free (xs ! k) \<and>
          (\<forall>j. Suc i \<le> j \<and> j < k \<longrightarrow> \<not> free (xs ! j)))"
        by (simp add: get_at_nat)
      have split: "i \<le> j \<longleftrightarrow> j = i \<or> Suc i \<le> j" for j by auto
      from IH show ?thesis
      proof
        assume "r = -1 \<and> (\<forall>j. Suc i \<le> j \<and> j < Suc i + n \<longrightarrow> j < length xs \<and> \<not> free (xs ! j))"
        then show ?thesis using False i by (auto simp: split)
      next
        assume "\<exists>k. r = int k \<and> Suc i \<le> k \<and> k < Suc i + n \<and> k < length xs \<and> free (xs ! k) \<and>
          (\<forall>j. Suc i \<le> j \<and> j < k \<longrightarrow> \<not> free (xs ! j))"
        then obtain k where "r = int k" "Suc i \<le> k" "k < Suc i + n" "k < length xs" "free (xs ! k)"
          "\<forall>j. Suc i \<le> j \<and> j < k \<longrightarrow> \<not> free (xs ! j)" by blast
        then show ?thesis using False by (intro disjI2 exI [of _ k]) (auto simp: split)
      qed
    qed
  qed auto
  with that show ?thesis by blast
qed

section \<open>Client sockets\<close>

text \<open>\<open>WriteTo\<close> on the socket of a client.\<close>

definition WriteTo_client :: "server \<Rightarrow> nat \<Rightarrow> u8 list \<Rightarrow> (int \<times> server) result" where
  "WriteTo_client s i buf =
     bindR (client_at s i) (\<lambda>c.
     bindR (WriteTo (s_nProtocol (cfg s)) (net s (socket c)) buf) (\<lambda>(r, k).
       Inr (r, s\<lparr>net := (net s)(socket c := k)\<rparr>)))"

text \<open>
  \<open>ReadFrom\<close> on the socket of a client, into its receive buffer at \<open>off\<close>. The count is a
  \<open>size_t\<close>: a negative \<open>s32\<close> becomes a huge one.
\<close>

definition size_t_of :: "s32 \<Rightarrow> nat" where
  "size_t_of n = nat (sint n mod 2 ^ 64)"

definition ReadFrom_client :: "server \<Rightarrow> nat \<Rightarrow> nat \<Rightarrow> nat \<Rightarrow> bool \<Rightarrow> (int \<times> server) result" where
  "ReadFrom_client s i off count nonblock =
     bindR (client_at s i) (\<lambda>c.
     bindR (ReadFrom (net s (socket c)) count nonblock) (\<lambda>(r, bs, k).
     bindR (store (recvBuffer c) off bs) (\<lambda>b.
       Inr (r, put_client (s\<lparr>net := (net s)(socket c := k)\<rparr>) i (c\<lparr>recvBuffer := b\<rparr>)))))"

text \<open>A message that is only a \<open>STSOCKMSGDATA_DATASIZE\<close>, of size 0.\<close>

definition header_message :: "s16 \<Rightarrow> s32 \<Rightarrow> u8 list" where
  "header_message ty packNo =
     DATASIZE_bytes \<lparr>ds_type = ty, ds_fromID = STSOCKID_SERVER, ds_packNo = packNo, ds_size = 0\<rparr>"

definition send_header :: "server \<Rightarrow> nat \<Rightarrow> s16 \<Rightarrow> s32 \<Rightarrow> server result" where
  "send_header s i ty packNo =
     bindR (WriteTo_client s i (header_message ty packNo)) (\<lambda>(r, s').
       if r = 0 then go_offline s' i else Inr s')"

definition SendReTrasmit :: "server \<Rightarrow> nat \<Rightarrow> s32 \<Rightarrow> server result" where
  "SendReTrasmit s i packetNo = send_header s i STSOCKMSG_RETRASMIT packetNo"

definition SendConfirmMessage :: "server \<Rightarrow> nat \<Rightarrow> s32 \<Rightarrow> server result" where
  "SendConfirmMessage s i packetNo = send_header s i STSOCKMSG_CONFIRM packetNo"

text \<open>
  The two refusals. Their \<open>packNo\<close> is not initialised, so it is an argument; the result of
  \<open>WriteTo\<close> is ignored and the client goes offline in any case.
\<close>

definition refuse_client :: "server \<Rightarrow> nat \<Rightarrow> s16 \<Rightarrow> s32 \<Rightarrow> server result" where
  "refuse_client s i ty stack =
     bindR (on_client s i lock_client) (\<lambda>s.
     bindR (WriteTo_client s i (header_message ty stack)) (\<lambda>(_, s).
     bindR (go_offline s i) (\<lambda>s.
       on_client s i (\<lambda>c. Inr (unlock_client c)))))"

definition STSV_SendDuplicateLogin :: "server \<Rightarrow> nat \<Rightarrow> s32 \<Rightarrow> server result" where
  "STSV_SendDuplicateLogin s i stack = refuse_client s i STSOCKMSG_DUPLICATE stack"

definition STSV_SendServerFULL :: "server \<Rightarrow> nat \<Rightarrow> s32 \<Rightarrow> server result" where
  "STSV_SendServerFULL s i stack = refuse_client s i STSOCKMSG_SERVER_FULL stack"

end
