(* ===== verification/Star_Files.thy ===== *)
theory Star_Files
  imports Star_State Star_Text
begin

text \<open>
  Big data and files: receiving them into temporary files (\<open>_ProessMessageBigData\<close>,
  \<open>_ProessMessageFileData\<close>), sending a file (\<open>STSV_SendDBFile\<close>, \<open>_PackDataWithBigData\<close>), the pool
  of big-data buffers and the accessors. A file is its contents under its path.
\<close>

unbundle bit_operations_syntax

section \<open>Files\<close>

definition chars :: "u8 list \<Rightarrow> char list" where
  "chars bs = map (\<lambda>b. char_of (unat b)) bs"

definition bytes :: "string \<Rightarrow> u8 list" where
  "bytes s = map (\<lambda>c. of_nat (of_char c)) s"

text \<open>\<open>fopen (name, ''wb'')\<close> truncates or creates, \<open>fopen (name, ''ab'')\<close> creates if need be.\<close>

definition fopen_wb :: "server \<Rightarrow> string \<Rightarrow> server option" where
  "fopen_wb s name = (if no_create s name then None else Some (s\<lparr>files := (files s)(name \<mapsto> [])\<rparr>))"

definition fopen_ab :: "server \<Rightarrow> string \<Rightarrow> server option" where
  "fopen_ab s name =
     (if no_create s name then None
      else case files s name of
          None \<Rightarrow> Some (s\<lparr>files := (files s)(name \<mapsto> [])\<rparr>)
        | Some _ \<Rightarrow> Some s)"

definition fappend :: "server \<Rightarrow> string \<Rightarrow> u8 list \<Rightarrow> server" where
  "fappend s name bs =
     s\<lparr>files := (files s)(name \<mapsto> (case files s name of None \<Rightarrow> bs | Some old \<Rightarrow> old @ bs))\<rparr>"

text \<open>\<open>fseek\<close> to \<open>off\<close> and \<open>fread\<close> of \<open>n\<close> bytes: what the file has of them.\<close>

definition fread_at :: "u8 list \<Rightarrow> nat \<Rightarrow> nat \<Rightarrow> u8 list" where
  "fread_at content off n = take n (drop off content)"

definition bigData_tmp :: "nat \<Rightarrow> string" where
  "bigData_tmp i = ''TEMP/bigData'' @ dec_pad 8 i @ ''.tmp''"

section \<open>Receiving\<close>

text \<open>
  Where the big-data part of a packet starts, behind the size table and the blocks, as a \<open>u16\<close>;
  its size as a \<open>size_t\<close>.
\<close>

definition packetDataSize :: "u8 list \<Rightarrow> u16 result" where
  "packetDataSize buf =
     bindR (msg_numData buf) (\<lambda>numData.
     bindR (foldR (\<lambda>n i. bindR (rd16 buf (sizeof_PACKDATASIZE + 2 * i)) (\<lambda>e. Inr (n + of_nat (entry_size e))))
         0 [0..<nat (sint numData)]) (\<lambda>n.
       Inr (n + (of_nat sizeof_PACKDATASIZE + 2 * numData))))"

definition bigDataPackSize :: "s32 \<Rightarrow> u16 \<Rightarrow> u64" where
  "bigDataPackSize sizeAll start = word_of_int (sint sizeAll - uint start) + of_nat sizeof_DATASIZE - 8"

text \<open>Append \<open>n\<close> bytes of the receive buffer to the open file and count them.\<close>

definition write_part :: "server \<Rightarrow> nat \<Rightarrow> Client_t \<Rightarrow> string \<Rightarrow> nat \<Rightarrow> u64 \<Rightarrow> (Client_t \<times> server) result" where
  "write_part s i c name startDataAddr n =
     bindR (load (recvBuffer c) startDataAddr (unat n)) (\<lambda>bs.
       Inr (c\<lparr>bigDataReadSizeDone := bigDataReadSizeDone c + ucast n\<rparr>, fappend s name bs))"

definition ProessMessageBigData :: "server \<Rightarrow> nat \<Rightarrow> (int \<times> server) result" where
  "ProessMessageBigData s i =
     bindR (client_at s i) (\<lambda>c.
     bindR (packetDataSize (recvBuffer c)) (\<lambda>start.
     bindR (rd32 (recvBuffer c) (unat start)) (\<lambda>flags.
     bindR (rd32 (recvBuffer c) (unat start + 4)) (\<lambda>total.
     bindR (msg_size (recvBuffer c)) (\<lambda>sizeAll.
     let n = bigDataPackSize sizeAll start;
         name = bigData_tmp (unat (idx c));
         finish = (\<lambda>(c, s). Inr (0, put_client s i
           (if flags AND STSOCKMSG_BIGDATA_END \<noteq> 0 then c\<lparr>bigDataReady := True\<rparr> else c))) in
     if flags AND STSOCKMSG_BIGDATA_HEADER \<noteq> 0 then
       (let c = c\<lparr>bigDataReady := False, bigDataReadSize := total, bigDataReadSizeDone := 0\<rparr> in
        case fopen_wb s name of
          None \<Rightarrow> Inr (-1, put_client s i c)
        | Some s \<Rightarrow> bindR (write_part s i c name (unat start + 8) n) finish)
     else if flags AND STSOCKMSG_BIGDATA_CONTINUE \<noteq> 0 \<or> flags AND STSOCKMSG_BIGDATA_END \<noteq> 0 then
       (case fopen_ab s name of
          None \<Rightarrow> finish (c, s)
        | Some s \<Rightarrow> bindR (write_part s i c name (unat start + 8) n) finish)
     else finish (c, s))))))"

text \<open>
  The path of a received file, printed into \<open>tempFileName [64]\<close>. A name that fills
  \<open>fileDataName\<close> without a terminator is read on past the array.
\<close>

definition fileData_path :: "Client_t \<Rightarrow> string result" where
  "fileData_path c =
     bindR (c_string (chars (fileDataName c))) (\<lambda>name.
     let path = ''FILE/file'' @ dec_pad 8 (unat (idx c)) @ name in
     if 64 < length path + 1 then Inl OutOfBounds else Inr path)"

lemma fileData_path_cong:
  "idx c = idx c' \<Longrightarrow> fileDataName c = fileDataName c' \<Longrightarrow> fileData_path c = fileData_path c'"
  by (simp add: fileData_path_def)

definition ProessMessageFileData :: "server \<Rightarrow> nat \<Rightarrow> (int \<times> server) result" where
  "ProessMessageFileData s i =
     bindR (client_at s i) (\<lambda>c.
     bindR (packetDataSize (recvBuffer c)) (\<lambda>start.
     bindR (rd32 (recvBuffer c) (unat start)) (\<lambda>flags.
     bindR (rd32 (recvBuffer c) (unat start + 4)) (\<lambda>total.
     bindR (msg_size (recvBuffer c)) (\<lambda>sizeAll.
     let n = bigDataPackSize sizeAll start;
         finish = (\<lambda>(c, s). Inr (0, put_client s i
           (if flags = STSOCKMSG_BIGDATA_END then c\<lparr>fileDataReady := True\<rparr> else c))) in
     if flags AND STSOCKMSG_BIGDATA_HEADER \<noteq> 0 then
       bindR (load (recvBuffer c) (unat start + 8) 32) (\<lambda>name.
       let c = c\<lparr>fileDataReady := False, bigDataReadSize := total, bigDataReadSizeDone := 0,
                 fileDataName := name\<rparr> in
       bindR (fileData_path c) (\<lambda>path.
       case fopen_wb s path of
          None \<Rightarrow> Inr (-1, put_client s i c)
        | Some s \<Rightarrow> bindR (write_part s i c path (unat start + 8 + 32) (n - 32)) finish))
     else if flags AND STSOCKMSG_BIGDATA_CONTINUE \<noteq> 0 \<or> flags AND STSOCKMSG_BIGDATA_END \<noteq> 0 then
       bindR (fileData_path c) (\<lambda>path.
       case fopen_ab s path of
          None \<Rightarrow> finish (c, s)
        | Some s \<Rightarrow> bindR (write_part s i c path (unat start + 8) n) finish)
     else finish (c, s))))))"

section \<open>Sending a file\<close>

text \<open>\<open>sprintf\<close> of a string into a character array of the client.\<close>

definition sprintf_into :: "u8 list \<Rightarrow> string \<Rightarrow> u8 list result" where
  "sprintf_into dst s = store dst 0 (bytes s @ [0])"

definition STSV_SendDBFile :: "server \<Rightarrow> nat \<Rightarrow> string \<Rightarrow> server result" where
  "STSV_SendDBFile s i fileName =
     bindR (client_at s i) (\<lambda>c.
       if fileDataSending c then Inr s
       else
         bindR (sprintf_into (fileSendName c) (''DBFILE/'' @ fileName)) (\<lambda>nm.
         case files s (''DBFILE/'' @ fileName) of
           Some content \<Rightarrow>
             bindR (sprintf_into nm fileName) (\<lambda>nm'.
               Inr (put_client s i (c\<lparr>bigDataSendSize := of_nat (length content),
                 bigDataSendSizeDone := 0, fileDataSending := True, fileSendName := nm'\<rparr>)))
         | None \<Rightarrow> Inr (put_client s i (c\<lparr>fileSendName := nm, fileDataSending := False\<rparr>))))"

text \<open>
  \<open>_PackDataWithBigData\<close>. The header flags are written last here: nothing reads them in
  between. \<open>sizeDataCanSend\<close> is an \<open>int\<close>, compared with a \<open>u32\<close> as unsigned.
\<close>

definition PackDataWithBigData :: "server \<Rightarrow> Client_t \<Rightarrow> Client_t result" where
  "PackDataWithBigData s c =
     bindR (c_string (chars (fileSendName c))) (\<lambda>name.
     if 64 < length (''DBFILE/'' @ name) + 1 then Inl OutOfBounds
     else case files s (''DBFILE/'' @ name) of
       None \<Rightarrow> Inr c
     | Some content \<Rightarrow>
       bindR (msg_type (sendBuffer c)) (\<lambda>ty.
       bindR (if fileDataSending c then wr16 (sendBuffer c) 0 (ty OR STSOCKMSG_FILEDATA)
              else Inr (sendBuffer c)) (\<lambda>b.
       bindR (msg_size b) (\<lambda>sizeAll.
       let headerAddr = nat (sint sizeAll + int sizeof_DATASIZE);
           sizeDataCanSend = word_of_int (60 * 2 ^ 10) - sizeAll :: s32;
           first = (bigDataSendSizeDone c = 0);
           named = (first \<and> fileDataSending c);
           startDataAddr = headerAddr + 8 + (if named then 32 else 0);
           sizeAll = sizeAll + 8 + (if named then 32 else 0);
           flag = (if first then STSOCKMSG_BIGDATA_HEADER else STSOCKMSG_BIGDATA_CONTINUE);
           rest = bigDataSendSize c - bigDataSendSizeDone c;
           (n, m) = (if rest < sizeDataCanSend then (unat rest, rest)
                     else (size_t_of sizeDataCanSend, sizeDataCanSend));
           done = bigDataSendSizeDone c + m;
           last = (done = bigDataSendSize c) in
       bindR (if named then store b (headerAddr + 8) (fileSendName c) else Inr b) (\<lambda>b.
       bindR (store b startDataAddr (fread_at content (unat (bigDataSendSizeDone c)) n)) (\<lambda>b.
       bindR (wr32 b 8 (sizeAll + m)) (\<lambda>b.
       bindR (wr32 b headerAddr (if last then flag OR STSOCKMSG_BIGDATA_END else flag)) (\<lambda>b.
       bindR (wr32 b (headerAddr + 4) (bigDataSendSize c)) (\<lambda>b.
         Inr (c\<lparr>sendBuffer := b, bigDataSendSizeDone := done,
                fileDataSending := (fileDataSending c \<and> \<not> last)\<rparr>))))))))))"

section \<open>One chunk\<close>

text \<open>
  The specification of one packet of a file transfer: with \<open>S\<close> the size of the packet before, the
  chunk is what is left of the file, at most \<open>61440 - S\<close> bytes.
\<close>

definition chunk_size :: "nat \<Rightarrow> nat \<Rightarrow> nat \<Rightarrow> nat" where
  "chunk_size S tot d = min (tot - d) (61440 - S)"

definition chunk_flags :: "nat \<Rightarrow> nat \<Rightarrow> nat \<Rightarrow> s32" where
  "chunk_flags S tot d =
     (let flag = (if d = 0 then STSOCKMSG_BIGDATA_HEADER else STSOCKMSG_BIGDATA_CONTINUE) in
      if d + chunk_size S tot d = tot then flag OR STSOCKMSG_BIGDATA_END else flag)"

definition name_size :: "nat \<Rightarrow> nat" where
  "name_size d = (if d = 0 then 32 else 0)"

text \<open>What a chunk looks like in a buffer that holds the packet in front of it.\<close>

definition holds_chunk :: "u8 list \<Rightarrow> nat \<Rightarrow> u8 list \<Rightarrow> u8 list \<Rightarrow> nat \<Rightarrow> bool" where
  "holds_chunk b S name content d \<longleftrightarrow>
     (let tot = length content; n = chunk_size S tot d in
      msg_size b = Inr (of_nat (S + 8 + name_size d + n)) \<and>
      rd32 b (S + 12) = Inr (chunk_flags S tot d) \<and>
      rd32 b (S + 16) = Inr (of_nat tot) \<and>
      (d = 0 \<longrightarrow> load b (S + 20) 32 = Inr name) \<and>
      load b (S + 20 + name_size d) n = Inr (take n (drop d content)))"

lemma unat_of_nat_32: "n < 2 ^ 32 \<Longrightarrow> unat (of_nat n :: u32) = n"
  by (simp add: unat_of_nat)

lemma sint_of_nat_32: "n < 2 ^ 31 \<Longrightarrow> sint (of_nat n :: u32) = int n"
  by (simp add: signed_of_nat signed_take_bit_int_eq_self)

lemma of_nat_diff_32: "m \<le> n \<Longrightarrow> (of_nat n - of_nat m :: u32) = of_nat (n - m)"
  by (simp add: of_nat_diff)

text \<open>The sizes of the next part, as the code computes them in words.\<close>

lemma chunk_words:
  assumes c: "bigDataSendSize c = of_nat tot" "bigDataSendSizeDone c = of_nat d"
    and sz: "tot < 2 ^ 31" "d \<le> tot" "S \<le> 61440"
  shows "bigDataSendSizeDone c = 0 \<longleftrightarrow> d = 0"
    and "(if bigDataSendSize c - bigDataSendSizeDone c < word_of_int (60 * 2 ^ 10) - of_nat S
      then (unat (bigDataSendSize c - bigDataSendSizeDone c), bigDataSendSize c - bigDataSendSizeDone c)
      else (size_t_of (word_of_int (60 * 2 ^ 10) - of_nat S), word_of_int (60 * 2 ^ 10) - of_nat S)) =
      (chunk_size S tot d, of_nat (chunk_size S tot d))"
    and "bigDataSendSizeDone c + of_nat (chunk_size S tot d) = of_nat (d + chunk_size S tot d)"
    and "(of_nat (d + chunk_size S tot d) :: u32) = bigDataSendSize c \<longleftrightarrow> d + chunk_size S tot d = tot"
proof -
  let ?can = "word_of_int (60 * 2 ^ 10) - of_nat S :: s32"
  have can: "?can = of_nat (61440 - S)"
    using of_nat_diff_32 [OF sz(3)] by simp
  have rest: "bigDataSendSize c - bigDataSendSizeDone c = of_nat (tot - d)"
    unfolding c by (rule of_nat_diff_32 [OF sz(2)])
  show "bigDataSendSizeDone c = 0 \<longleftrightarrow> d = 0"
    using sz(1,2) unat_of_nat_32 [of d] by (auto simp: c(2) simp flip: unat_eq_zero)
  have cmp: "bigDataSendSize c - bigDataSendSizeDone c < ?can \<longleftrightarrow> tot - d < 61440 - S"
    unfolding rest can using sz(1) by (simp add: word_less_nat_alt unat_of_nat_32)
  show "(if bigDataSendSize c - bigDataSendSizeDone c < ?can
      then (unat (bigDataSendSize c - bigDataSendSizeDone c), bigDataSendSize c - bigDataSendSizeDone c)
      else (size_t_of ?can, ?can)) = (chunk_size S tot d, of_nat (chunk_size S tot d))"
    using sz(1) unfolding cmp unfolding rest can
    by (simp add: chunk_size_def unat_of_nat_32 size_t_of_def sint_of_nat_32)
  show "bigDataSendSizeDone c + of_nat (chunk_size S tot d) = of_nat (d + chunk_size S tot d)" by (simp add: c(2))
  have "chunk_size S tot d \<le> tot - d" by (simp add: chunk_size_def)
  then show "(of_nat (d + chunk_size S tot d) :: u32) = bigDataSendSize c \<longleftrightarrow> d + chunk_size S tot d = tot"
    using sz(1,2) unat_of_nat_32 [of "d + chunk_size S tot d"] unat_of_nat_32 [of tot]
    unfolding c(1) by (auto simp: word_unat_eq_iff)
qed

text \<open>The six writes into the send buffer: where they are, what they leave, and that they fit.\<close>

definition chunk_writes :: "u8 list \<Rightarrow> nat \<Rightarrow> u8 list \<Rightarrow> u8 list \<Rightarrow> nat \<Rightarrow> s16 \<Rightarrow> u8 list \<Rightarrow> u8 list \<Rightarrow> u8 list \<Rightarrow> u8 list \<Rightarrow>
    u8 list \<Rightarrow> u8 list \<Rightarrow> bool" where
  "chunk_writes b S nm content d ty b1 b2 b3 b4 b5 b6 \<longleftrightarrow>
     (let n = chunk_size S (length content) d in
      msg_type b = Inr ty \<and> wr16 b 0 (ty OR STSOCKMSG_FILEDATA) = Inr b1 \<and> msg_size b1 = Inr (of_nat S) \<and>
      (if d = 0 then store b1 (S + 20) nm else Inr b1) = Inr b2 \<and>
      store b2 (S + 20 + name_size d) (take n (drop d content)) = Inr b3 \<and>
      wr32 b3 8 (of_nat (S + 8 + name_size d + n)) = Inr b4 \<and>
      wr32 b4 (S + 12) (chunk_flags S (length content) d) = Inr b5 \<and>
      wr32 b5 (S + 16) (of_nat (length content)) = Inr b6)"

lemma chunk_writes_total:
  assumes "msg_size b = Inr (of_nat S)" and "S \<le> 61440" and "length nm = 32" and "65536 \<le> length b"
    and "d \<le> length content"
  shows "\<exists>ty b1 b2 b3 b4 b5 b6. chunk_writes b S nm content d ty b1 b2 b3 b4 b5 b6"
proof -
  let ?n = "chunk_size S (length content) d"
  let ?bs = "take ?n (drop d content)"
  obtain ty where ty: "msg_type b = Inr ty"
    using c16.rd_total [of 0 b] assms(4) by (auto simp: msg_type_def)
  obtain b1 where b1: "wr16 b 0 (ty OR STSOCKMSG_FILEDATA) = Inr b1"
    using c16.wr_total [of 0 b] assms(4) by auto
  note l1 = c16.wr_length [OF b1]
  have s1: "msg_size b1 = Inr (of_nat S)"
    using assms(1) c32.rd_cong [OF c16.wr_load_other [OF b1, of 8 4]] by (simp add: msg_size_def)
  have "\<exists>b2. (if d = 0 then store b1 (S + 20) nm else Inr b1) = Inr b2"
    using store_total [of "S + 20" nm b1] assms(2-4) l1 by auto
  then obtain b2 where b2: "(if d = 0 then store b1 (S + 20) nm else Inr b1) = Inr b2"
    by blast
  have l2: "length b2 = length b1"
    using b2 by (auto split: if_splits dest: store_length)
  have "length ?bs \<le> 61440 - S" "name_size d \<le> 32" by (simp_all add: chunk_size_def name_size_def)
  then have "S + 20 + name_size d + length ?bs \<le> length b2" using assms(2,4) l1 l2 by linarith
  then obtain b3 where b3: "store b2 (S + 20 + name_size d) ?bs = Inr b3"
    using store_total by blast
  note l3 = store_length [OF b3]
  obtain b4 where b4: "wr32 b3 8 (of_nat (S + 8 + name_size d + ?n)) = Inr b4"
    using c32.wr_total [of 8 b3] l1 l2 l3 assms(4) by auto
  note l4 = c32.wr_length [OF b4]
  obtain b5 where b5: "wr32 b4 (S + 12) (chunk_flags S (length content) d) = Inr b5"
    using c32.wr_total [of "S + 12" b4] l1 l2 l3 l4 assms(2,4) by auto
  note l5 = c32.wr_length [OF b5]
  obtain b6 where "wr32 b5 (S + 16) (of_nat (length content)) = Inr b6"
    using c32.wr_total [of "S + 16" b5] l1 l2 l3 l4 l5 assms(2,4) by auto
  with ty b1 s1 b2 b3 b4 b5 show ?thesis unfolding chunk_writes_def Let_def by blast
qed

lemma chunk_writes_hold:
  assumes w: "chunk_writes b S nm content d ty b1 b2 b3 b4 b5 b6" and nm: "length nm = 32" and S: "4 \<le> S"
    and d: "d \<le> length content"
  shows "length b6 = length b \<and> holds_chunk b6 S nm content d \<and>
    (\<forall>off m. 12 \<le> off \<and> off + m \<le> S + 12 \<longrightarrow> load b6 off m = load b off m)"
proof -
  let ?n = "chunk_size S (length content) d" and ?nm = "name_size d"
  let ?bs = "take ?n (drop d content)"
  from w have b: "wr16 b 0 (ty OR STSOCKMSG_FILEDATA) = Inr b1"
    "(if d = 0 then store b1 (S + 20) nm else Inr b1) = Inr b2" "store b2 (S + 20 + ?nm) ?bs = Inr b3"
    "wr32 b3 8 (of_nat (S + 8 + ?nm + ?n)) = Inr b4" "wr32 b4 (S + 12) (chunk_flags S (length content) d) = Inr b5"
    "wr32 b5 (S + 16) (of_nat (length content)) = Inr b6" by (simp_all add: chunk_writes_def Let_def)
  have lbs: "length ?bs = ?n" using d by (simp add: chunk_size_def)
  have "length b2 = length b1" using b(2) by (auto split: if_splits dest: store_length)
  then have len: "length b6 = length b"
    using c16.wr_length [OF b(1)] store_length [OF b(3)] c32.wr_length [OF b(4)] c32.wr_length [OF b(5)]
      c32.wr_length [OF b(6)] by simp
  have f2: "load b2 off m = load b1 off m" if "off + m \<le> S + 20 \<or> S + 20 + ?nm \<le> off" for off m
    using b(2) that nm by (auto simp: name_size_def split: if_splits dest: load_store_other)
  have low: "load b6 off m = load b off m" if "12 \<le> off" "off + m \<le> S + 12" for off m
    using that c32.wr_load_other [OF b(6), of off m] c32.wr_load_other [OF b(5), of off m]
      c32.wr_load_other [OF b(4), of off m] load_store_other [OF b(3), of off m] f2 [of off m]
      c16.wr_load_other [OF b(1), of off m] by simp
  have high: "load b6 off m = load b3 off m" if "S + 20 \<le> off" for off m
    using that c32.wr_load_other [OF b(6), of off m] c32.wr_load_other [OF b(5), of off m]
      c32.wr_load_other [OF b(4), of off m] by simp
  have name: "load b6 (S + 20) 32 = Inr nm" if "d = 0"
    using that b(2) high [of "S + 20" 32] load_store_other [OF b(3), of "S + 20" 32] nm
      load_store_same [of b1 "S + 20" nm b2 32] by (simp add: name_size_def)
  have data: "load b6 (S + 20 + ?nm) ?n = Inr ?bs"
    using high [of "S + 20 + ?nm" ?n] load_store_same [OF b(3) lbs [symmetric]] by simp
  have msz: "msg_size b6 = Inr (of_nat (S + 8 + ?nm + ?n))"
    using c32.wr_load [OF b(4)] c32.wr_load_other [OF b(5), of 8 4] c32.wr_load_other [OF b(6), of 8 4] S
    unfolding msg_size_def by (intro c32.rd_load) simp
  have fl: "rd32 b6 (S + 12) = Inr (chunk_flags S (length content) d)"
    using c32.wr_load [OF b(5)] c32.wr_load_other [OF b(6), of "S + 12" 4] by (intro c32.rd_load) simp
  have "holds_chunk b6 S nm content d"
    using msz fl c32.rd_wr [OF b(6)] name data by (simp add: holds_chunk_def Let_def)
  with len low show ?thesis by blast
qed

lemma PackDataWithBigData_chunk:
  assumes src: "files s (''DBFILE/'' @ name) = Some content" "c_string (chars (fileSendName c)) = Inr name"
      "length name \<le> 56"
    and c: "fileDataSending c" "bigDataSendSize c = of_nat (length content)"
      "bigDataSendSizeDone c = of_nat d" "length (fileSendName c) = 32" "65536 \<le> length (sendBuffer c)"
    and sz: "length content < 2 ^ 31" "d \<le> length content" "msg_size (sendBuffer c) = Inr (of_nat S)"
      "4 \<le> S" "S \<le> 61440"
  shows "\<exists>b. PackDataWithBigData s c = Inr (c\<lparr>sendBuffer := b,
      bigDataSendSizeDone := of_nat (d + chunk_size S (length content) d),
      fileDataSending := (d + chunk_size S (length content) d \<noteq> length content)\<rparr>) \<and>
    length b = length (sendBuffer c) \<and> holds_chunk b S (fileSendName c) content d \<and>
    (\<forall>off m. 12 \<le> off \<and> off + m \<le> S + 12 \<longrightarrow> load b off m = load (sendBuffer c) off m)"
proof -
  let ?tot = "length content"
  let ?n = "chunk_size S (length content) d"
  note words = chunk_words [OF c(2,3) sz(1,2,5)]
  obtain ty b1 b2 b3 b4 b5 b6 where w: "chunk_writes (sendBuffer c) S (fileSendName c) content d ty b1 b2 b3 b4 b5 b6"
    using chunk_writes_total [OF sz(3,5) c(4,5) sz(2)] by blast
  then have ty: "msg_type (sendBuffer c) = Inr ty" and b1: "wr16 (sendBuffer c) 0 (ty OR STSOCKMSG_FILEDATA) = Inr b1"
    and s1: "msg_size b1 = Inr (of_nat S)" and b2: "(if d = 0 then store b1 (S + 20) (fileSendName c) else Inr b1) = Inr b2"
    and b3: "store b2 (S + 20 + name_size d) (take ?n (drop d content)) = Inr b3"
    and b4: "wr32 b3 8 (of_nat (S + 8 + name_size d + ?n)) = Inr b4"
    and b5: "wr32 b4 (S + 12) (chunk_flags S ?tot d) = Inr b5" and b6: "wr32 b5 (S + 16) (of_nat ?tot) = Inr b6"
    by (simp_all add: chunk_writes_def Let_def)
  have head: "nat (sint (of_nat S :: s32) + int sizeof_DATASIZE) = S + 12"
    using sz(5) sint_of_nat_32 [of S] by (simp add: sizeof_defs)
  have nolong: "(64 < length (''DBFILE/'' @ name) + 1) = False" using src(3) by simp
  have at: "S + 12 + 8 = S + 20" "S + 12 + 4 = S + 16" by simp_all
  have nm_if: "(if d = 0 then 32 else 0 :: nat) = name_size d" by (simp add: name_size_def)
  have fr: "fread_at content (unat (bigDataSendSizeDone c)) ?n = take ?n (drop d content)"
    using sz(1,2) by (simp add: fread_at_def c(3) unat_of_nat_32)
  have fl_if: "(if d + ?n = ?tot then (if d = 0 then STSOCKMSG_BIGDATA_HEADER else STSOCKMSG_BIGDATA_CONTINUE)
        OR STSOCKMSG_BIGDATA_END
      else if d = 0 then STSOCKMSG_BIGDATA_HEADER else STSOCKMSG_BIGDATA_CONTINUE) = chunk_flags S ?tot d"
    by (simp only: chunk_flags_def Let_def)
  have all: "(of_nat S :: s32) + 8 + (if d = 0 then 32 else 0) + of_nat ?n = of_nat (S + 8 + name_size d + ?n)"
    by (simp add: name_size_def)
  have run: "PackDataWithBigData s c = Inr (c\<lparr>sendBuffer := b6, bigDataSendSizeDone := of_nat (d + ?n),
      fileDataSending := (d + ?n \<noteq> ?tot)\<rparr>)"
    by (simp only: PackDataWithBigData_def src(2) bindR.simps nolong if_False src(1) option.case ty b1 s1
       c(1) if_True Let_def words simp_thms prod.case head at b2 nm_if fr b3 all b4 fl_if b5 b6 [folded c(2)])
  show ?thesis using run chunk_writes_hold [OF w c(4) sz(4,2)] by auto
qed

lemma chunk_flags_tests:
  "chunk_flags S tot d AND STSOCKMSG_BIGDATA_HEADER \<noteq> 0 \<longleftrightarrow> d = 0"
  "0 < d \<Longrightarrow> chunk_flags S tot d AND STSOCKMSG_BIGDATA_CONTINUE \<noteq> 0"
  "chunk_flags S tot d AND STSOCKMSG_BIGDATA_END \<noteq> 0 \<longleftrightarrow> d + chunk_size S tot d = tot"
  "chunk_flags S tot d \<noteq> STSOCKMSG_BIGDATA_END"
  by (auto simp: chunk_flags_def Let_def bigdata_flag_defs)

lemma bigDataPackSize_chunk:
  assumes "S \<le> 61440" and "n + k + S \<le> 61500"
  shows "bigDataPackSize (of_nat (S + 8 + k + n)) (of_nat (S + 12)) = of_nat (k + n)"
proof -
  have "sint (of_nat (S + 8 + k + n) :: s32) = int (S + 8 + k + n)"
    using assms by (intro sint_of_nat_32) simp
  moreover have "uint (of_nat (S + 12) :: u16) = int (S + 12)"
    using assms by (simp add: uint_nat unat_of_nat flip: of_nat_add)
  ultimately have "bigDataPackSize (of_nat (S + 8 + k + n)) (of_nat (S + 12)) =
      word_of_int (int (S + 8 + k + n) - int (S + 12)) + 12 - 8"
    by (simp only: bigDataPackSize_def sizeof_defs) simp
  then show ?thesis by simp
qed

lemma chunk_bounds:
  assumes "S \<le> 61440" shows "chunk_size S tot d + name_size d + S \<le> 61472"
  using assms by (auto simp: chunk_size_def name_size_def)

text \<open>What one packet does to the client that receives it as file data.\<close>

definition file_client :: "Client_t \<Rightarrow> nat \<Rightarrow> u8 list \<Rightarrow> u8 list \<Rightarrow> nat \<Rightarrow> Client_t" where
  "file_client r S name content d =
     (let n = chunk_size S (length content) d;
          r = (if d = 0 then r\<lparr>fileDataReady := False, bigDataReadSize := of_nat (length content),
                 bigDataReadSizeDone := 0, fileDataName := name\<rparr> else r) in
      r\<lparr>bigDataReadSizeDone := bigDataReadSizeDone r + of_nat n\<rparr>)"

lemma ProessMessageFileData_chunk:
  assumes r: "client_at s i = Inr r" "packetDataSize (recvBuffer r) = Inr (of_nat (S + 12))"
    and S: "S \<le> 61440" and hold: "holds_chunk (recvBuffer r) S name content d"
    and path: "fileData_path (file_client r S name content d) = Inr path" "\<not> no_create s path"
    and old: "0 < d \<Longrightarrow> files s path = Some (take d content)"
  shows "ProessMessageFileData s i = Inr (0, put_client
    (s\<lparr>files := (files s)(path \<mapsto> take (d + chunk_size S (length content) d) content)\<rparr>) i
    (file_client r S name content d))"
proof -
  let ?n = "chunk_size S (length content) d"
  let ?flags = "chunk_flags S (length content) d"
  have start: "unat (of_nat (S + 12) :: u16) = S + 12" using S by (simp add: unat_of_nat flip: of_nat_add)
  have rds: "rd32 (recvBuffer r) (S + 12) = Inr ?flags" "rd32 (recvBuffer r) (S + 12 + 4) = Inr (of_nat (length content))"
    "msg_size (recvBuffer r) = Inr (of_nat (S + 8 + name_size d + ?n))"
    "d = 0 \<Longrightarrow> load (recvBuffer r) (S + 12 + 8) 32 = Inr name"
    "load (recvBuffer r) (S + 20 + name_size d) ?n = Inr (take ?n (drop d content))"
    using hold by (simp_all add: holds_chunk_def Let_def add.commute)
  have psz: "bigDataPackSize (of_nat (S + 8 + name_size d + ?n)) (of_nat (S + 12)) = of_nat (name_size d + ?n)"
    using chunk_bounds [OF S, of "length content" d] by (intro bigDataPackSize_chunk) (simp_all add: S)
  have n1: "unat (of_nat ?n :: u64) = ?n"
    using chunk_bounds [OF S, of "length content" d] by (simp add: unat_of_nat)
  have n2: "(ucast (of_nat ?n :: u64) :: u32) = of_nat ?n"
    by (rule bit_word_eqI) (simp add: bit_ucast_iff bit_of_nat_iff)
  note n = n1 n2
  have wp: "write_part s' i c path (S + 20 + name_size d) (of_nat ?n) =
      Inr (c\<lparr>bigDataReadSizeDone := bigDataReadSizeDone c + of_nat ?n\<rparr>, fappend s' path (take ?n (drop d content)))"
    if "recvBuffer c = recvBuffer r" for c s'
    using that rds(5) n by (simp add: write_part_def)
  show ?thesis
  proof (cases "d = 0")
    case True
    then have nm: "name_size d = 32" by (simp add: name_size_def)
    let ?r1 = "r\<lparr>fileDataReady := False, bigDataReadSize := of_nat (length content),
      bigDataReadSizeDone := 0, fileDataName := name\<rparr>"
    have p: "fileData_path ?r1 = Inr path"
      using path(1) True by (simp add: file_client_def fileData_path_def Let_def)
    have cut: "bigDataPackSize (of_nat (S + 8 + name_size d + ?n)) (of_nat (S + 12)) - 32 = of_nat ?n"
      by (subst psz) (simp add: nm)
    have w: "write_part s' i ?r1 path (S + 12 + 8 + 32) (of_nat ?n) =
      Inr (?r1\<lparr>bigDataReadSizeDone := 0 + of_nat ?n\<rparr>, fappend s' path (take ?n (drop d content)))" for s'
      using wp [of ?r1 s'] nm by (simp add: add.commute)
    show ?thesis
      unfolding ProessMessageFileData_def r bindR.simps start rds(1-3) Let_def cut
      using True path(2) w rds(4) p
      by (simp add: chunk_flags_tests fopen_wb_def fappend_def file_client_def Let_def)
  next
    case False
    then have nm: "name_size d = 0" by (simp add: name_size_def)
    have p: "fileData_path r = Inr path"
      using path(1) False by (simp add: file_client_def fileData_path_def Let_def)
    have w: "write_part s' i r path (S + 12 + 8) (of_nat (name_size d + ?n)) =
      Inr (r\<lparr>bigDataReadSizeDone := bigDataReadSizeDone r + of_nat ?n\<rparr>, fappend s' path (take ?n (drop d content)))" for s'
      using wp [of r s'] nm by (simp add: add.commute)
    show ?thesis
      unfolding ProessMessageFileData_def r bindR.simps start rds(1-3) Let_def psz
      using False path(2) w old
      by (simp add: chunk_flags_tests p fopen_ab_def fappend_def file_client_def Let_def take_add)
  qed
qed

section \<open>A whole file\<close>

lemma entries_sizes:
  assumes "\<And>p b. (p, b) \<in> set q \<Longrightarrow> length b < 2048" and "cont = 0 \<or> cont = 1"
  shows "map entry_size (entries cont cur q) = map (\<lambda>x. length (snd x)) q"
  using assms
proof (induction cont cur q rule: entries.induct)
  case (2 cont cur pn b q)
  let ?c = "if cur \<noteq> pn then 1 - cont else cont"
  have "?c = 0 \<or> ?c = 1" "?c < 32" using "2.prems"(2) by auto
  moreover have "length b < 2048" using "2.prems"(1) [of pn b] by simp
  moreover have "map entry_size (entries ?c pn q) = map (\<lambda>x. length (snd x)) q"
    using "2.prems" \<open>?c = 0 \<or> ?c = 1\<close> by (intro "2.IH") (auto split: if_splits)
  ultimately show ?case by (simp add: Let_def entry_size_entry)
qed simp

lemma packetDataSize_body:
  assumes nd: "msg_numData buf = Inr (of_nat (length q))" and q: "queue_at c q"
    and rd: "\<And>j. j < length q \<Longrightarrow> rd16 buf (16 + 2 * j) = Inr (entries 0 0 q ! j)"
  shows "packetDataSize buf = Inr (of_nat (16 + length (packet_body q)))"
proof -
  have sizes: "map entry_size (entries 0 0 q) = map (\<lambda>x. length (snd x)) q"
    using q by (intro entries_sizes) (force simp: queue_at_def in_set_conv_nth)+
  have "foldR (\<lambda>n i. bindR (rd16 buf (16 + 2 * i)) (\<lambda>e. Inr (n + of_nat (entry_size e)))) 0 [0..<k] =
      Inr (of_nat (length (payload (take k q))) :: u16)" if "k \<le> length q" for k
    using that
  proof (induction k)
    case (Suc k)
    have "entry_size (entries 0 0 q ! k) = length (snd (q ! k))"
      using sizes Suc.prems by (metis Suc_le_eq entries_length nth_map)
    with Suc show ?case
      by (simp add: foldR_append rd take_Suc_conv_app_nth)
  qed simp
  moreover have "nat (sint (of_nat (length q) :: u16)) = length q"
    using q by (simp add: queue_at_def signed_of_nat signed_take_bit_int_eq_self)
  ultimately show ?thesis
    using nd by (simp add: packetDataSize_def sizeof_defs packet_body_length algebra_simps)
qed

text \<open>What arrives of a packet: \<open>sizeAll + 12\<close> bytes in the front of the receive buffer.\<close>

definition deliver :: "u8 list \<Rightarrow> Client_t \<Rightarrow> Client_t result" where
  "deliver b r =
     bindR (msg_size b) (\<lambda>sizeAll.
     bindR (load b 0 (unat sizeAll + sizeof_DATASIZE)) (\<lambda>bs.
     bindR (store (recvBuffer r) 0 bs) (\<lambda>rb. Inr (r\<lparr>recvBuffer := rb\<rparr>))))"

lemma deliver_loads:
  assumes "msg_size b = Inr (of_nat z)" and "z + 12 \<le> 65536" and "65536 \<le> length b"
    and "65536 \<le> length (recvBuffer r)"
  shows "\<exists>rb. deliver b r = Inr (r\<lparr>recvBuffer := rb\<rparr>) \<and> length rb = length (recvBuffer r) \<and>
    (\<forall>off m. off + m \<le> z + 12 \<longrightarrow> load rb off m = load b off m)"
proof -
  have z: "unat (of_nat z :: u32) = z" using assms(2) by (intro unat_of_nat_32) simp
  have ld: "load b 0 (z + 12) = Inr (take (z + 12) b)" using assms(2,3) by (simp add: load_def)
  obtain rb where st: "store (recvBuffer r) 0 (take (z + 12) b) = Inr rb"
    using store_total [of 0 "take (z + 12) b" "recvBuffer r"] assms by auto
  have "length (take (z + 12) b) = z + 12" using assms(2,3) by simp
  with load_store_same [OF st refl] have rb: "load rb 0 (z + 12) = Inr (take (z + 12) b)" by simp
  have "load rb off m = load b off m" if "off + m \<le> z + 12" for off m
    using load_within [OF rb that] load_within [OF ld that] by simp
  moreover have "deliver b r = Inr (r\<lparr>recvBuffer := rb\<rparr>)"
    using assms(1) ld st by (simp add: deliver_def z sizeof_defs)
  ultimately show ?thesis using store_length [OF st] by auto
qed

lemma holds_chunk_cong:
  assumes "holds_chunk b S name content d" and "4 \<le> S"
    and "\<And>off m. off + m \<le> S + 20 + name_size d + chunk_size S (length content) d \<Longrightarrow> load rb off m = load b off m"
  shows "holds_chunk rb S name content d"
proof -
  let ?n = "chunk_size S (length content) d"
  have c: "rd32 rb off = rd32 b off" if "off + 4 \<le> S + 20" for off
    using that by (intro c32.rd_cong assms(3)) simp
  show ?thesis
    using assms(1) assms(3) [of "S + 20" 32] assms(3) [of "S + 20 + name_size d" ?n] c [of 8]
      c [of "S + 12"] c [of "S + 16"] assms(2)
    by (auto simp: holds_chunk_def Let_def msg_size_def name_size_def)
qed

text \<open>One round of a transfer: the sender packs, the receiver takes the packet's file part.\<close>

definition file_round :: "server \<Rightarrow> Client_t \<Rightarrow> server \<Rightarrow> nat \<Rightarrow> (Client_t \<times> server) result" where
  "file_round s c t i =
     bindR (PackDataWithPacket c) (\<lambda>c.
     bindR (PackDataWithBigData s c) (\<lambda>c.
     bindR (client_at t i) (\<lambda>r.
     bindR (deliver (sendBuffer c) r) (\<lambda>r.
     bindR (ProessMessageFileData (put_client t i r) i) (\<lambda>(_, t). Inr (c, t))))))"

fun file_transfer :: "nat \<Rightarrow> server \<Rightarrow> Client_t \<Rightarrow> server \<Rightarrow> nat \<Rightarrow> (Client_t \<times> server) result" where
  "file_transfer 0 s c t i = Inr (c, t)"
| "file_transfer (Suc k) s c t i =
     (if fileDataSending c then bindR (file_round s c t i) (\<lambda>(c, t). file_transfer k s c t i)
      else Inr (c, t))"

text \<open>What is behind the blocks of a packet begins where its size table says.\<close>

lemma packet_data_size:
  assumes wf: "wf_client c" and hd: "load b 0 16 = Inr (PACKDATASIZE_bytes (packet_header ref (queued c) crc))"
    and body: "load b 16 (length (packet_body (queued c))) = Inr (packet_body (queued c))"
    and same: "\<And>off m. 12 \<le> off \<Longrightarrow> off + m \<le> 16 + length (packet_body (queued c)) \<Longrightarrow> load rb off m = load b off m"
  shows "packetDataSize rb = Inr (of_nat (16 + length (packet_body (queued c))))"
proof -
  let ?q = "queued c"
  have "load rb 14 2 = load b 14 2" by (intro same) simp_all
  then have "msg_numData rb = Inr (of_nat (length ?q))"
    using header_numData [OF hd] c16.rd_cong [of rb 14 b] by (simp add: msg_numData_def packet_header_def)
  moreover have "rd16 rb (16 + 2 * j) = Inr (entries 0 0 ?q ! j)" if "j < length ?q" for j
  proof -
    have "load b (16 + 2 * j) 2 = Inr (le16 (entries 0 0 ?q ! j))"
      using load_within [OF body, of "2 * j" 2] concat_le16_nth [of j "entries 0 0 ?q"] that
      by (simp add: packet_body_length) (simp add: packet_body_def)
    moreover have "load rb (16 + 2 * j) 2 = load b (16 + 2 * j) 2"
      using that by (intro same) (auto simp: packet_body_length)
    ultimately show ?thesis by (intro c16.rd_load) simp
  qed
  ultimately show ?thesis
    using packetDataSize_body [OF _ queue_at_queued [OF wf]] by (simp add: add.commute)
qed

lemma file_round_chunk:
  assumes src: "files s (''DBFILE/'' @ name) = Some content" "c_string (chars (fileSendName c)) = Inr name"
      "length name \<le> 56"
    and c: "wf_client c" "fileDataSending c" "bigDataSendSize c = of_nat (length content)"
      "bigDataSendSizeDone c = of_nat d" "length (fileSendName c) = 32"
    and sz: "length content < 2 ^ 31" "d \<le> length content" "S = length (packet_body (queued c)) + 4" "S \<le> 61440"
    and r: "client_at t i = Inr r" "65536 \<le> length (recvBuffer r)"
    and path: "fileData_path (file_client r S (fileSendName c) content d) = Inr path" "\<not> no_create t path"
    and old: "0 < d \<Longrightarrow> files t path = Some (take d content)"
  shows "\<exists>b rb. file_round s c t i = Inr (c\<lparr>sendBuffer := b,
        bigDataSendSizeDone := of_nat (d + chunk_size S (length content) d),
        fileDataSending := (d + chunk_size S (length content) d \<noteq> length content)\<rparr>,
      put_client (t\<lparr>files := (files t)(path \<mapsto> take (d + chunk_size S (length content) d) content)\<rparr>) i
        (file_client (r\<lparr>recvBuffer := rb\<rparr>) S (fileSendName c) content d)) \<and>
    length b = length (sendBuffer c) \<and> length rb = length (recvBuffer r)"
proof -
  let ?q = "queued c"
  let ?n = "chunk_size S (length content) d"
  note W = wf_clientD [OF c(1)]
  obtain b0 crc where p: "PackDataWithPacket c = Inr (c\<lparr>sendBuffer := b0\<rparr>)" "length b0 = length (sendBuffer c)"
    "load b0 0 16 = Inr (PACKDATASIZE_bytes (packet_header (packRef c) ?q crc))"
    "load b0 16 (length (packet_body ?q)) = Inr (packet_body ?q)"
    using PackDataWithPacket_body [OF c(1)] by blast
  have m0: "msg_size b0 = Inr (of_nat S)"
    using header_size [OF p(3)] by (simp add: packet_header_def sz(3))
  have "\<exists>b. PackDataWithBigData s (c\<lparr>sendBuffer := b0\<rparr>) = Inr (c\<lparr>sendBuffer := b0\<rparr>\<lparr>sendBuffer := b,
      bigDataSendSizeDone := of_nat (d + ?n), fileDataSending := (d + ?n \<noteq> length content)\<rparr>) \<and>
    length b = length (sendBuffer (c\<lparr>sendBuffer := b0\<rparr>)) \<and>
    holds_chunk b S (fileSendName (c\<lparr>sendBuffer := b0\<rparr>)) content d \<and>
    (\<forall>off m. 12 \<le> off \<and> off + m \<le> S + 12 \<longrightarrow> load b off m = load (sendBuffer (c\<lparr>sendBuffer := b0\<rparr>)) off m)"
    using src c sz m0 p(2) W(1) by (intro PackDataWithBigData_chunk) simp_all
  then obtain b where b: "PackDataWithBigData s (c\<lparr>sendBuffer := b0\<rparr>) = Inr (c\<lparr>sendBuffer := b,
      bigDataSendSizeDone := of_nat (d + ?n), fileDataSending := (d + ?n \<noteq> length content)\<rparr>)"
    "length b = length b0" "holds_chunk b S (fileSendName c) content d"
    "\<And>off m. 12 \<le> off \<Longrightarrow> off + m \<le> S + 12 \<Longrightarrow> load b off m = load b0 off m"
    by auto
  have mb: "msg_size b = Inr (of_nat (S + 8 + name_size d + ?n))"
    using b(3) by (simp add: holds_chunk_def Let_def)
  have "S + 8 + name_size d + ?n + 12 \<le> 65536" using chunk_bounds [OF sz(4), of "length content" d] by simp
  from deliver_loads [OF mb this _ r(2)] b(2) p(2) W(1) obtain rb where rb:
    "deliver b r = Inr (r\<lparr>recvBuffer := rb\<rparr>)" "length rb = length (recvBuffer r)"
    "\<And>off m. off + m \<le> S + 20 + name_size d + ?n \<Longrightarrow> load rb off m = load b off m"
    by (auto simp: algebra_simps)
  have hold: "holds_chunk rb S (fileSendName c) content d"
    using rb(3) by (intro holds_chunk_cong [OF b(3)]) (auto simp: sz(3))
  have "load rb off m = load b0 off m" if "12 \<le> off" "off + m \<le> 16 + length (packet_body ?q)" for off m
    using that rb(3) [of off m] b(4) [of off m] sz(3) by simp
  from packet_data_size [OF c(1) p(3,4) this]
  have start: "packetDataSize rb = Inr (of_nat (S + 12))" by (simp add: sz(3) add.commute)
  let ?r = "r\<lparr>recvBuffer := rb\<rparr>"
  have "fileData_path (file_client ?r S (fileSendName c) content d) = Inr path"
    unfolding path(1) [symmetric] by (rule fileData_path_cong) (simp_all add: file_client_def Let_def)
  moreover have i: "i < length (s_Client_t t)" using r(1) by (simp add: client_at_Inr_iff)
  ultimately have "ProessMessageFileData (put_client t i ?r) i = Inr (0, put_client
      ((put_client t i ?r)\<lparr>files := (files (put_client t i ?r))(path \<mapsto> take (d + ?n) content)\<rparr>) i
      (file_client ?r S (fileSendName c) content d))"
    using start hold path(2) old sz(4) by (intro ProessMessageFileData_chunk) simp_all
  moreover have "put_client ((put_client t i ?r)\<lparr>files := (files (put_client t i ?r))(path \<mapsto> take (d + ?n) content)\<rparr>) i x =
      put_client (t\<lparr>files := (files t)(path \<mapsto> take (d + ?n) content)\<rparr>) i x" for x
    by (simp add: put_client_def)
  ultimately have "file_round s c t i = Inr (c\<lparr>sendBuffer := b, bigDataSendSizeDone := of_nat (d + ?n),
      fileDataSending := (d + ?n \<noteq> length content)\<rparr>,
    put_client (t\<lparr>files := (files t)(path \<mapsto> take (d + ?n) content)\<rparr>) i
      (file_client ?r S (fileSendName c) content d))"
    using p(1) b(1) r(1) rb(1) by (simp add: file_round_def)
  with b(2) p(2) rb(2) show ?thesis by auto
qed

lemma dec_length: "n < 10 ^ Suc k \<Longrightarrow> length (dec n) \<le> Suc k"
proof (induction k arbitrary: n)
  case 0
  then show ?case by (subst dec.simps) simp
next
  case (Suc k)
  have "n div 10 < 10 ^ Suc k" using Suc.prems by auto
  from Suc.IH [OF this] show ?case by (subst dec.simps) simp
qed

lemma c_string_length: "c_string a = Inr s \<Longrightarrow> length s < length a"
proof -
  have "x \<in> set a \<Longrightarrow> length (takeWhile (\<lambda>y. y \<noteq> x) a) < length a" for x :: char
    by (induction a) auto
  then show "c_string a = Inr s \<Longrightarrow> length s < length a"
    by (auto simp: c_string_def split: if_splits)
qed

lemma fileData_path_name:
  assumes "c_string (chars (fileDataName r)) = Inr name" and "length name \<le> 31"
  shows "fileData_path r = Inr (''FILE/file'' @ dec_pad 8 (unat (idx r)) @ name)"
proof -
  have "unat (idx r) < 2 ^ LENGTH(16)" by (rule unsigned_less)
  then have "unat (idx r) < 10 ^ Suc 7" by simp
  then have "length (dec_pad 8 (unat (idx r))) = 8"
    using dec_length [of "unat (idx r)" 7] by (simp add: dec_pad_def)
  with assms show ?thesis by (simp add: fileData_path_def Let_def)
qed

lemma file_transfer_from:
  assumes src: "files s (''DBFILE/'' @ name) = Some content" "c_string (chars (fileSendName c)) = Inr name"
    and c: "wf_client c" "sendCount c = 0" "fileDataSending c" "bigDataSendSize c = of_nat (length content)"
      "bigDataSendSizeDone c = of_nat d" "length (fileSendName c) = 32"
    and sz: "length content < 2 ^ 31" "d \<le> length content"
    and r: "client_at t i = Inr r" "65536 \<le> length (recvBuffer r)" "unat (idx r) = k"
    and path: "path = ''FILE/file'' @ dec_pad 8 k @ name" "\<not> no_create t path"
    and old: "0 < d \<Longrightarrow> files t path = Some (take d content) \<and> fileDataName r = fileSendName c \<and>
        \<not> fileDataReady r \<and> bigDataReadSizeDone r = of_nat d"
    and fuel: "length content - d \<le> n * 61436" "0 < n"
  shows "\<exists>c' t' r'. file_transfer n s c t i = Inr (c', t') \<and> \<not> fileDataSending c' \<and>
    files t' path = Some content \<and> client_at t' i = Inr r' \<and> \<not> fileDataReady r' \<and>
    bigDataReadSizeDone r' = of_nat (length content)"
  using assms
proof (induction n arbitrary: c t r d)
  case 0
  then show ?case by simp
next
  case (Suc n)
  let ?S = "4 :: nat"
  let ?m = "chunk_size 4 (length content) d"
  note name31 = c_string_length [OF Suc.prems(2)]
  have q: "queued c = []" using Suc.prems(4) by (simp add: queued_def)
  have S: "?S = length (packet_body (queued c)) + 4" by (simp add: q packet_body_def)
  have m: "?m = min (length content - d) 61436" by (simp add: chunk_size_def)
  let ?r1 = "file_client r 4 (fileSendName c) content d"
  have nm: "fileDataName ?r1 = fileSendName c" "idx ?r1 = idx r"
    using Suc.prems(16) by (auto simp: file_client_def Let_def)
  have fp: "fileData_path ?r1 = Inr path"
    using fileData_path_name [of ?r1 name] Suc.prems(2,8,13,14) name31 nm
    by (simp add: chars_def)
  have "length name \<le> 56" using name31 Suc.prems(8) by (simp add: chars_def)
  from file_round_chunk [OF Suc.prems(1,2) this Suc.prems(3,5,6,7,8,9,10) S _ Suc.prems(11,12) fp Suc.prems(15)]
  obtain b rb where round: "file_round s c t i = Inr (c\<lparr>sendBuffer := b,
        bigDataSendSizeDone := of_nat (d + ?m), fileDataSending := (d + ?m \<noteq> length content)\<rparr>,
      put_client (t\<lparr>files := (files t)(path \<mapsto> take (d + ?m) content)\<rparr>) i
        (file_client (r\<lparr>recvBuffer := rb\<rparr>) 4 (fileSendName c) content d))"
    "length b = length (sendBuffer c)" "length rb = length (recvBuffer r)"
    using Suc.prems(16) by auto
  let ?c = "c\<lparr>sendBuffer := b, bigDataSendSizeDone := of_nat (d + ?m),
    fileDataSending := (d + ?m \<noteq> length content)\<rparr>"
  let ?r = "file_client (r\<lparr>recvBuffer := rb\<rparr>) 4 (fileSendName c) content d"
  let ?t = "put_client (t\<lparr>files := (files t)(path \<mapsto> take (d + ?m) content)\<rparr>) i ?r"
  have i: "i < length (s_Client_t t)" using Suc.prems(11) by (simp add: client_at_Inr_iff)
  have at: "client_at ?t i = Inr ?r" by (rule put_client_at) (simp add: i)
  have ready: "\<not> fileDataReady ?r" "bigDataReadSizeDone ?r = of_nat (d + ?m)"
      "fileDataName ?r = fileSendName c" "recvBuffer ?r = rb" "unat (idx ?r) = k"
    using Suc.prems(13,16) by (auto simp: file_client_def Let_def)
  have step: "file_transfer (Suc n) s c t i = file_transfer n s ?c ?t i"
    using Suc.prems(5) round(1) by simp
  show ?case
  proof (cases "d + ?m = length content")
    case True
    have "file_transfer n s ?c ?t i = Inr (?c, ?t)" using True by (cases n) simp_all
    with step at ready True show ?thesis by (intro exI [of _ ?c] exI [of _ ?t] exI [of _ ?r]) simp
  next
    case False
    then have big: "?m = 61436" "0 < n" "length content - (d + 61436) \<le> n * 61436" "d + 61436 \<le> length content"
      using Suc.prems(10,17) by (auto simp: m min_def split: if_splits)
    have "wf_client ?c" using Suc.prems(3) round(2) by (simp add: wf_client_def)
    then show ?thesis
      unfolding step
      using Suc.prems False big at ready round(3)
      by (intro Suc.IH [of ?c "d + ?m" ?t ?r]) simp_all
  qed
qed

text \<open>C22: A file sent with \<open>STSV_SendDBFile\<close> arrives: after at most one packet per 61436 bytes (and one for
an empty file) the sender's \<open>_PackDataWithBigData\<close> has finished, and \<open>_ProessMessageFileData\<close> has
written exactly its contents under the receiver's name for it. But \<open>fileDataReady\<close> is still unset: the
receiver compares the flags of the last packet with \<open>==\<close>, and the sender never sends the END flag alone.\<close>

theorem file_transfer_delivers:
  assumes "files s (''DBFILE/'' @ name) = Some content" and "c_string (chars (fileSendName c)) = Inr name"
    and "wf_client c" and "sendCount c = 0" and "fileDataSending c"
    and "bigDataSendSize c = of_nat (length content)" and "bigDataSendSizeDone c = 0"
    and "length (fileSendName c) = 32" and "length content < 2 ^ 31"
    and "client_at t i = Inr r" and "65536 \<le> length (recvBuffer r)"
    and "path = ''FILE/file'' @ dec_pad 8 (unat (idx r)) @ name" and "\<not> no_create t path"
    and "length content \<le> n * 61436" and "0 < n"
  shows "\<exists>c' t' r'. file_transfer n s c t i = Inr (c', t') \<and> \<not> fileDataSending c' \<and>
    files t' path = Some content \<and> client_at t' i = Inr r' \<and> \<not> fileDataReady r' \<and>
    bigDataReadSizeDone r' = of_nat (length content)"
  by (rule file_transfer_from [where d = 0]) (use assms in simp_all)

theorem file_transfer_delivers_witness:
  "\<exists>c' t' r'. file_transfer 1
      ((fresh_server [])\<lparr>files := [''DBFILE/a'' \<mapsto> [1, 2, 3]]\<rparr>)
      ((fresh_client 65536)\<lparr>fileDataSending := True, bigDataSendSize := 3, fileSendName := 97 # replicate 31 0\<rparr>)
      (fresh_server [fresh_client 65536]) 0 = Inr (c', t') \<and>
    files t' ''FILE/file00000000a'' = Some [1, 2, 3] \<and> client_at t' 0 = Inr r' \<and> \<not> fileDataReady r'"
proof -
  let ?s = "(fresh_server [])\<lparr>files := [''DBFILE/a'' \<mapsto> [1, 2, 3 :: u8]]\<rparr>"
  let ?c = "(fresh_client 65536)\<lparr>fileDataSending := True, bigDataSendSize := 3, fileSendName := 97 # replicate 31 0\<rparr>"
  let ?t = "fresh_server [fresh_client 65536]"
  have wf0: "wf_client (fresh_client 65536)" by (rule wf_fresh_client) simp
  have wf: "wf_client ?c" using wf0 by (simp add: wf_client_def)
  have nm: "c_string (chars (97 # replicate 31 0)) = Inr ''a''" by code_simp
  have path: "''FILE/file00000000a'' = ''FILE/file'' @ dec_pad 8 0 @ ''a''" by code_simp
  have "\<exists>c' t' r'. file_transfer 1 ?s ?c ?t 0 = Inr (c', t') \<and> \<not> fileDataSending c' \<and>
    files t' ''FILE/file00000000a'' = Some [1, 2, 3] \<and> client_at t' 0 = Inr r' \<and> \<not> fileDataReady r' \<and>
    bigDataReadSizeDone r' = of_nat (length [1, 2, 3 :: u8])"
    by (rule file_transfer_delivers [where name = "''a''" and r = "fresh_client 65536"])
      (simp_all add: nm wf path fresh_server_def client_at_Inr_iff,
       simp_all add: fresh_client_def init_sendBufferMSG_def)
  then show ?thesis by blast
qed

end
