(* ===== verification/Star_Views.thy ===== *)
theory Star_Views
  imports Star_Files
begin

text \<open>
  What taking a packet apart leaves alone. \<open>_processMessagePacket\<close>, \<open>_ProessMessageBigData\<close> and
  \<open>_ProessMessageFileData\<close> change a handful of fields of one client; everything that can be read
  off the other fields, for any client, is the same afterwards. The contract is a locale over the
  way a client is read; it is used for the packet references and for the receive buffers.
\<close>

definition views :: "(Client_t \<Rightarrow> 'a) \<Rightarrow> server \<Rightarrow> 'a list" where
  "views get s = map get (s_Client_t s)"

lemma views_length [simp]: "length (views get s) = length (s_Client_t s)"
  by (simp add: views_def)

lemma views_frame [simp]:
  "views get (s\<lparr>net := n\<rparr>) = views get s" "views get (s\<lparr>files := f\<rparr>) = views get s"
  by (simp_all add: views_def)

lemma client_at_net [simp]:
  "client_at (s\<lparr>net := n\<rparr>) i = client_at s i" "client_at (s\<lparr>files := f\<rparr>) i = client_at s i"
  by (simp_all add: client_at_def)

lemma views_length_eq: "views get s' = views get s \<Longrightarrow> length (s_Client_t s') = length (s_Client_t s)"
  using views_length by metis

lemma views_at: "client_at s i = Inr c \<Longrightarrow> i < length (s_Client_t s) \<and> views get s ! i = get c"
  by (auto simp: client_at_Inr_iff views_def)

lemma views_put: "views get (put_client s i c) = (views get s)[i := get c]"
  by (simp add: views_def put_client_def map_update)

lemma views_put_same:
  assumes "client_at s i = Inr c" and "get c' = get c"
  shows "views get (put_client s i c') = views get s"
  using views_at [OF assms(1), of get] assms(2) by (metis list_update_id views_put)

lemma views_on_client:
  assumes "on_client s i f = Inr s'" and "\<And>c c'. f c = Inr c' \<Longrightarrow> get c' = get c"
  shows "views get s' = views get s"
proof -
  from assms(1) obtain c c' where "client_at s i = Inr c" "f c = Inr c'" "s' = put_client s i c'"
    by (auto simp: on_client_def bindR_Inr_iff)
  with assms(2) show ?thesis by (simp add: views_put_same)
qed

lemma files_only:
  "fopen_wb s name = Some s' \<Longrightarrow> s_Client_t s' = s_Client_t s"
  "fopen_ab s name = Some s' \<Longrightarrow> s_Client_t s' = s_Client_t s"
  "write_part s i c name a n = Inr (c', s') \<Longrightarrow>
     s_Client_t s' = s_Client_t s \<and> (\<exists>d. c' = c\<lparr>bigDataReadSizeDone := d\<rparr>)"
  by (auto simp: fopen_wb_def fopen_ab_def write_part_def fappend_def bindR_Inr_iff
      split: if_splits option.splits)

lemma views_put_files:
  assumes "client_at s i = Inr c" and "s_Client_t s1 = s_Client_t s" and "get c' = get c"
  shows "views get (put_client s1 i c') = views get s"
proof -
  have "client_at s1 i = Inr c" using assms(1,2) by (simp add: client_at_def)
  from views_put_same [of s1 i c get, OF this assms(3)] show ?thesis using assms(2) by (simp add: views_def)
qed

locale kept_view =
  fixes get :: "Client_t \<Rightarrow> 'a"
  assumes get_parts: "length m = length (recvBufferMSG c) \<Longrightarrow> get (c\<lparr>recvBufferMSG := m\<rparr>) = get c"
    and get_sizes: "length z = length (recvBufferMSGSize c) \<Longrightarrow> get (c\<lparr>recvBufferMSGSize := z\<rparr>) = get c"
    and get_count: "get (c\<lparr>recvCount := n\<rparr>) = get c"
    and get_big: "get (c\<lparr>bigDataReady := b\<rparr>) = get c" "get (c\<lparr>bigDataReadSize := x\<rparr>) = get c"
      "get (c\<lparr>bigDataReadSizeDone := y\<rparr>) = get c"
    and get_file: "get (c\<lparr>fileDataReady := b\<rparr>) = get c" "get (c\<lparr>fileDataName := name\<rparr>) = get c"
begin

lemmas get_kept = get_parts get_sizes get_count get_big get_file

lemma kept_recv_entry: "recv_entry (c, k) i = Inr (c', k') \<Longrightarrow> get c' = get c"
  by (cases k) (auto simp: recv_entry_def bindR_Inr_iff get_kept set_at_length split: if_splits)

lemma kept_recv_loop: "foldR recv_entry (c, k) is = Inr (c', k') \<Longrightarrow> get c' = get c"
proof (induction "is" arbitrary: c k)
  case (Cons i "is")
  then obtain x where x: "recv_entry (c, k) i = Inr x" "foldR recv_entry x is = Inr (c', k')"
    by (auto simp: bindR_Inr_iff)
  then show ?case using Cons.IH [of "fst x" "snd x"] kept_recv_entry [of c k i "fst x" "snd x"] by simp
qed simp

lemma kept_processMessagePacket: "processMessagePacket c = Inr c' \<Longrightarrow> get c' = get c"
  by (auto simp: processMessagePacket_def bindR_Inr_iff get_kept split: if_splits dest: kept_recv_loop)

lemma kept_packet: "on_client s i processMessagePacket = Inr s' \<Longrightarrow> views get s' = views get s"
  by (rule views_on_client) (auto dest: kept_processMessagePacket)

lemma kept_BigData: "ProessMessageBigData s i = Inr (r, s') \<Longrightarrow> views get s' = views get s"
proof -
  have "ensures (ProessMessageBigData s i) (\<lambda>(r, s'). views get s' = views get s)"
    unfolding ProessMessageBigData_def Let_def
    by (intro ensures_rules) (auto intro!: views_put_files simp: get_kept dest!: files_only)
  then show "ProessMessageBigData s i = Inr (r, s') \<Longrightarrow> views get s' = views get s"
    by (auto dest: ensuresD)
qed

lemma kept_FileData: "ProessMessageFileData s i = Inr (r, s') \<Longrightarrow> views get s' = views get s"
proof -
  have "ensures (ProessMessageFileData s i) (\<lambda>(r, s'). views get s' = views get s)"
    unfolding ProessMessageFileData_def Let_def
    by (intro ensures_rules) (auto intro!: views_put_files simp: get_kept dest!: files_only)
  then show "ProessMessageFileData s i = Inr (r, s') \<Longrightarrow> views get s' = views get s"
    by (auto dest: ensuresD)
qed

end

interpretation ref: kept_view packRef by unfold_locales simp_all

interpretation rbuf: kept_view recvBuffer by unfold_locales simp_all

text \<open>The arrays keep their sizes, so a well-formed client stays one.\<close>

interpretation shaped: kept_view wf_client by unfold_locales (simp_all add: wf_client_def)

end
