(* ===== verification/Star_BigData.thy ===== *)
theory Star_BigData
  imports Star_Files
begin

text \<open>
  The pool of big-data buffers and the accessors of received big data and files. The pool is first
  modelled as the sequential code, with the contract that no block is ever held by two clients;
  then as the interleaved steps of several threads, because its lock is a plain flag.
\<close>

section \<open>The pool\<close>

definition STSV_BIGDATA_BUFFER :: nat where "STSV_BIGDATA_BUFFER = 1 * 1024 * 1024"
definition STSV_BIGDATA_POOL_BLOCK :: nat where "STSV_BIGDATA_POOL_BLOCK = 1"

text \<open>\<open>mem i\<close> is what \<open>malloc\<close> gives for block \<open>i\<close>, if it gives anything.\<close>

definition initBigDataMemory :: "(nat \<Rightarrow> u8 list option) \<Rightarrow> server \<Rightarrow> int \<times> server" where
  "initBigDataMemory mem s =
     (let got = first_free (\<lambda>i. mem i = None) 0 STSV_BIGDATA_POOL_BLOCK;
          k = (if got = -1 then STSV_BIGDATA_POOL_BLOCK else nat got);
          s' = s\<lparr>s_BigDataBuffer := map mem [0..<k] @ drop k (s_BigDataBuffer s),
                 s_BigDataUse := replicate k False @ drop k (s_BigDataUse s)\<rparr> in
      if got = -1 then (0, s'\<lparr>s_bBigDataLock := False\<rparr>)
      else (-1, s'\<lparr>s_BigDataBuffer := (s_BigDataBuffer s')[k := None]\<rparr>))"

definition free_block :: "server \<Rightarrow> int" where
  "free_block s = first_free (\<lambda>i. \<not> s_BigDataUse s ! i) 0 STSV_BIGDATA_POOL_BLOCK"

text \<open>The lock is waited for in an empty loop; alone, a thread that finds it set waits for ever.\<close>

definition GetBigDataBufferIdx :: "server \<Rightarrow> (int \<times> server) result" where
  "GetBigDataBufferIdx s =
     (if s_bBigDataLock s then Inl Blocked
      else if free_block s = -1 then Inr (-1, s)
      else Inr (free_block s, s\<lparr>s_BigDataUse := (s_BigDataUse s)[nat (free_block s) := True]\<rparr>))"

definition FreeBigDataBuffer :: "server \<Rightarrow> int \<Rightarrow> server result" where
  "FreeBigDataBuffer s buffidx =
     bindR (get_at (s_BigDataUse s) buffidx) (\<lambda>u.
       if u = False then Inr s
       else bindR (set_at (s_BigDataUse s) buffidx False) (\<lambda>us. Inr (s\<lparr>s_BigDataUse := us\<rparr>)))"

section \<open>The accessors\<close>

definition STSV_HaveBigData :: "server \<Rightarrow> nat \<Rightarrow> bool result" where
  "STSV_HaveBigData s i = bindR (client_at s i) (\<lambda>c. Inr (bigDataReady c))"

text \<open>The result is a pointer to a block of the pool, or \<open>NULL\<close>.\<close>

definition STSV_GetBigData :: "server \<Rightarrow> nat \<Rightarrow> (nat option \<times> server) result" where
  "STSV_GetBigData s i =
     bindR (client_at s i) (\<lambda>c.
       if \<not> bigDataReady c then Inr (None, s)
       else bindR (GetBigDataBufferIdx s) (\<lambda>(buffIdx, s).
         if buffIdx = -1 then Inr (None, s)
         else
           (let k = nat buffIdx; s = put_client s i (c\<lparr>bigDataBuffer := Some k\<rparr>) in
            case files s (bigData_tmp i) of
              None \<Rightarrow> Inr (None, s)
            | Some content \<Rightarrow>
                bindR (get_at (s_BigDataBuffer s) (int k)) (\<lambda>p. case p of
                  None \<Rightarrow> Inl NullDeref
                | Some mem \<Rightarrow>
                    bindR (store mem 0 (fread_at content 0 (unat (bigDataReadSize c)))) (\<lambda>mem'.
                      Inr (Some k, s\<lparr>s_BigDataBuffer := (s_BigDataBuffer s)[k := Some mem']\<rparr>))))))"

definition STSV_FreeBigData :: "server \<Rightarrow> nat \<Rightarrow> server result" where
  "STSV_FreeBigData s i =
     bindR (client_at s i) (\<lambda>c.
     bindR (case bigDataBuffer c of
         None \<Rightarrow> Inr s
       | Some k \<Rightarrow> if k < STSV_BIGDATA_POOL_BLOCK then FreeBigDataBuffer s (int k) else Inr s) (\<lambda>s.
       Inr (put_client s i (c\<lparr>bigDataBuffer := None, bigDataReady := False\<rparr>))))"

definition STSV_GetFileDataName :: "server \<Rightarrow> nat \<Rightarrow> u8 list result" where
  "STSV_GetFileDataName s i = bindR (client_at s i) (\<lambda>c. Inr (fileDataName c))"

definition STSV_HaveFileData :: "server \<Rightarrow> nat \<Rightarrow> bool result" where
  "STSV_HaveFileData s i = bindR (client_at s i) (\<lambda>c. Inr (fileDataReady c))"

definition STSV_FreeFileData :: "server \<Rightarrow> nat \<Rightarrow> server result" where
  "STSV_FreeFileData s i = on_client s i (\<lambda>c. Inr (c\<lparr>fileDataReady := False\<rparr>))"

interpretation pool: slot_search "\<lambda>_. STSV_BIGDATA_POOL_BLOCK" "\<lambda>s i. \<not> s_BigDataUse s ! i" free_block
  by unfold_locales (simp add: free_block_def)

section \<open>No block has two holders\<close>

definition holds_block :: "server \<Rightarrow> nat \<Rightarrow> nat \<Rightarrow> bool" where
  "holds_block s i k \<longleftrightarrow> i < length (s_Client_t s) \<and> bigDataBuffer (s_Client_t s ! i) = Some k"

definition pool_inv :: "server \<Rightarrow> bool" where
  "pool_inv s \<longleftrightarrow> length (s_BigDataUse s) = STSV_BIGDATA_POOL_BLOCK \<and>
     (\<forall>i k. holds_block s i k \<longrightarrow> k < STSV_BIGDATA_POOL_BLOCK \<and> s_BigDataUse s ! k) \<and>
     (\<forall>i j k. holds_block s i k \<longrightarrow> holds_block s j k \<longrightarrow> i = j)"

lemma holds_put:
  "holds_block (put_client s i c) j k \<longleftrightarrow>
     (if j = i then i < length (s_Client_t s) \<and> bigDataBuffer c = Some k else holds_block s j k)"
  by (auto simp: holds_block_def put_client_def nth_list_update)

lemma GetBigDataBufferIdx_block:
  assumes "pool_inv s" and "GetBigDataBufferIdx s = Inr (b, s')"
  shows "(b = -1 \<and> s' = s) \<or> (\<exists>k. b = int k \<and> k < STSV_BIGDATA_POOL_BLOCK \<and> \<not> s_BigDataUse s ! k \<and>
    s' = s\<lparr>s_BigDataUse := (s_BigDataUse s)[k := True]\<rparr>)"
proof (cases "free_block s = -1")
  case True
  with assms(2) show ?thesis by (simp add: GetBigDataBufferIdx_def split: if_splits)
next
  case False
  then obtain k where k: "free_block s = int k" using pool.found_range [of s] by blast
  from pool.found_free [OF k] assms(2) k show ?thesis
    by (intro disjI2 exI [of _ k]) (auto simp: GetBigDataBufferIdx_def split: if_splits)
qed

lemma GetBigData_inv:
  assumes inv: "pool_inv s" and c: "client_at s i = Inr c"
    and run: "STSV_GetBigData s i = Inr (p, s')"
  shows "pool_inv s'"
proof (cases "bigDataReady c")
  case False
  with c run inv show ?thesis by (simp add: STSV_GetBigData_def)
next
  case True
  with c run obtain b s1 where g: "GetBigDataBufferIdx s = Inr (b, s1)"
    by (auto simp: STSV_GetBigData_def bindR_Inr_iff)
  from GetBigDataBufferIdx_block [OF inv g] show ?thesis
  proof
    assume "b = -1 \<and> s1 = s"
    with c run True g inv show ?thesis by (simp add: STSV_GetBigData_def)
  next
    assume "\<exists>k. b = int k \<and> k < STSV_BIGDATA_POOL_BLOCK \<and> \<not> s_BigDataUse s ! k \<and>
      s1 = s\<lparr>s_BigDataUse := (s_BigDataUse s)[k := True]\<rparr>"
    then obtain k where k: "b = int k" "k < STSV_BIGDATA_POOL_BLOCK" "\<not> s_BigDataUse s ! k"
      "s1 = s\<lparr>s_BigDataUse := (s_BigDataUse s)[k := True]\<rparr>" by blast
    let ?s2 = "put_client s1 i (c\<lparr>bigDataBuffer := Some k\<rparr>)"
    have free: "\<not> holds_block s j k" for j using inv k(3) by (auto simp: pool_inv_def)
    have h1: "holds_block s1 j m = holds_block s j m" for j m by (simp add: k(4) holds_block_def)
    have u2: "s_BigDataUse ?s2 = (s_BigDataUse s)[k := True]" by (simp add: k(4))
    have inv2: "pool_inv ?s2"
      unfolding pool_inv_def u2 holds_put h1
      using inv k(2) free by (auto simp: pool_inv_def nth_list_update split: if_splits)
    have "s' = ?s2 \<or> (\<exists>m. s' = ?s2\<lparr>s_BigDataBuffer := m\<rparr>)"
      using c run True g k(1)
      by (auto simp: STSV_GetBigData_def bindR_Inr_iff Let_def split: option.splits)
    moreover have "pool_inv (?s2\<lparr>s_BigDataBuffer := m\<rparr>)" for m
      using inv2 by (simp add: pool_inv_def holds_block_def)
    ultimately show ?thesis using inv2 by auto
  qed
qed

lemma FreeBigData_inv:
  assumes inv: "pool_inv s" and run: "STSV_FreeBigData s i = Inr s'"
  shows "pool_inv s' \<and> (\<forall>k. \<not> holds_block s' i k)"
proof -
  obtain c where c: "client_at s i = Inr c" using run by (auto simp: STSV_FreeBigData_def bindR_Inr_iff)
  then have i: "i < length (s_Client_t s)" "c = s_Client_t s ! i" by (simp_all add: client_at_Inr_iff)
  let ?c = "c\<lparr>bigDataBuffer := None, bigDataReady := False\<rparr>"
  show ?thesis
  proof (cases "bigDataBuffer c")
    case None
    then have s': "s' = put_client s i ?c" using run c by (simp add: STSV_FreeBigData_def)
    show ?thesis using inv unfolding s' pool_inv_def holds_put by (auto split: if_splits)
  next
    case (Some k)
    then have h: "holds_block s i k" using i by (simp add: holds_block_def)
    then have k: "k < STSV_BIGDATA_POOL_BLOCK" "s_BigDataUse s ! k" "length (s_BigDataUse s) = STSV_BIGDATA_POOL_BLOCK"
      using inv by (auto simp: pool_inv_def)
    let ?s1 = "s\<lparr>s_BigDataUse := (s_BigDataUse s)[k := False]\<rparr>"
    have s': "s' = put_client ?s1 i ?c"
      using run c Some k by (simp add: STSV_FreeBigData_def FreeBigDataBuffer_def mem_simps)
    have h1: "holds_block ?s1 j m = holds_block s j m" for j m by (simp add: holds_block_def)
    have others: "j \<noteq> i \<Longrightarrow> holds_block s j m \<Longrightarrow> m \<noteq> k" for j m
      using inv h by (auto simp: pool_inv_def)
    show ?thesis
      unfolding s' pool_inv_def holds_put h1
      using inv others k by (auto simp: pool_inv_def nth_list_update split: if_splits)
  qed
qed

text \<open>The calls of all clients, in any order.\<close>

inductive pool_steps :: "server \<Rightarrow> server \<Rightarrow> bool" where
  pool_refl: "pool_steps s s"
| pool_get: "pool_steps s s' \<Longrightarrow> STSV_GetBigData s' i = Inr (p, s'') \<Longrightarrow> pool_steps s s''"
| pool_free: "pool_steps s s' \<Longrightarrow> STSV_FreeBigData s' i = Inr s'' \<Longrightarrow> pool_steps s s''"

lemma pool_steps_inv: "pool_steps s s' \<Longrightarrow> pool_inv s \<Longrightarrow> pool_inv s'"
proof (induction rule: pool_steps.induct)
  case (pool_get s s' i p s'')
  then obtain c where "client_at s' i = Inr c" by (auto simp: STSV_GetBigData_def bindR_Inr_iff)
  with pool_get show ?case using GetBigData_inv by blast
next
  case (pool_free s s' i s'')
  then show ?case using FreeBigData_inv by blast
qed simp

text \<open>C27: Whatever the clients do with \<open>STSV_GetBigData\<close> and \<open>STSV_FreeBigData\<close>, one call after the
other, no block of the pool is ever held by two of them, and a held block is marked as used.\<close>

theorem pool_blocks_exclusive:
  assumes "pool_steps s s'" and "length (s_BigDataUse s) = STSV_BIGDATA_POOL_BLOCK"
    and "\<forall>c \<in> set (s_Client_t s). bigDataBuffer c = None"
    and "i < length (s_Client_t s')" and "bigDataBuffer (s_Client_t s' ! i) = Some k"
  shows "s_BigDataUse s' ! k \<and>
    (\<forall>j < length (s_Client_t s'). bigDataBuffer (s_Client_t s' ! j) = Some k \<longrightarrow> j = i)"
proof -
  have "\<not> holds_block s i k" for i k using assms(3) by (force simp: holds_block_def)
  then have "pool_inv s" using assms(2) by (simp add: pool_inv_def)
  with assms(1) have "pool_inv s'" by (rule pool_steps_inv)
  with assms(4,5) show ?thesis by (auto simp: pool_inv_def holds_block_def)
qed

text \<open>A client with received big data, for the witnesses.\<close>

definition big_server :: server where
  "big_server = (fresh_server [(fresh_client 64)\<lparr>bigDataReady := True, bigDataReadSize := 2\<rparr>, fresh_client 64])
     \<lparr>files := [bigData_tmp 0 \<mapsto> [7, 8]], s_BigDataBuffer := [Some (replicate 4 0)]\<rparr>"

lemma big_server_get:
  "\<exists>s'. STSV_GetBigData big_server 0 = Inr (Some 0, s') \<and> length (s_Client_t s') = 2 \<and>
     bigDataBuffer (s_Client_t s' ! 0) = Some 0 \<and> s_BigDataBuffer s' = [Some [7, 8, 0, 0]]"
  by (simp add: STSV_GetBigData_def client_at_def GetBigDataBufferIdx_def free_block_def get_at_def
      STSV_BIGDATA_POOL_BLOCK_def big_server_def fresh_server_def fresh_client_def init_sendBufferMSG_def
      put_client_def fread_at_def store_def Let_def, simp add: numeral_2_eq_2)

theorem pool_blocks_exclusive_witness:
  "\<exists>s'. pool_steps big_server s' \<and> bigDataBuffer (s_Client_t s' ! 0) = Some 0 \<and> s_BigDataUse s' ! 0 \<and>
     \<not> bigDataBuffer (s_Client_t s' ! 1) = Some 0"
proof -
  obtain s' where s': "STSV_GetBigData big_server 0 = Inr (Some 0, s')" "length (s_Client_t s') = 2"
    "bigDataBuffer (s_Client_t s' ! 0) = Some 0" using big_server_get by blast
  then have st: "pool_steps big_server s'" by (blast intro: pool_steps.intros)
  have r: "s_BigDataUse s' ! 0 \<and>
    (\<forall>j < length (s_Client_t s'). bigDataBuffer (s_Client_t s' ! j) = Some 0 \<longrightarrow> j = 0)"
    by (rule pool_blocks_exclusive [OF st])
      (use s' in \<open>simp_all add: big_server_def fresh_server_def fresh_client_def init_sendBufferMSG_def
         STSV_BIGDATA_POOL_BLOCK_def\<close>)
  moreover have "1 < length (s_Client_t s')" using s'(2) by simp
  ultimately have "bigDataBuffer (s_Client_t s' ! 1) \<noteq> Some 0" by (metis zero_neq_one)
  with st s' r show ?thesis by blast
qed

section \<open>The lock is a plain flag\<close>

text \<open>
  \<open>GetBigDataBufferIdx\<close> statement by statement, in several threads at once: testing
  \<open>s_bBigDataLock\<close>, setting it, testing \<open>s_BigDataUse [i]\<close> and setting it are separate accesses.
  The result of a thread is the index in \<open>Got\<close>.
\<close>

datatype pc = Waiting | Locking | Testing nat | Taking nat | Unlocking int | Got int

record pool_state =
  lock_flag :: bool
  use_flags :: "bool list"
  pcs :: "nat \<Rightarrow> pc"

inductive pool_step :: "pool_state \<Rightarrow> pool_state \<Rightarrow> bool" where
  leave_wait: "pcs g t = Waiting \<Longrightarrow> \<not> lock_flag g \<Longrightarrow> pool_step g (g\<lparr>pcs := (pcs g)(t := Locking)\<rparr>)"
| set_lock: "pcs g t = Locking \<Longrightarrow>
    pool_step g (g\<lparr>lock_flag := True, pcs := (pcs g)(t := Testing 0)\<rparr>)"
| find_used: "pcs g t = Testing i \<Longrightarrow> i < STSV_BIGDATA_POOL_BLOCK \<Longrightarrow> use_flags g ! i \<Longrightarrow>
    pool_step g (g\<lparr>pcs := (pcs g)(t := Testing (Suc i))\<rparr>)"
| find_free: "pcs g t = Testing i \<Longrightarrow> i < STSV_BIGDATA_POOL_BLOCK \<Longrightarrow> \<not> use_flags g ! i \<Longrightarrow>
    pool_step g (g\<lparr>pcs := (pcs g)(t := Taking i)\<rparr>)"
| find_none: "pcs g t = Testing i \<Longrightarrow> \<not> i < STSV_BIGDATA_POOL_BLOCK \<Longrightarrow>
    pool_step g (g\<lparr>pcs := (pcs g)(t := Unlocking (-1))\<rparr>)"
| take_block: "pcs g t = Taking i \<Longrightarrow>
    pool_step g (g\<lparr>use_flags := (use_flags g)[i := True], pcs := (pcs g)(t := Unlocking (int i))\<rparr>)"
| unlock: "pcs g t = Unlocking r \<Longrightarrow>
    pool_step g (g\<lparr>lock_flag := False, pcs := (pcs g)(t := Got r)\<rparr>)"

definition pool_start :: pool_state where
  "pool_start = \<lparr>lock_flag = False, use_flags = [False], pcs = (\<lambda>_. Waiting)\<rparr>"

lemma two_waiters_get_block_0:
  "\<exists>g. pool_step\<^sup>*\<^sup>* pool_start g \<and> pcs g 0 = Got 0 \<and> pcs g 1 = Got 0"
proof -
  define P where "P a b l u = \<lparr>lock_flag = l, use_flags = [u], pcs = (\<lambda>_. Waiting)(0 := a, 1 := b)\<rparr>" for a b l u
  note d = P_def STSV_BIGDATA_POOL_BLOCK_def
  have "pool_start = P Waiting Waiting False False" by (simp add: P_def pool_start_def fun_eq_iff)
  moreover have "pool_step (P Waiting Waiting False False) (P Locking Waiting False False)"
    using leave_wait [of "P Waiting Waiting False False" 0] by (simp add: d fun_upd_twist)
  moreover have "pool_step (P Locking Waiting False False) (P Locking Locking False False)"
    using leave_wait [of "P Locking Waiting False False" 1] by (simp add: d)
  moreover have "pool_step (P Locking Locking False False) (P (Testing 0) Locking True False)"
    using set_lock [of "P Locking Locking False False" 0] by (simp add: d fun_upd_twist)
  moreover have "pool_step (P (Testing 0) Locking True False) (P (Testing 0) (Testing 0) True False)"
    using set_lock [of "P (Testing 0) Locking True False" 1] by (simp add: d)
  moreover have "pool_step (P (Testing 0) (Testing 0) True False) (P (Taking 0) (Testing 0) True False)"
    using find_free [of "P (Testing 0) (Testing 0) True False" 0] by (simp add: d fun_upd_twist)
  moreover have "pool_step (P (Taking 0) (Testing 0) True False) (P (Taking 0) (Taking 0) True False)"
    using find_free [of "P (Taking 0) (Testing 0) True False" 1] by (simp add: d)
  moreover have "pool_step (P (Taking 0) (Taking 0) True False) (P (Unlocking 0) (Taking 0) True True)"
    using take_block [of "P (Taking 0) (Taking 0) True False" 0] by (simp add: d fun_upd_twist)
  moreover have "pool_step (P (Unlocking 0) (Taking 0) True True) (P (Unlocking 0) (Unlocking 0) True True)"
    using take_block [of "P (Unlocking 0) (Taking 0) True True" 1] by (simp add: d)
  moreover have "pool_step (P (Unlocking 0) (Unlocking 0) True True) (P (Got 0) (Unlocking 0) False True)"
    using unlock [of "P (Unlocking 0) (Unlocking 0) True True" 0] by (simp add: d fun_upd_twist)
  moreover have "pool_step (P (Got 0) (Unlocking 0) False True) (P (Got 0) (Got 0) False True)"
    using unlock [of "P (Got 0) (Unlocking 0) False True" 1] by (simp add: d)
  ultimately have "pool_step\<^sup>*\<^sup>* pool_start (P (Got 0) (Got 0) False True)"
    by (auto intro: converse_rtranclp_into_rtranclp)
  then show ?thesis by (auto simp: P_def)
qed

text \<open>C39: The flag does not lock: two threads that call \<open>GetBigDataBufferIdx\<close> at the same time can both
leave the waiting loop before either sets the flag, and both return block 0.\<close>

theorem pool_lock_race:
  "\<exists>g. pool_step\<^sup>*\<^sup>* pool_start g \<and> pcs g 0 = Got 0 \<and> pcs g 1 = Got 0"
  by (rule two_waiters_get_block_0)

end
