(* ===== verification/Star_Protocol.thy ===== *)
theory Star_Protocol
  imports Star_Views
begin

text \<open>
  The protocol: \<open>processMessageBuffer\<close>, one handler per message type, and \<open>EndPackSendData\<close>. Each
  handler takes the whole server and the index of the client and returns the code's result with
  the new state.
\<close>

unbundle bit_operations_syntax

section \<open>Registration\<close>

text \<open>
  The answer to a registration, the value of \<open>fromID\<close> when it is sent: each check overwrites the
  ones before. \<open>s_nCurLoginCount\<close> is unsigned, so \<open>s_nMaxConnection - 10\<close> is compared as unsigned.
\<close>

definition older_than :: "StarVersion \<Rightarrow> StarVersion \<Rightarrow> bool" where
  "older_than v support \<longleftrightarrow>
     (if major v < major support then True
      else if minor v < minor support then True
      else if revision v < revision support then True else False)"

definition server_full :: "server \<Rightarrow> bool" where
  "server_full s \<longleftrightarrow> word_of_int (s_nMaxConnection (cfg s) - 10) \<le> s_nCurLoginCount s"

definition register_reply :: "server \<Rightarrow> StarVersion \<Rightarrow> StarVersion \<Rightarrow> s16" where
  "register_reply s engineVersion clientVersion =
     (let r = (if s_nServerType (cfg s) = STSV_ONETIME_CONNECTION then STSOCKMSG_REGIS_OK_SECTION
               else STSOCKMSG_REGIS_OK_ALWAY);
          r = (if older_than engineVersion (engineSupport s) then STSOCKMSG_OLD_VERSION else r);
          r = (if older_than clientVersion (clientSupport s) then STSOCKMSG_CLIENT_WRONG else r)
      in if server_full s then STSOCKMSG_SERVER_FULL else r)"

text \<open>Only \<open>type\<close> and \<open>fromID\<close> of the answer are set; the rest is what the send buffer held.\<close>

definition processRegister :: "server \<Rightarrow> nat \<Rightarrow> (int \<times> server) result" where
  "processRegister s i =
     bindR (client_at s i) (\<lambda>c.
     bindR (msg_size (recvBuffer c)) (\<lambda>sz.
     bindR (ReadFrom_client s i sizeof_DATASIZE (size_t_of sz) True) (\<lambda>(readSize, s).
       if readSize \<noteq> 24 then bindR (go_offline s i) (\<lambda>s. Inr (-1, s))
       else
         bindR (client_at s i) (\<lambda>c.
         bindR (rd_version (recvBuffer c) sizeof_DATASIZE) (\<lambda>engineVersion.
         bindR (rd_version (recvBuffer c) (sizeof_DATASIZE + 12)) (\<lambda>clientVersion.
         bindR (wr16 (sendBuffer c) 2 (register_reply s engineVersion clientVersion)) (\<lambda>b.
         bindR (wr16 b 0 STSOCKMSG_REGISTER) (\<lambda>b.
         bindR (load b 0 sizeof_DATASIZE) (\<lambda>msg.
         bindR (WriteTo_client (put_client s i (c\<lparr>sendBuffer := b, sendDataSize := sizeof_DATASIZE\<rparr>)) i msg)
           (\<lambda>(sendSize, s).
         bindR (if sendSize = 0 then go_offline s i else Inr s) (\<lambda>s. Inr (-1, s))))))))))))"

section \<open>Retransmission\<close>

text \<open>The peer asks for the last packet again: it is still in the send buffer.\<close>

definition processRetrasmit :: "server \<Rightarrow> nat \<Rightarrow> (int \<times> server) result" where
  "processRetrasmit s i =
     bindR (client_at s i) (\<lambda>c.
     bindR (load (sendBuffer c) 0 (sendDataSize c)) (\<lambda>msg.
     bindR (WriteTo_client s i msg) (\<lambda>(sendSize, s).
     bindR (if sendSize = 0 then go_offline s i else Inr s) (\<lambda>s. Inr (-1, s)))))"

section \<open>Data\<close>

text \<open>The packet is complete and its checksum is right: take its parts and accept it.\<close>

definition acceptData :: "server \<Rightarrow> nat \<Rightarrow> s16 \<Rightarrow> s32 \<Rightarrow> (int \<times> server) result" where
  "acceptData s i ty packNo =
     bindR (if ty AND STSOCKMSG_PACKDATASIZE \<noteq> 0 then on_client s i processMessagePacket else Inr s) (\<lambda>s.
     bindR (if ty AND STSOCKMSG_BIGDATA \<noteq> 0 then ProessMessageBigData s i else Inr (0, s)) (\<lambda>(ret, s).
     if ret \<noteq> 0 then Inr (ret, s)
     else
     bindR (if ty AND STSOCKMSG_FILEDATA \<noteq> 0 then ProessMessageFileData s i else Inr (0, s)) (\<lambda>(ret, s).
     if ret \<noteq> 0 then Inr (ret, s)
     else bindR (on_client s i (\<lambda>c. Inr (c\<lparr>packRef := packNo\<rparr>))) (\<lambda>s. Inr (0, s)))))"

text \<open>The checks on what has been read, in the order of the code.\<close>

definition checkData :: "server \<Rightarrow> nat \<Rightarrow> s16 \<Rightarrow> s32 \<Rightarrow> int \<Rightarrow> (int \<times> server) result" where
  "checkData s i ty sz readSize =
     bindR (client_at s i) (\<lambda>c.
     bindR (msg_packNo (recvBuffer c)) (\<lambda>packNo.
       if packNo \<le> packRef c then Inr (-1, s)
       else if s_nServerType (cfg s) = STSV_ONETIME_CONNECTION \<and> sendDone c \<and>
           ty AND STSOCKMSG_BIGDATA = 0 \<and> ty AND STSOCKMSG_FILEDATA = 0
         then bindR (go_offline s i) (\<lambda>s. Inr (-1, s))
       else if readSize \<noteq> sint sz
         then bindR (SendReTrasmit s (unat (idx c)) packNo) (\<lambda>s. Inr (-1, s))
       else
         bindR (STOS_CRC16 (crcTable s) (recvBuffer c) sizeof_PACKDATASIZE (ucast (sz - 4))) (\<lambda>crc16.
         bindR (rd16 (recvBuffer c) sizeof_DATASIZE) (\<lambda>dataCRC16.
           if crc16 \<noteq> dataCRC16
           then bindR (SendReTrasmit s (unat (idx c)) packNo) (\<lambda>s. Inr (-1, s))
           else acceptData s i ty packNo))))"

definition processData :: "server \<Rightarrow> nat \<Rightarrow> s16 \<Rightarrow> (int \<times> server) result" where
  "processData s i ty =
     bindR (client_at s i) (\<lambda>c.
     bindR (msg_fromID (recvBuffer c)) (\<lambda>fromID.
       if sint fromID < 0 \<or> s_nMaxConnection (cfg s) \<le> sint fromID
       then bindR (go_offline s i) (\<lambda>s. Inr (-1, s))
       else if ty AND STSOCKMSG_ALLDATA = 0 then Inr (-1, s)
       else
         bindR (msg_size (recvBuffer c)) (\<lambda>sz.
           if sint sz < 0 \<or> STSV_MAX_BUFFER < sint sz
           then bindR (go_offline s i) (\<lambda>s. Inr (-1, s))
           else
             bindR (ReadFrom_client s i sizeof_DATASIZE (size_t_of sz) False) (\<lambda>(readSize, s).
               checkData s i ty sz readSize))))"

section \<open>One message\<close>

definition processMessageBuffer :: "server \<Rightarrow> nat \<Rightarrow> (int \<times> server) result" where
  "processMessageBuffer s i =
     bindR (on_client s i (\<lambda>c. Inr (c\<lparr>recvCount := 0\<rparr>))) (\<lambda>s.
     bindR (ReadFrom_client s i 0 sizeof_DATASIZE False) (\<lambda>(readSize, s).
       if readSize = 0 then bindR (go_offline s i) (\<lambda>s. Inr (-1, s))
       else
         bindR (client_at s i) (\<lambda>c.
         bindR (msg_type (recvBuffer c)) (\<lambda>ty.
           if ty = STSOCKMSG_REGISTER then processRegister s i
           else if ty = STSOCKMSG_RETRASMIT then processRetrasmit s i
           else if ty = STSOCKMSG_PING then Inr (-1, s)
           else processData s i ty))))"

section \<open>Answering\<close>

definition StartPackSendData :: "server \<Rightarrow> nat \<Rightarrow> server result" where
  "StartPackSendData s i = on_client s i (\<lambda>c. Inr (c\<lparr>streamSize := 0\<rparr>))"

text \<open>Packing what is queued: the client with the packet in its send buffer and its size.\<close>

definition packForSending :: "server \<Rightarrow> Client_t \<Rightarrow> Client_t result" where
  "packForSending s c =
     bindR (PackDataWithPacket c) (\<lambda>c.
     bindR (if fileDataSending c then PackDataWithBigData s c else Inr c) (\<lambda>c.
     bindR (PackDataWithCRC16 (crcTable s) c) (\<lambda>c.
     bindR (msg_size (sendBuffer c)) (\<lambda>sizeAll.
     bindR (wr32 (sendBuffer c) 4 (packRef c)) (\<lambda>b.
       Inr (c\<lparr>sendBuffer := b, sendDataSize := nat ((sint sizeAll + 12) mod 2 ^ 64)\<rparr>))))))"

definition EndPackSendData :: "server \<Rightarrow> nat \<Rightarrow> server result" where
  "EndPackSendData s i =
     bindR (client_at s i) (\<lambda>c.
       if 0 < sendCount c \<or> fileDataSending c then
         bindR (on_client s i lock_client) (\<lambda>s.
         bindR (client_at s i) (\<lambda>c.
         bindR (packForSending s c) (\<lambda>c.
         bindR (load (sendBuffer c) 0 (sendDataSize c)) (\<lambda>msg.
         bindR (WriteTo_client (put_client s i c) i msg) (\<lambda>(sendsize, s).
         bindR (if sendsize = 0 then go_offline s i else Inr s) (\<lambda>s.
           on_client s i (\<lambda>c. Inr (unlock_client
             (c\<lparr>recvCount := 0, sendCount := 0, curPacketNo := 0\<rparr>)))))))))
       else
         bindR (SendConfirmMessage s (unat (idx c)) (packRef c)) (\<lambda>s.
           if s_nServerType (cfg s) = STSV_ONETIME_CONNECTION
           then on_client s i (\<lambda>c. Inr (c\<lparr>sendDone := True\<rparr>)) else Inr s))"

section \<open>Versions\<close>

lemma older_than_iff:
  "older_than v w \<longleftrightarrow> major v < major w \<or> minor v < minor w \<or> revision v < revision w"
  by (auto simp: older_than_def)

text \<open>C30: A registration is answered with \<open>OK\<close> exactly when the server has room and each component of both
versions, on its own, is at least that of the supported version.\<close>

theorem register_ok_iff:
  "register_reply s engine client \<in> {STSOCKMSG_REGIS_OK_ALWAY, STSOCKMSG_REGIS_OK_SECTION} \<longleftrightarrow>
     s_nCurLoginCount s < word_of_int (s_nMaxConnection (cfg s) - 10) \<and>
     major (engineSupport s) \<le> major engine \<and> minor (engineSupport s) \<le> minor engine \<and>
     revision (engineSupport s) \<le> revision engine \<and>
     major (clientSupport s) \<le> major client \<and> minor (clientSupport s) \<le> minor client \<and>
     revision (clientSupport s) \<le> revision client"
  by (auto simp: register_reply_def Let_def server_full_def older_than_iff reply_defs not_le not_less)

text \<open>So \<open>OK\<close> is not what the versions' order says: the supported engine version 2.86.0 is older
than 3.0.0 in that order, and yet every client with an engine 3.0.0 is refused. A client whose server
has room and is told \<open>OLD_VERSION\<close> may be newer than the server asks for.\<close>

lemma newer_version_refused:
  "default_engineSupport < StarVersion 3 0 0 \<and>
   register_reply (s\<lparr>engineSupport := default_engineSupport\<rparr>) (StarVersion 3 0 0) client
     \<notin> {STSOCKMSG_REGIS_OK_ALWAY, STSOCKMSG_REGIS_OK_SECTION}"
  by (auto simp: register_reply_def Let_def older_than_iff reply_defs default_engineSupport_def
      less_eq_StarVersion_def less_StarVersion_def split: if_splits)

section \<open>Packet references\<close>

abbreviation refs :: "server \<Rightarrow> u32 list" where
  "refs \<equiv> views packRef"

lemma refs_go_offline: "go_offline s i = Inr s' \<Longrightarrow> refs s' = refs s"
  unfolding go_offline_def by (rule views_on_client) auto

lemma refs_WriteTo: "WriteTo_client s i b = Inr (r, s') \<Longrightarrow> refs s' = refs s"
  by (auto simp: WriteTo_client_def bindR_Inr_iff)

lemma refs_ReadFrom: "ReadFrom_client s i off n nb = Inr (r, s') \<Longrightarrow> refs s' = refs s"
proof -
  assume "ReadFrom_client s i off n nb = Inr (r, s')"
  then obtain c b k where c: "client_at s i = Inr c"
    and s': "s' = put_client (s\<lparr>net := (net s)(socket c := k)\<rparr>) i (c\<lparr>recvBuffer := b\<rparr>)"
    by (auto simp: ReadFrom_client_def bindR_Inr_iff)
  have "client_at (s\<lparr>net := (net s)(socket c := k)\<rparr>) i = Inr c" using c by simp
  from views_put_same [OF this, of packRef] show ?thesis by (simp add: s')
qed

lemma refs_send_header: "send_header s i ty no = Inr s' \<Longrightarrow> refs s' = refs s"
  by (auto simp: send_header_def bindR_Inr_iff split: if_splits dest!: refs_WriteTo refs_go_offline)

lemma refs_SendReTrasmit: "SendReTrasmit s i no = Inr s' \<Longrightarrow> refs s' = refs s"
  unfolding SendReTrasmit_def by (rule refs_send_header)

text \<open>What a handler does to the packet references: nothing, unless it accepts a newer packet.\<close>

definition refs_step :: "server \<Rightarrow> nat \<Rightarrow> int \<times> server \<Rightarrow> bool" where
  "refs_step s i = (\<lambda>(r, s').
     if r = 0 then i < length (refs s) \<and> (\<exists>n. refs s ! i < n \<and> refs s' = (refs s)[i := n])
     else refs s' = refs s)"

lemma refs_step_same: "r \<noteq> 0 \<Longrightarrow> refs s' = refs s \<Longrightarrow> refs_step s i (r, s')"
  by (simp add: refs_step_def)

lemma refs_step_from: "refs s1 = refs s \<Longrightarrow> refs_step s1 i x \<Longrightarrow> refs_step s i x"
  by (cases x) (auto simp: refs_step_def split: if_splits)

lemma refs_step_bind:
  "(\<And>x. m = Inr x \<Longrightarrow> refs (g x) = refs s \<and> ensures (f x) (refs_step (g x) i)) \<Longrightarrow>
    ensures (bindR m f) (refs_step s i)"
  by (auto simp: ensures_def bindR_Inr_iff intro: refs_step_from)

lemma refs_acceptData:
  assumes "client_at s i = Inr c" and "packRef c < packNo"
  shows "ensures (acceptData s i ty packNo) (refs_step s i)"
proof -
  have i: "i < length (refs s)" "refs s ! i < packNo"
    using assms by (auto simp: client_at_Inr_iff views_def)
  have take: "refs s1 = refs s \<Longrightarrow> on_client s1 i (\<lambda>c. Inr (c\<lparr>packRef := packNo\<rparr>)) = Inr s2 \<Longrightarrow>
      refs_step s i (0, s2)" for s1 s2
  proof -
    assume r: "refs s1 = refs s" and "on_client s1 i (\<lambda>c. Inr (c\<lparr>packRef := packNo\<rparr>)) = Inr s2"
    then obtain c1 where "s2 = put_client s1 i (c1\<lparr>packRef := packNo\<rparr>)" "i < length (s_Client_t s1)"
      by (auto simp: on_client_def bindR_Inr_iff client_at_Inr_iff)
    then show ?thesis using r i by (auto simp: refs_step_def views_put)
  qed
  note same = ref.kept_packet ref.kept_BigData ref.kept_FileData
  show ?thesis
    unfolding acceptData_def
    by (intro ensures_rules)
      (auto split: if_splits dest!: same intro: refs_step_same take)
qed

lemma refs_checkData: "ensures (checkData s i ty sz readSize) (refs_step s i)"
  unfolding checkData_def
  by (intro ensures_rules)
    (auto dest!: refs_go_offline refs_SendReTrasmit intro: refs_step_same refs_acceptData)

lemma refs_processData: "ensures (processData s i ty) (refs_step s i)"
proof -
  have "ReadFrom_client s i off n nb = Inr (readSize, s1) \<Longrightarrow>
      ensures (checkData s1 i ty sz readSize) (refs_step s i)" for off n nb readSize s1 sz
    using refs_checkData [of s1 i ty sz readSize] refs_ReadFrom [of s i off n nb readSize s1]
    by (auto simp: ensures_def intro: refs_step_from)
  then show ?thesis
    unfolding processData_def
    by (intro ensures_rules) (auto dest!: refs_go_offline intro: refs_step_same)
qed

lemma refs_processRegister: "ensures (processRegister s i) (refs_step s i)"
proof -
  have put: "client_at s1 i = Inr c \<Longrightarrow>
      refs (put_client s1 i (c\<lparr>sendBuffer := b, sendDataSize := n\<rparr>)) = refs s1" for s1 c b n
    by (rule views_put_same) simp_all
  show ?thesis
    unfolding processRegister_def
    by (intro ensures_rules)
      (auto simp: put split: if_splits dest!: refs_go_offline refs_ReadFrom refs_WriteTo intro: refs_step_same)
qed

lemma refs_processRetrasmit: "ensures (processRetrasmit s i) (refs_step s i)"
  unfolding processRetrasmit_def
  by (intro ensures_rules)
    (auto split: if_splits dest!: refs_go_offline refs_WriteTo intro: refs_step_same)

lemma refs_processMessageBuffer: "ensures (processMessageBuffer s i) (refs_step s i)"
proof -
  have via: "refs s1 = refs s \<Longrightarrow> ensures m (refs_step s1 i) \<Longrightarrow> ensures m (refs_step s i)" for s1 m
    by (auto simp: ensures_def intro: refs_step_from)
  have reset: "on_client s i (\<lambda>c. Inr (c\<lparr>recvCount := 0\<rparr>)) = Inr s1 \<Longrightarrow> refs s1 = refs s" for s1
    by (rule views_on_client) auto
  have all: "ensures (if ty = STSOCKMSG_REGISTER then processRegister s1 i
      else if ty = STSOCKMSG_RETRASMIT then processRetrasmit s1 i
      else if ty = STSOCKMSG_PING then Inr (-1, s1) else processData s1 i ty) (refs_step s1 i)" for s1 ty
    by (simp add: refs_processRegister refs_processRetrasmit refs_processData ensures_Inr refs_step_same)
  show ?thesis
    unfolding processMessageBuffer_def
  proof (rule ensures_bind, rule ensures_bind, rule ensures_prod, rule ensures_if)
    fix s1 p readSize s2
    assume s1: "on_client s i (\<lambda>c. Inr (c\<lparr>recvCount := 0\<rparr>)) = Inr s1"
      and p: "ReadFrom_client s1 i 0 sizeof_DATASIZE False = Inr p" "p = (readSize, s2)"
    have r: "refs s2 = refs s" using reset [OF s1] refs_ReadFrom p by simp
    show "ensures (bindR (go_offline s2 i) (\<lambda>s. Inr (-1, s))) (refs_step s i)"
      by (intro ensures_bind ensures_Inr) (auto dest!: refs_go_offline intro: refs_step_same simp: r)
    show "ensures (bindR (client_at s2 i) (\<lambda>c. bindR (msg_type (recvBuffer c)) (\<lambda>ty.
        if ty = STSOCKMSG_REGISTER then processRegister s2 i
        else if ty = STSOCKMSG_RETRASMIT then processRetrasmit s2 i
        else if ty = STSOCKMSG_PING then Inr (-1, s2) else processData s2 i ty))) (refs_step s i)"
      by (intro ensures_bind via [OF r all])
  qed
qed

text \<open>Packing touches neither the reference of the connection nor the mutex.\<close>

definition pack_keeps :: "Client_t \<Rightarrow> Client_t \<Rightarrow> bool" where
  "pack_keeps c c' \<longleftrightarrow> packRef c' = packRef c \<and> m_Mutex c' = m_Mutex c"

lemma keeps_PackDataWithPacket: "PackDataWithPacket c = Inr c' \<Longrightarrow> pack_keeps c c'"
  by (auto simp: PackDataWithPacket_def Let_def bindR_Inr_iff pack_keeps_def)

lemma keeps_BigData: "PackDataWithBigData s c = Inr c' \<Longrightarrow> pack_keeps c c'"
proof -
  have "ensures (PackDataWithBigData s c) (pack_keeps c)"
    unfolding PackDataWithBigData_def Let_def by (intro ensures_rules) (simp_all add: pack_keeps_def)
  then show "PackDataWithBigData s c = Inr c' \<Longrightarrow> pack_keeps c c'" by (rule ensuresD)
qed

lemma keeps_packForSending: "packForSending s c = Inr c' \<Longrightarrow> pack_keeps c c'"
  by (auto simp: packForSending_def PackDataWithCRC16_def bindR_Inr_iff pack_keeps_def split: if_splits
      dest!: keeps_PackDataWithPacket keeps_BigData)

lemma packRef_packForSending: "packForSending s c = Inr c' \<Longrightarrow> packRef c' = packRef c"
  using keeps_packForSending by (auto simp: pack_keeps_def)

lemma refs_EndPackSendData: "EndPackSendData s i = Inr s' \<Longrightarrow> refs s' = refs s"
proof -
  have lock: "on_client s1 i lock_client = Inr s2 \<Longrightarrow> refs s2 = refs s1" for s1 s2
    by (rule views_on_client) (auto simp: lock_client_def split: if_splits)
  have unlock: "on_client s1 i (\<lambda>c. Inr (unlock_client (c\<lparr>recvCount := 0, sendCount := 0, curPacketNo := 0\<rparr>))) = Inr s2 \<Longrightarrow>
      refs s2 = refs s1" for s1 s2
    by (rule views_on_client) (auto simp: unlock_client_def)
  have sent: "on_client s1 i (\<lambda>c. Inr (c\<lparr>sendDone := True\<rparr>)) = Inr s2 \<Longrightarrow> refs s2 = refs s1" for s1 s2
    by (rule views_on_client) auto
  have "ensures (EndPackSendData s i) (\<lambda>s'. refs s' = refs s)"
    unfolding EndPackSendData_def SendConfirmMessage_def
    by (intro ensures_rules ensuresI)
      (auto split: if_splits dest!: lock unlock sent refs_go_offline refs_WriteTo refs_send_header
        packRef_packForSending simp: views_put_same)
  then show "EndPackSendData s i = Inr s' \<Longrightarrow> refs s' = refs s" by (rule ensuresD)
qed

text \<open>
  The life of one connection: the packet numbers that \<open>processMessageBuffer\<close> accepts on client
  \<open>i\<close>, while messages are refused, answers are sent and the other clients are served.
\<close>

inductive accepts :: "server \<Rightarrow> nat \<Rightarrow> u32 list \<Rightarrow> server \<Rightarrow> bool" where
  acc_start: "accepts s i [] s"
| acc_take: "accepts s i ns s1 \<Longrightarrow> processMessageBuffer s1 i = Inr (0, s2) \<Longrightarrow> client_at s2 i = Inr c \<Longrightarrow>
    accepts s i (ns @ [packRef c]) s2"
| acc_refuse: "accepts s i ns s1 \<Longrightarrow> processMessageBuffer s1 i = Inr (r, s2) \<Longrightarrow> r \<noteq> 0 \<Longrightarrow> accepts s i ns s2"
| acc_other: "accepts s i ns s1 \<Longrightarrow> processMessageBuffer s1 j = Inr (r, s2) \<Longrightarrow> j \<noteq> i \<Longrightarrow> accepts s i ns s2"
| acc_answer: "accepts s i ns s1 \<Longrightarrow> EndPackSendData s1 j = Inr s2 \<Longrightarrow> accepts s i ns s2"

lemma sorted_le_last: "sorted_wrt (<) xs \<Longrightarrow> x \<in> set xs \<Longrightarrow> x \<le> last xs" for x :: "'a::linorder"
  by (induction xs rule: rev_induct) (auto simp: sorted_wrt_append less_imp_le)

lemma accepts_refs:
  assumes "accepts s i ns s'" and "i < length (refs s)"
  shows "length (refs s') = length (refs s) \<and> sorted_wrt (<) (refs s ! i # ns) \<and>
    refs s' ! i = last (refs s ! i # ns)"
  using assms
proof (induction rule: accepts.induct)
  case (acc_take s i ns s1 s2 c)
  then have IH: "length (refs s1) = length (refs s)" "sorted_wrt (<) (refs s ! i # ns)"
    "refs s1 ! i = last (refs s ! i # ns)" by auto
  from ensuresD [OF refs_processMessageBuffer acc_take.hyps(2)] obtain n where
    n: "refs s1 ! i < n" "refs s2 = (refs s1)[i := n]" by (auto simp: refs_step_def)
  have c: "packRef c = refs s2 ! i" using acc_take.hyps(3) by (auto simp: client_at_Inr_iff views_def)
  then have "packRef c = n" using n(2) IH(1) acc_take.prems by simp
  moreover have "x < n" if "x \<in> set (refs s ! i # ns)" for x
    using sorted_le_last [OF IH(2) that] n(1) IH(3) by simp
  ultimately show ?case using IH n(2) acc_take.prems by (auto simp: sorted_wrt_append)
next
  case (acc_refuse s i ns s1 r s2)
  then show ?case using ensuresD [OF refs_processMessageBuffer acc_refuse.hyps(2)] by (simp add: refs_step_def)
next
  case (acc_other s i ns s1 j r s2)
  then have "refs s2 ! i = refs s1 ! i \<and> length (refs s2) = length (refs s1)"
    using ensuresD [OF refs_processMessageBuffer acc_other.hyps(2)]
    by (auto simp: refs_step_def simp del: views_length split: if_splits)
  moreover have "length (refs s1) = length (refs s) \<and> sorted_wrt (<) (refs s ! i # ns) \<and>
      refs s1 ! i = last (refs s ! i # ns)"
    using acc_other by blast
  ultimately show ?case by simp
next
  case (acc_answer s i ns s1 j s2)
  then show ?case using refs_EndPackSendData by simp
qed simp

text \<open>C7: No packet is accepted twice: on one connection the numbers of the packets that
\<open>processMessageBuffer\<close> accepts are strictly increasing, whatever is refused, answered or received on
other connections in between; a packet whose number is not above the last accepted one changes
nothing but the receive side.\<close>

theorem accepted_packets_increase:
  assumes "accepts s i ns s'" and "client_at s i = Inr c"
  shows "sorted_wrt (<) (packRef c # ns) \<and> distinct ns \<and>
    (\<exists>c'. client_at s' i = Inr c' \<and> packRef c' = last (packRef c # ns))"
proof -
  have c: "i < length (refs s)" "refs s ! i = packRef c"
    using assms(2) by (auto simp: client_at_Inr_iff views_def)
  from accepts_refs [OF assms(1) c(1)] have r: "length (refs s') = length (refs s)"
    "sorted_wrt (<) (packRef c # ns)" "refs s' ! i = last (packRef c # ns)" by (simp_all add: c(2))
  have "distinct ns" using r(2) by (simp add: strict_sorted_iff)
  moreover have "i < length (s_Client_t s')" using r(1) c(1) by (simp add: views_def)
  ultimately show ?thesis using r(2,3) by (auto simp: client_at_Inr_iff views_def)
qed

section \<open>A message of a client\<close>

lemma ReadFrom_client_stream:
  assumes "client_at s i = Inr c" and "n \<le> length (stream (rx (net s (socket c))))"
    and "off + n \<le> length (recvBuffer c)"
  shows "\<exists>k b. ReadFrom_client s i off n False =
      Inr (int n, put_client (s\<lparr>net := (net s)(socket c := k)\<rparr>) i (c\<lparr>recvBuffer := b\<rparr>)) \<and>
    stream (rx k) = drop n (stream (rx (net s (socket c)))) \<and>
    store (recvBuffer c) off (take n (stream (rx (net s (socket c))))) = Inr b \<and>
    tx k = tx (net s (socket c)) \<and> sent k = sent (net s (socket c))"
proof -
  let ?k = "net s (socket c)"
  obtain evs where evs: "ReadFrom_loop (rx ?k) n [] = Inr (int n, take n (stream (rx ?k)), evs)"
    "stream evs = drop n (stream (rx ?k))"
    using ReadFrom_loop_stream [OF assms(2), of "[]"] by auto
  obtain b where b: "store (recvBuffer c) off (take n (stream (rx ?k))) = Inr b"
    using store_total [of off "take n (stream (rx ?k))" "recvBuffer c"] assms(2,3) by auto
  have "ReadFrom_client s i off n False =
      Inr (int n, put_client (s\<lparr>net := (net s)(socket c := ?k\<lparr>rx := evs\<rparr>)\<rparr>) i (c\<lparr>recvBuffer := b\<rparr>))"
    using assms(1) evs(1) b by (simp add: ReadFrom_client_def ReadFrom_def)
  with evs(2) b show ?thesis by (intro exI [of _ "?k\<lparr>rx := evs\<rparr>"] exI [of _ b]) simp
qed

text \<open>A packet as a client sends it: like the server's, with the client's number and a fresh reference.\<close>

definition client_header :: "server \<Rightarrow> Client_t \<Rightarrow> (u8 \<times> u8 list) list \<Rightarrow> STSOCKMSGDATA_PACKDATASIZE \<Rightarrow> bool" where
  "client_header s c q h \<longleftrightarrow> pk_type h = STSOCKMSG_PACKDATASIZE \<and>
     0 \<le> sint (pk_fromID h) \<and> sint (pk_fromID h) < s_nMaxConnection (cfg s) \<and>
     packRef c < pk_packNo h \<and> pk_sizeAll h = of_nat (length (packet_body q) + 4) \<and>
     pk_crc h = packet_crc q \<and> pk_numData h = of_nat (length q)"

lemma header_reads:
  assumes "load b 0 16 = Inr (PACKDATASIZE_bytes h)"
  shows "msg_type b = Inr (pk_type h)" "msg_fromID b = Inr (pk_fromID h)" "msg_packNo b = Inr (pk_packNo h)"
    "msg_size b = Inr (pk_sizeAll h)" "rd16 b 12 = Inr (pk_crc h)" "msg_numData b = Inr (pk_numData h)"
proof -
  show "msg_type b = Inr (pk_type h)" "msg_fromID b = Inr (pk_fromID h)" "rd16 b 12 = Inr (pk_crc h)"
    using load_within [OF assms, of 0 2] load_within [OF assms, of 2 2] load_within [OF assms, of 12 2]
    by (simp_all add: msg_type_def msg_fromID_def PACKDATASIZE_bytes_def c16.rd_load del: add_2_eq_Suc')
  show "msg_packNo b = Inr (pk_packNo h)"
    using load_within [OF assms, of 4 4] by (simp add: msg_packNo_def PACKDATASIZE_bytes_def c32.rd_load)
qed (rule header_size [OF assms], rule header_numData [OF assms])

lemma body_entries:
  assumes "load b 16 (length (packet_body q)) = Inr (packet_body q)"
  shows "j < length q \<Longrightarrow> rd16 b (16 + 2 * j) = Inr (entries 0 0 q ! j)"
    and "load b (16 + 2 * length q) (length (payload q)) = Inr (payload q)"
proof -
  assume "j < length q"
  then have "load b (16 + 2 * j) 2 = Inr (le16 (entries 0 0 q ! j))"
    using load_within [OF assms, of "2 * j" 2] concat_le16_nth [of j "entries 0 0 q"]
    by (simp add: packet_body_length) (simp add: packet_body_def)
  then show "rd16 b (16 + 2 * j) = Inr (entries 0 0 q ! j)" by (rule c16.rd_load)
next
  show "load b (16 + 2 * length q) (length (payload q)) = Inr (payload q)"
    using load_within [OF assms, of "2 * length q" "length (payload q)"]
    by (simp add: packet_body_length) (simp add: packet_body_def)
qed

lemma flat_body_bound:
  assumes "block_count ms \<le> 62" shows "length (packet_body (flat 0 ms)) \<le> 2 * 62 + 1024 * 62"
proof -
  have "\<And>p b. (p, b) \<in> set (flat k ms) \<Longrightarrow> length b \<le> 1024" for k
    by (induction k ms rule: flat.induct) (auto dest: chunks_size)
  then have "length (payload (flat 0 ms)) \<le> 1024 * length (flat 0 ms)" by (rule payload_bound)
  with assms show ?thesis by (simp add: packet_body_length)
qed

lemma accept_packet:
  assumes c: "client_at s i = Inr c" "recvCount c = 0" "length (recvBufferMSG c) = 64" "length (recvBufferMSGSize c) = 64"
    and ms: "[] \<notin> set ms" "block_count ms \<le> 62"
    and h: "client_header s c (flat 0 ms) h"
    and buf: "load (recvBuffer c) 0 16 = Inr (PACKDATASIZE_bytes h)"
      "load (recvBuffer c) 16 (length (packet_body (flat 0 ms))) = Inr (packet_body (flat 0 ms))"
    and env: "s_nServerType (cfg s) \<noteq> STSV_ONETIME_CONNECTION" "crcTable s = STOS_InitCRCTable t"
    and rs: "readSize = sint (pk_sizeAll h)"
  shows "\<exists>c'. checkData s i (pk_type h) (pk_sizeAll h) readSize =
      Inr (0, put_client s i (c'\<lparr>packRef := pk_packNo h\<rparr>)) \<and>
    recvCount c' = int (length ms) \<and> recv_frame (c\<lparr>recvCount := int (length ms)\<rparr>) c' \<and>
    groups_of c' (spans (16 + 2 * block_count ms) ms)"
proof -
  let ?q = "flat 0 ms"
  note reads = header_reads [OF buf(1)]
  have bound: "length (packet_body ?q) < 2 ^ 16" using flat_body_bound [OF ms(2)] by simp
  have len: "unat (of_nat (length (packet_body ?q)) :: u16) = length (packet_body ?q)"
    using bound by (simp add: unat_of_nat)
  have cut: "ucast (pk_sizeAll h - 4) = (of_nat (length (packet_body ?q)) :: u16)"
    using h by (simp add: client_header_def) (rule bit_word_eqI, simp add: bit_ucast_iff bit_of_nat_iff)
  have crc: "STOS_CRC16 (crcTable s) (recvBuffer c) 16 (of_nat (length (packet_body ?q))) = Inr (packet_crc ?q)"
    unfolding env(2) packet_crc_def by (rule crc16_value) (simp only: len buf(2))
  have "msg_numData (recvBuffer c) = Inr (of_nat (block_count ms))"
    using reads(6) h by (simp add: client_header_def)
  from process_parts [OF this _ ms c(3,4,2)] body_entries(1) [OF buf(2)] obtain c' where
    c': "processMessagePacket c = Inr c'" "recvCount c' = int (length ms)"
      "recv_frame (c\<lparr>recvCount := int (length ms)\<rparr>) c'" "groups_of c' (spans (16 + 2 * block_count ms) ms)"
    by auto
  have i: "i < length (s_Client_t s)" using c(1) by (simp add: client_at_Inr_iff)
  have step: "on_client s i processMessagePacket = Inr (put_client s i c')"
    using c(1) c'(1) by (rule on_client_Inr)
  have "acceptData s i STSOCKMSG_PACKDATASIZE (pk_packNo h) =
      Inr (0, put_client s i (c'\<lparr>packRef := pk_packNo h\<rparr>))"
    using step i by (simp add: acceptData_def on_client_def msg_type_defs)
  moreover have "\<not> pk_packNo h \<le> packRef c" using h by (simp add: client_header_def not_le)
  ultimately have "checkData s i (pk_type h) (pk_sizeAll h) readSize =
      Inr (0, put_client s i (c'\<lparr>packRef := pk_packNo h\<rparr>))"
    using c(1) reads crc cut h env(1) rs
    by (simp add: checkData_def sizeof_defs client_header_def del: of_nat_add)
  with c' show ?thesis by blast
qed

text \<open>A client without what receiving a packet changes.\<close>

definition send_side :: "Client_t \<Rightarrow> Client_t" where
  "send_side c = c\<lparr>recvBuffer := [], recvBufferMSG := [], recvBufferMSGSize := [], recvCount := 0, packRef := 0\<rparr>"

lemma send_side_fields:
  "send_side c' = send_side c \<Longrightarrow> sendCount c' = sendCount c \<and> fileDataSending c' = fileDataSending c \<and>
     socket c' = socket c \<and> idx c' = idx c \<and> online c' = online c \<and> m_Mutex c' = m_Mutex c \<and>
     curPacketNo c' = curPacketNo c \<and> roomIdx c' = roomIdx c \<and> queued c' = queued c"
  by (cases c; cases c') (simp add: send_side_def queued_def)

lemma recv_frame_send_side: "recv_frame c c' \<Longrightarrow> send_side c' = send_side c"
  by (auto simp: recv_frame_def send_side_def)

text \<open>The two reads of a packet: its common header, then the rest of its header with the body.\<close>

lemma read_header:
  assumes c: "client_at s i = Inr c" "65536 \<le> length (recvBuffer c)"
    and str: "stream (rx (net s (socket c))) = PACKDATASIZE_bytes h @ rest"
  shows "\<exists>k b. ReadFrom_client s i 0 12 False =
      Inr (12, put_client (s\<lparr>net := (net s)(socket c := k)\<rparr>) i (c\<lparr>recvBuffer := b\<rparr>)) \<and>
    stream (rx k) = drop 12 (PACKDATASIZE_bytes h) @ rest \<and> length b = length (recvBuffer c) \<and>
    load b 0 12 = Inr (take 12 (PACKDATASIZE_bytes h)) \<and>
    msg_type b = Inr (pk_type h) \<and> msg_fromID b = Inr (pk_fromID h) \<and> msg_size b = Inr (pk_sizeAll h) \<and>
    tx k = tx (net s (socket c)) \<and> sent k = sent (net s (socket c))"
proof -
  let ?hb = "PACKDATASIZE_bytes h"
  have "12 \<le> length (stream (rx (net s (socket c))))" unfolding str by simp
  from ReadFrom_client_stream [OF c(1) this, of 0] c(2) obtain k b where
    r: "ReadFrom_client s i 0 12 False =
      Inr (12, put_client (s\<lparr>net := (net s)(socket c := k)\<rparr>) i (c\<lparr>recvBuffer := b\<rparr>))"
      "stream (rx k) = drop 12 (?hb @ rest)" "store (recvBuffer c) 0 (take 12 (?hb @ rest)) = Inr b"
      "tx k = tx (net s (socket c))" "sent k = sent (net s (socket c))"
    unfolding str by auto
  have ld: "load b 0 12 = Inr (take 12 ?hb)" using load_store_same [OF r(3) refl] by simp
  have f: "load b off m = Inr (take m (drop off (take 12 ?hb)))" if "off + m \<le> 12" for off m
    using load_within [OF ld that] by simp
  have "msg_type b = Inr (pk_type h)" "msg_fromID b = Inr (pk_fromID h)" "msg_size b = Inr (pk_sizeAll h)"
    using f [of 0 2] f [of 2 2] f [of 8 4]
    by (simp_all add: msg_type_def msg_fromID_def msg_size_def PACKDATASIZE_bytes_def c16.rd_load c32.rd_load)
  with r ld store_length [OF r(3)] show ?thesis by (intro exI [of _ k] exI [of _ b]) simp
qed

lemma read_body:
  assumes c: "client_at s i = Inr c" "16 + length body \<le> length (recvBuffer c)" and hb: "length hb = 16"
    and hd: "load (recvBuffer c) 0 12 = Inr (take 12 hb)"
    and str: "stream (rx (net s (socket c))) = drop 12 hb @ body @ rest" and n: "n = length body + 4"
  shows "\<exists>k b. ReadFrom_client s i 12 n False =
      Inr (int n, put_client (s\<lparr>net := (net s)(socket c := k)\<rparr>) i (c\<lparr>recvBuffer := b\<rparr>)) \<and>
    stream (rx k) = rest \<and> length b = length (recvBuffer c) \<and>
    load b 0 16 = Inr hb \<and> load b 16 (length body) = Inr body \<and>
    tx k = tx (net s (socket c)) \<and> sent k = sent (net s (socket c))"
proof -
  have len: "n \<le> length (stream (rx (net s (socket c))))" "12 + n \<le> length (recvBuffer c)"
    unfolding str using hb n c(2) by simp_all
  from ReadFrom_client_stream [OF c(1) len, unfolded str] obtain k b where
    r: "ReadFrom_client s i 12 n False =
      Inr (int n, put_client (s\<lparr>net := (net s)(socket c := k)\<rparr>) i (c\<lparr>recvBuffer := b\<rparr>))"
      "stream (rx k) = drop n (drop 12 hb @ body @ rest)" "store (recvBuffer c) 12 (take n (drop 12 hb @ body @ rest)) = Inr b"
      "tx k = tx (net s (socket c))" "sent k = sent (net s (socket c))"
    by blast
  have cut: "take n (drop 12 hb @ body @ rest) = drop 12 hb @ body" using hb n by simp
  have "load b 12 n = Inr (drop 12 hb @ body)"
    using load_store_same [OF r(3) refl] hb n unfolding cut by (simp add: add.commute)
  moreover have "load b 0 12 = Inr (take 12 hb)" using load_store_other [OF r(3), of 0 12] hd by simp
  ultimately have "load b 0 (12 + n) = Inr (take 12 hb @ drop 12 hb @ body)" using load_append [of b 0 12] by simp
  then have all: "load b 0 (16 + length body) = Inr (hb @ body)"
    by (simp add: n add.commute add.left_commute flip: append_assoc)
  have "load b 0 16 = Inr hb" "load b 16 (length body) = Inr body"
    using load_within [OF all, of 0 16] load_within [OF all, of 16 "length body"] hb by simp_all
  with r store_length [OF r(3)] hb n show ?thesis by (intro exI [of _ k] exI [of _ b]) simp
qed

text \<open>With the header in the buffer, the body is read, checked and taken apart.\<close>

lemma body_taken:
  assumes c1: "client_at s1 i = Inr c1" "length (recvBufferMSG c1) = 64" "length (recvBufferMSGSize c1) = 64"
      "65536 \<le> length (recvBuffer c1)" "recvCount c1 = 0"
    and ms: "[] \<notin> set ms" "block_count ms \<le> 62"
    and h: "client_header s1 c1 (flat 0 ms) h"
    and hd: "load (recvBuffer c1) 0 12 = Inr (take 12 (PACKDATASIZE_bytes h))"
      "msg_fromID (recvBuffer c1) = Inr (pk_fromID h)" "msg_size (recvBuffer c1) = Inr (pk_sizeAll h)"
    and str: "stream (rx (net s1 (socket c1))) = drop 12 (PACKDATASIZE_bytes h) @ packet_body (flat 0 ms) @ rest"
    and env: "s_nServerType (cfg s1) \<noteq> STSV_ONETIME_CONNECTION" "crcTable s1 = STOS_InitCRCTable t"
  shows "\<exists>k b c'. processData s1 i (pk_type h) = Inr (0, put_client (s1\<lparr>net := (net s1)(socket c1 := k)\<rparr>) i
      (c'\<lparr>packRef := pk_packNo h\<rparr>)) \<and>
    stream (rx k) = rest \<and> tx k = tx (net s1 (socket c1)) \<and> sent k = sent (net s1 (socket c1)) \<and>
    length b = length (recvBuffer c1) \<and> load b 16 (length (packet_body (flat 0 ms))) = Inr (packet_body (flat 0 ms)) \<and>
    recvCount c' = int (length ms) \<and> recv_frame (c1\<lparr>recvBuffer := b, recvCount := int (length ms)\<rparr>) c' \<and>
    groups_of c' (spans (16 + 2 * block_count ms) ms)"
proof -
  let ?q = "flat 0 ms"
  let ?body = "packet_body ?q"
  let ?n = "length ?body + 4"
  have i: "i < length (s_Client_t s1)" using c1(1) by (simp add: client_at_Inr_iff)
  have bound: "length ?body \<le> 63612" using flat_body_bound [OF ms(2)] by simp
  have "16 + length ?body \<le> length (recvBuffer c1)" "length (PACKDATASIZE_bytes h) = 16"
    using c1(4) bound by simp_all
  from read_body [OF c1(1) this hd(1) str refl] obtain k b where
    rd: "ReadFrom_client s1 i 12 ?n False =
      Inr (int ?n, put_client (s1\<lparr>net := (net s1)(socket c1 := k)\<rparr>) i (c1\<lparr>recvBuffer := b\<rparr>))"
    and k: "stream (rx k) = rest" "length b = length (recvBuffer c1)"
    and buf: "load b 0 16 = Inr (PACKDATASIZE_bytes h)" "load b 16 (length ?body) = Inr ?body"
    and q: "tx k = tx (net s1 (socket c1))" "sent k = sent (net s1 (socket c1))"
    by (elim exE conjE) (rule that)
  let ?c = "c1\<lparr>recvBuffer := b\<rparr>"
  let ?s = "put_client (s1\<lparr>net := (net s1)(socket c1 := k)\<rparr>) i ?c"
  have at: "client_at ?s i = Inr ?c" using i by (intro put_client_at) simp
  have h2: "client_header ?s ?c ?q h" using h by (simp add: client_header_def)
  have sz: "sint (pk_sizeAll h) = int ?n"
    using h bound by (simp add: client_header_def sint_of_nat_32 flip: of_nat_add)
  have "\<exists>c'. checkData ?s i (pk_type h) (pk_sizeAll h) (int ?n) = Inr (0, put_client ?s i (c'\<lparr>packRef := pk_packNo h\<rparr>)) \<and>
    recvCount c' = int (length ms) \<and> recv_frame (?c\<lparr>recvCount := int (length ms)\<rparr>) c' \<and>
    groups_of c' (spans (16 + 2 * block_count ms) ms)"
    using at c1(2,3,5) ms h2 buf env sz by (intro accept_packet) simp_all
  then obtain c' where c': "checkData ?s i (pk_type h) (pk_sizeAll h) (int ?n) =
      Inr (0, put_client ?s i (c'\<lparr>packRef := pk_packNo h\<rparr>))" "recvCount c' = int (length ms)"
    "recv_frame (?c\<lparr>recvCount := int (length ms)\<rparr>) c'" "groups_of c' (spans (16 + 2 * block_count ms) ms)"
    by (elim exE conjE)
  have hh: "pk_type h = STSOCKMSG_PACKDATASIZE" "0 \<le> sint (pk_fromID h)"
    "sint (pk_fromID h) < s_nMaxConnection (cfg s1)" using h by (simp_all add: client_header_def)
  have szt: "size_t_of (pk_sizeAll h) = ?n" using bound by (simp add: size_t_of_def sz)
  have "processData s1 i (pk_type h) = Inr (0, put_client ?s i (c'\<lparr>packRef := pk_packNo h\<rparr>))"
    using c1(1) hd(2,3) hh c'(1) rd bound sz
    by (simp add: processData_def msg_type_defs STSV_MAX_BUFFER_def szt sizeof_defs)
  then show ?thesis using k buf(2) q c'(2-4) by (intro exI [of _ k] exI [of _ b] exI [of _ c']) simp
qed

lemma received_message:
  assumes c: "client_at s i = Inr c" "length (recvBufferMSG c) = 64" "length (recvBufferMSGSize c) = 64"
      "65536 \<le> length (recvBuffer c)"
    and ms: "[] \<notin> set ms" "block_count ms \<le> 62"
    and h: "client_header s c (flat 0 ms) h"
    and str: "stream (rx (net s (socket c))) = PACKDATASIZE_bytes h @ packet_body (flat 0 ms) @ rest"
    and env: "s_nServerType (cfg s) \<noteq> STSV_ONETIME_CONNECTION" "crcTable s = STOS_InitCRCTable t"
  shows "\<exists>s' c'. processMessageBuffer s i = Inr (0, s') \<and> client_at s' i = Inr c' \<and>
    packRef c' = pk_packNo h \<and> recvCount c' = int (length ms) \<and> stream (rx (net s' (socket c))) = rest \<and>
    groups_of c' (spans (16 + 2 * block_count ms) ms) \<and>
    load (recvBuffer c') (16 + 2 * block_count ms) (length (concat ms)) = Inr (concat ms) \<and>
    tx (net s' (socket c)) = tx (net s (socket c)) \<and> sent (net s' (socket c)) = sent (net s (socket c)) \<and>
    send_side c' = send_side c \<and> length (recvBuffer c') = length (recvBuffer c) \<and>
    cfg s' = cfg s \<and> crcTable s' = crcTable s"
proof -
  let ?body = "packet_body (flat 0 ms)"
  have i: "i < length (s_Client_t s)" using c(1) by (simp add: client_at_Inr_iff)
  let ?c0 = "c\<lparr>recvCount := 0\<rparr>"
  let ?s0 = "put_client s i ?c0"
  have r0: "on_client s i (\<lambda>c. Inr (c\<lparr>recvCount := 0\<rparr>)) = Inr ?s0" using c(1) by (simp add: on_client_def)
  have at0: "client_at ?s0 i = Inr ?c0" using i by simp
  have "65536 \<le> length (recvBuffer ?c0)" "stream (rx (net ?s0 (socket ?c0))) = PACKDATASIZE_bytes h @ ?body @ rest"
    using c(4) str by simp_all
  from read_header [OF at0 this] obtain k1 b1 where
    rd1: "ReadFrom_client ?s0 i 0 12 False =
      Inr (12, put_client (?s0\<lparr>net := (net ?s0)(socket ?c0 := k1)\<rparr>) i (?c0\<lparr>recvBuffer := b1\<rparr>))"
    and k1: "stream (rx k1) = drop 12 (PACKDATASIZE_bytes h) @ ?body @ rest" "length b1 = length (recvBuffer c)"
      "load b1 0 12 = Inr (take 12 (PACKDATASIZE_bytes h))"
    and hd1: "msg_type b1 = Inr (pk_type h)" "msg_fromID b1 = Inr (pk_fromID h)" "msg_size b1 = Inr (pk_sizeAll h)"
    and q1: "tx k1 = tx (net s (socket c))" "sent k1 = sent (net s (socket c))"
    by auto
  let ?s1 = "put_client (?s0\<lparr>net := (net ?s0)(socket ?c0 := k1)\<rparr>) i (?c0\<lparr>recvBuffer := b1\<rparr>)"
  let ?c1 = "?c0\<lparr>recvBuffer := b1\<rparr>"
  have at1: "client_at ?s1 i = Inr ?c1" using i by (intro put_client_at) simp
  have h1: "client_header ?s1 ?c1 (flat 0 ms) h" using h by (simp add: client_header_def)
  have pre: "length (recvBufferMSG ?c1) = 64" "length (recvBufferMSGSize ?c1) = 64" "65536 \<le> length (recvBuffer ?c1)"
    "recvCount ?c1 = 0" "load (recvBuffer ?c1) 0 12 = Inr (take 12 (PACKDATASIZE_bytes h))"
    "msg_fromID (recvBuffer ?c1) = Inr (pk_fromID h)" "msg_size (recvBuffer ?c1) = Inr (pk_sizeAll h)"
    "stream (rx (net ?s1 (socket ?c1))) = drop 12 (PACKDATASIZE_bytes h) @ ?body @ rest"
    "s_nServerType (cfg ?s1) \<noteq> STSV_ONETIME_CONNECTION" "crcTable ?s1 = STOS_InitCRCTable t"
    using c(2-4) k1 hd1 env by simp_all
  from body_taken [OF at1 pre(1-4) ms h1 pre(5-10)] obtain k2 b2 c' where
    data: "processData ?s1 i (pk_type h) = Inr (0, put_client (?s1\<lparr>net := (net ?s1)(socket ?c1 := k2)\<rparr>) i
      (c'\<lparr>packRef := pk_packNo h\<rparr>))"
    and k2: "stream (rx k2) = rest" "tx k2 = tx k1" "sent k2 = sent k1" "length b2 = length b1"
      "load b2 16 (length ?body) = Inr ?body"
    and c': "recvCount c' = int (length ms)" "recv_frame (?c1\<lparr>recvBuffer := b2, recvCount := int (length ms)\<rparr>) c'"
      "groups_of c' (spans (16 + 2 * block_count ms) ms)"
    by (elim exE conjE) (rule that, assumption, simp_all)
  let ?c = "c'\<lparr>packRef := pk_packNo h\<rparr>"
  let ?s = "put_client (?s1\<lparr>net := (net ?s1)(socket ?c1 := k2)\<rparr>) i ?c"
  have run: "processMessageBuffer s i = Inr (0, ?s)"
    using r0 rd1 at1 hd1(1) data h
    by (simp add: processMessageBuffer_def sizeof_defs msg_type_defs client_header_def)
  have at': "client_at ?s i = Inr ?c" using i by (intro put_client_at) simp
  have "recvBuffer ?c = b2" using c'(2) by (auto dest: recv_frame_buffer)
  moreover have "load b2 (16 + 2 * block_count ms) (length (concat ms)) = Inr (concat ms)"
    using body_entries(2) [OF k2(5)] by simp
  moreover have "groups_of ?c (spans (16 + 2 * block_count ms) ms)" using c'(3) by (simp add: groups_of_def)
  moreover have "send_side ?c = send_side c" using recv_frame_send_side [OF c'(2)] by (simp add: send_side_def)
  ultimately show ?thesis
    by (intro exI [of _ ?s] exI [of _ ?c]) (use run at' c'(1) k1(2) k2 q1 in simp)
qed

text \<open>C1: A client's packet is received as it was sent, however the network cuts it: if the bytes on the
connection are a header with a fresh reference and the right checksum, and the body of the messages
\<open>ms\<close>, \<open>processMessageBuffer\<close> returns 0, records the reference, leaves the bytes behind the packet
for the next call, and \<open>STSV_GetDataCount\<close> and \<open>STSV_GetData\<close> hand out exactly \<open>ms\<close>.\<close>

theorem client_packet_received:
  assumes "client_at s i = Inr c" and "length (recvBufferMSG c) = 64" and "length (recvBufferMSGSize c) = 64"
    and "65536 \<le> length (recvBuffer c)" and "[] \<notin> set ms" and "block_count ms \<le> 62"
    and "client_header s c (flat 0 ms) h"
    and "stream (rx (net s (socket c))) = PACKDATASIZE_bytes h @ packet_body (flat 0 ms) @ rest"
    and "s_nServerType (cfg s) \<noteq> STSV_ONETIME_CONNECTION" and "crcTable s = STOS_InitCRCTable t"
  shows "\<exists>s' c'. processMessageBuffer s i = Inr (0, s') \<and> client_at s' i = Inr c' \<and>
    packRef c' = pk_packNo h \<and> stream (rx (net s' (socket c))) = rest \<and>
    STSV_GetDataCount (s_Client_t s') (int i) = Inr (int (length ms)) \<and>
    (\<forall>j < length ms. \<exists>addr. STSV_GetData (s_Client_t s') (int i) (int j) = Inr (Some addr, of_nat (length (ms ! j))) \<and>
      load (recvBuffer c') addr (length (ms ! j)) = Inr (ms ! j))"
proof -
  obtain s' c' where r: "processMessageBuffer s i = Inr (0, s')" "client_at s' i = Inr c'"
    "packRef c' = pk_packNo h" "recvCount c' = int (length ms)" "stream (rx (net s' (socket c))) = rest"
    "groups_of c' (spans (16 + 2 * block_count ms) ms)"
    "load (recvBuffer c') (16 + 2 * block_count ms) (length (concat ms)) = Inr (concat ms)"
    using received_message [OF assms] by blast
  have at: "get_at (s_Client_t s') (int i) = Inr c'" using r(2) by (simp add: client_at_def)
  have "\<exists>addr. STSV_GetData (s_Client_t s') (int i) (int j) = Inr (Some addr, of_nat (length (ms ! j))) \<and>
      load (recvBuffer c') addr (length (ms ! j)) = Inr (ms ! j)" if j: "j < length ms" for j
  proof -
    have "j < 64" using j messages_le_blocks [OF assms(5)] assms(6) by simp
    then show ?thesis
      using groups_of_GetData [OF r(6), of j] j message_in_payload [OF r(7) j] at
      by (simp add: STSV_GetData_def get_at_def spans_nth)
  qed
  with r at show ?thesis by (auto simp: STSV_GetDataCount_def)
qed

text \<open>A client that sends the one message \<open>[7]\<close>, cut in two by the network.\<close>

definition wit_header :: STSOCKMSGDATA_PACKDATASIZE where
  "wit_header = \<lparr>pk_type = 1, pk_fromID = 0, pk_packNo = 1, pk_sizeAll = 7,
     pk_crc = packet_crc (flat 0 [[7]]), pk_numData = 1\<rparr>"

definition wit_bytes :: "u8 list" where
  "wit_bytes = PACKDATASIZE_bytes wit_header @ packet_body (flat 0 [[7]])"

definition wit_server :: server where
  "wit_server = (fresh_server [fresh_client 65536])\<lparr>
     cfg := fresh_config\<lparr>s_nMaxConnection := 50\<rparr>,
     crcTable := STOS_InitCRCTable \<lparr>s_CRC8Table = [], s_CRC16Table = [], s_CRC32Table = []\<rparr>,
     net := (\<lambda>_. \<lparr>rx = [RecvBytes (take 5 wit_bytes), RecvError, RecvBytes (drop 5 wit_bytes)],
       tx = [], sent = [], closed = False\<rparr>)\<rparr>"

lemma wit_facts:
  "client_at wit_server 0 = Inr (fresh_client 65536)"
  "length (recvBufferMSG (fresh_client 65536)) = 64" "length (recvBufferMSGSize (fresh_client 65536)) = 64"
  "65536 \<le> length (recvBuffer (fresh_client 65536))" "[] \<notin> set [[7 :: u8]]" "block_count [[7]] \<le> 62"
  "client_header wit_server (fresh_client 65536) (flat 0 [[7]]) wit_header"
  "stream (rx (net wit_server (socket (fresh_client 65536)))) =
     PACKDATASIZE_bytes wit_header @ packet_body (flat 0 [[7]]) @ []"
  "s_nServerType (cfg wit_server) \<noteq> STSV_ONETIME_CONNECTION"
  "crcTable wit_server = STOS_InitCRCTable \<lparr>s_CRC8Table = [], s_CRC16Table = [], s_CRC32Table = []\<rparr>"
proof -
  show "stream (rx (net wit_server (socket (fresh_client 65536)))) =
     PACKDATASIZE_bytes wit_header @ packet_body (flat 0 [[7]]) @ []"
  proof -
    have "16 \<le> length wit_bytes" by (simp add: wit_bytes_def)
    then have "take 5 wit_bytes \<noteq> []" "drop 5 wit_bytes \<noteq> []" by auto
    then have "stream [RecvBytes (take 5 wit_bytes), RecvError, RecvBytes (drop 5 wit_bytes)] = wit_bytes"
      by simp
    then show ?thesis by (simp add: wit_server_def) (simp add: wit_bytes_def)
  qed
  show "client_header wit_server (fresh_client 65536) (flat 0 [[7]]) wit_header"
    by (simp add: client_header_def wit_header_def wit_server_def fresh_client_def init_sendBufferMSG_def
        msg_type_defs packet_body_length)
qed (simp_all add: wit_server_def fresh_server_def client_at_Inr_iff fresh_client_def init_sendBufferMSG_def
    fresh_config_def STSV_ONETIME_CONNECTION_def)

theorem client_packet_received_witness:
  "\<exists>s' c'. processMessageBuffer wit_server 0 = Inr (0, s') \<and> client_at s' 0 = Inr c' \<and> packRef c' = 1 \<and>
     STSV_GetDataCount (s_Client_t s') 0 = Inr 1 \<and>
     (\<exists>addr. STSV_GetData (s_Client_t s') 0 0 = Inr (Some addr, 1) \<and> load (recvBuffer c') addr 1 = Inr [7])"
  using client_packet_received [OF wit_facts] by (auto simp: wit_header_def)

theorem accepted_packets_increase_witness:
  "\<exists>s'. accepts wit_server 0 [1] s' \<and> sorted_wrt (<) [0, 1 :: u32] \<and>
     (\<exists>c'. client_at s' 0 = Inr c' \<and> packRef c' = 1)"
proof -
  obtain s' c' where r: "processMessageBuffer wit_server 0 = Inr (0, s')" "client_at s' 0 = Inr c'"
    "packRef c' = 1"
    using received_message [OF wit_facts] by (auto simp: wit_header_def)
  have acc: "accepts wit_server 0 ([] @ [packRef c']) s'"
    by (rule acc_take [OF acc_start r(1,2)])
  have "packRef (fresh_client 65536) = 0" by (simp add: fresh_client_def init_sendBufferMSG_def)
  with accepted_packets_increase [OF acc wit_facts(1)] acc r(3) show ?thesis by auto
qed

end
