(* ===== verification/Star_Answer.thy ===== *)
theory Star_Answer
  imports Star_Protocol
begin

text \<open>
  What the answering side guarantees: \<open>EndPackSendData\<close> puts the packet of the queue on the wire
  and empties the queue, a retransmission puts the same packet on the wire again, and what is
  accepted has the checksum of its bytes.
\<close>

section \<open>Sending\<close>

lemma store_same: "load buf off (length bs) = Inr bs \<Longrightarrow> store buf off bs = Inr buf"
proof -
  assume "load buf off (length bs) = Inr bs"
  then have "off + length bs \<le> length buf" and bs: "bs = take (length bs) (drop off buf)"
    by (auto simp: load_Inr_iff)
  moreover have "take off buf @ bs @ drop (off + length bs) buf = buf"
    by (subst bs) (metis add.commute append_take_drop_id drop_drop)
  ultimately show ?thesis by (simp add: store_def)
qed

lemma WriteTo_client_all:
  assumes "client_at s i = Inr c" and "s_nProtocol (cfg s) = STSV_TCP_PROTOCOL"
    and "0 \<notin> set (tx (net s (socket c)))" and "length msg \<le> progress (tx (net s (socket c)))"
  shows "\<exists>k. WriteTo_client s i msg = Inr (int (length msg), s\<lparr>net := (net s)(socket c := k)\<rparr>) \<and>
    sent k = sent (net s (socket c)) @ msg \<and> rx k = rx (net s (socket c)) \<and>
    0 \<notin> set (tx k) \<and> progress (tx (net s (socket c))) \<le> progress (tx k) + length msg"
  using WriteTo_loop_returns [OF assms(3,4), of "[]"] assms(1,2)
  by (auto simp: WriteTo_client_def WriteTo_def)

lemma packForSending_packet:
  assumes wf: "wf_client c" and "\<not> fileDataSending c" and "crcTable s = STOS_InitCRCTable t"
  shows "\<exists>b. packForSending s c = Inr (c\<lparr>sendBuffer := b,
      sendDataSize := length (packet (packRef c) (queued c))\<rparr>) \<and> length b = length (sendBuffer c) \<and>
    load b 0 (length (packet (packRef c) (queued c))) = Inr (packet (packRef c) (queued c))"
proof -
  let ?q = "queued c"
  let ?P = "packet (packRef c) ?q"
  from PackDataWithPacket_body [OF wf] obtain b0 where p0: "PackDataWithPacket c = Inr (c\<lparr>sendBuffer := b0\<rparr>)"
    by blast
  from pack_all [OF wf, of t] p0 obtain b where
    b: "PackDataWithCRC16 (STOS_InitCRCTable t) (c\<lparr>sendBuffer := b0\<rparr>) = Inr (c\<lparr>sendBuffer := b\<rparr>)"
      "length b = length (sendBuffer c)" "load b 0 (length ?P) = Inr ?P"
    by auto
  note hd = packet_parts(1) [OF b(3)]
  have sz: "msg_size b = Inr (of_nat (length (packet_body ?q) + 4))"
    using header_size [OF hd] by (simp add: packet_header_def)
  have "length (packet_body ?q) + 4 < 2 ^ 31"
    using packet_body_bound [OF queue_at_queued [OF wf]] by simp
  then have n: "nat ((sint (of_nat (length (packet_body ?q) + 4) :: s32) + 12) mod 2 ^ 64) = length ?P"
    by (simp add: sint_of_nat_32 packet_length flip: of_nat_add)
  have "load b 4 4 = Inr (le32 (packRef c))"
    using load_within [OF hd, of 4 4] by (simp add: PACKDATASIZE_bytes_def packet_header_def)
  then have again: "wr32 b 4 (packRef c) = Inr b" by (simp add: wr32_def store_same)
  have "packForSending s c = Inr (c\<lparr>sendBuffer := b, sendDataSize := length ?P\<rparr>)"
    using p0 b(1) assms(2,3) sz again n by (simp add: packForSending_def del: of_nat_add)
  with b show ?thesis by blast
qed

lemma EndPackSendData_sends:
  assumes c: "client_at s i = Inr c" "wf_client c" "\<not> m_Mutex c" "0 < sendCount c" "\<not> fileDataSending c"
    and s: "s_nProtocol (cfg s) = STSV_TCP_PROTOCOL" "crcTable s = STOS_InitCRCTable t"
    and P: "P = packet (packRef c) (queued c)"
    and k: "k = net s (socket c)" "0 \<notin> set (tx k)" "length P \<le> progress (tx k)"
  shows "\<exists>s' b k'. EndPackSendData s i = Inr s' \<and> s' = put_client (s\<lparr>net := (net s)(socket c := k')\<rparr>) i
      (c\<lparr>sendBuffer := b, sendDataSize := length P, recvCount := 0, sendCount := 0, curPacketNo := 0\<rparr>) \<and>
    sent k' = sent k @ P \<and> rx k' = rx k \<and> length b = length (sendBuffer c) \<and> load b 0 (length P) = Inr P \<and>
    0 \<notin> set (tx k') \<and> progress (tx k) \<le> progress (tx k') + length P"
proof -
  have i: "i < length (s_Client_t s)" using c(1) by (simp add: client_at_Inr_iff)
  let ?c1 = "c\<lparr>m_Mutex := True\<rparr>"
  let ?s1 = "put_client s i ?c1"
  have lock: "on_client s i lock_client = Inr ?s1" using c(1,3) by (simp add: on_client_def lock_client_def)
  have at1: "client_at ?s1 i = Inr ?c1" using i by simp
  obtain b where b: "packForSending ?s1 ?c1 = Inr (?c1\<lparr>sendBuffer := b, sendDataSize := length P\<rparr>)"
    "length b = length (sendBuffer c)" "load b 0 (length P) = Inr P"
    using packForSending_packet [of ?c1 ?s1 t] c(2,5) s(2) P by auto
  let ?c2 = "?c1\<lparr>sendBuffer := b, sendDataSize := length P\<rparr>"
  let ?s2 = "put_client ?s1 i ?c2"
  have at2: "client_at ?s2 i = Inr ?c2" using i by (intro put_client_at) simp
  obtain k' where k': "WriteTo_client ?s2 i P = Inr (int (length P), ?s2\<lparr>net := (net ?s2)(socket ?c2 := k')\<rparr>)"
    "sent k' = sent k @ P" "rx k' = rx k" "0 \<notin> set (tx k')" "progress (tx k) \<le> progress (tx k') + length P"
    using WriteTo_client_all [OF at2, of P] s(1) k by auto
  have ne: "int (length P) \<noteq> 0" by (simp add: P packet_length)
  let ?s3 = "?s2\<lparr>net := (net ?s2)(socket ?c2 := k')\<rparr>"
  have at3: "client_at ?s3 i = Inr ?c2" using at2 by simp
  let ?c4 = "c\<lparr>sendBuffer := b, sendDataSize := length P, recvCount := 0, sendCount := 0, curPacketNo := 0\<rparr>"
  have fin: "unlock_client (?c2\<lparr>recvCount := 0, sendCount := 0, curPacketNo := 0\<rparr>) = ?c4"
    using c(3) by (cases c) (simp add: unlock_client_def)
  have "on_client ?s3 i (\<lambda>c. Inr (unlock_client (c\<lparr>recvCount := 0, sendCount := 0, curPacketNo := 0\<rparr>))) =
      Inr (put_client ?s3 i ?c4)"
    by (rule on_client_Inr [OF at3]) (simp only: fin)
  then have "EndPackSendData s i = Inr (put_client ?s3 i ?c4)"
    using c(1,4) lock at1 b(1,3) k'(1) ne by (simp add: EndPackSendData_def)
  moreover have "put_client ?s3 i ?c4 = put_client (s\<lparr>net := (net s)(socket c := k')\<rparr>) i ?c4"
    by (simp add: put_client_def)
  ultimately show ?thesis using k'(2-5) b(2,3) by auto
qed

lemma header_message_length [simp]: "length (header_message ty no) = 12"
  by (simp add: header_message_def DATASIZE_bytes_def)

lemma SendConfirm_sends:
  assumes "client_at s i = Inr c" and "s_nProtocol (cfg s) = STSV_TCP_PROTOCOL"
    and "0 \<notin> set (tx (net s (socket c)))" and "12 \<le> progress (tx (net s (socket c)))"
  shows "\<exists>k. SendConfirmMessage s i no = Inr (s\<lparr>net := (net s)(socket c := k)\<rparr>) \<and>
    sent k = sent (net s (socket c)) @ header_message STSOCKMSG_CONFIRM no \<and> rx k = rx (net s (socket c)) \<and>
    0 \<notin> set (tx k) \<and> progress (tx (net s (socket c))) \<le> progress (tx k) + 12"
proof -
  have "length (header_message STSOCKMSG_CONFIRM no) \<le> progress (tx (net s (socket c)))" using assms(4) by simp
  from WriteTo_client_all [OF assms(1-3) this] show ?thesis
    by (auto simp: SendConfirmMessage_def send_header_def)
qed

lemma processRetrasmit_sends:
  assumes "client_at s i = Inr c" and "load (sendBuffer c) 0 (sendDataSize c) = Inr P" and "P \<noteq> []"
    and "s_nProtocol (cfg s) = STSV_TCP_PROTOCOL"
    and "0 \<notin> set (tx (net s (socket c)))" and "length P \<le> progress (tx (net s (socket c)))"
  shows "\<exists>k'. processRetrasmit s i = Inr (-1, s\<lparr>net := (net s)(socket c := k')\<rparr>) \<and>
    sent k' = sent (net s (socket c)) @ P"
  using WriteTo_client_all [OF assms(1,4,5,6)] assms(1-3) by (auto simp: processRetrasmit_def)

text \<open>C9: Over a TCP connection that takes the data, \<open>EndPackSendData\<close> returns, has put exactly the packet of
the queue on the wire and has emptied the queue; and when the peer then asks for a retransmission, the
same packet goes out a second time.\<close>

theorem answer_and_retransmission:
  assumes "client_at s i = Inr c" and "wf_client c" and "\<not> m_Mutex c" and "0 < sendCount c"
    and "\<not> fileDataSending c" and "s_nProtocol (cfg s) = STSV_TCP_PROTOCOL"
    and "crcTable s = STOS_InitCRCTable t" and "P = packet (packRef c) (queued c)"
    and "0 \<notin> set (tx (net s (socket c)))" and "length P \<le> progress (tx (net s (socket c)))"
    and "0 \<notin> set ws" and "length P \<le> progress ws"
  shows "\<exists>s1 c1. EndPackSendData s i = Inr s1 \<and> client_at s1 i = Inr c1 \<and> wf_client c1 \<and> queued c1 = [] \<and>
    curPacketNo c1 = 0 \<and> \<not> m_Mutex c1 \<and> online c1 = online c \<and>
    sent (net s1 (socket c)) = sent (net s (socket c)) @ P \<and>
    (\<exists>s2. processRetrasmit (s1\<lparr>net := (net s1)(socket c := (net s1 (socket c))\<lparr>tx := ws\<rparr>)\<rparr>) i = Inr (-1, s2) \<and>
       sent (net s2 (socket c)) = sent (net s (socket c)) @ P @ P)"
proof -
  obtain s1 b k' where r: "EndPackSendData s i = Inr s1"
    "s1 = put_client (s\<lparr>net := (net s)(socket c := k')\<rparr>) i
      (c\<lparr>sendBuffer := b, sendDataSize := length P, recvCount := 0, sendCount := 0, curPacketNo := 0\<rparr>)"
    "sent k' = sent (net s (socket c)) @ P" "length b = length (sendBuffer c)" "load b 0 (length P) = Inr P"
    using EndPackSendData_sends [OF assms(1-8) refl assms(9,10)] by blast
  let ?c1 = "c\<lparr>sendBuffer := b, sendDataSize := length P, recvCount := 0, sendCount := 0, curPacketNo := 0\<rparr>"
  have i: "i < length (s_Client_t s)" using assms(1) by (simp add: client_at_Inr_iff)
  have at1: "client_at s1 i = Inr ?c1" unfolding r(2) using i by (intro put_client_at) simp
  have wf1: "wf_client ?c1" using assms(2) r(4) by (simp add: wf_client_def)
  have net1: "net s1 (socket c) = k'" by (simp add: r(2))
  let ?s1 = "s1\<lparr>net := (net s1)(socket c := (net s1 (socket c))\<lparr>tx := ws\<rparr>)\<rparr>"
  have at: "client_at ?s1 i = Inr ?c1" using at1 by simp
  have "P \<noteq> []" using assms(8) by (simp add: packet_def PACKDATASIZE_bytes_def le16_def)
  moreover have "s_nProtocol (cfg ?s1) = STSV_TCP_PROTOCOL" using assms(6) by (simp add: r(2))
  ultimately obtain k2 where "processRetrasmit ?s1 i = Inr (-1, ?s1\<lparr>net := (net ?s1)(socket c := k2)\<rparr>)"
    "sent k2 = sent k' @ P"
    using processRetrasmit_sends [OF at, of P] r(5) assms(11,12) net1 by auto
  with r(1,3) at1 wf1 net1 assms(3) show ?thesis by (auto simp: queued_def)
qed

text \<open>A client with the one byte 0 queued, on a connection that takes one byte per call.\<close>

definition wit_answer_client :: Client_t where
  "wit_answer_client = (fresh_client 65536)\<lparr>sendCount := 1,
     sendBufferMSGSize := (sendBufferMSGSize (fresh_client 65536))[0 := 1]\<rparr>"

definition wit_answer_server :: server where
  "wit_answer_server = (fresh_server [wit_answer_client])\<lparr>
     cfg := fresh_config\<lparr>s_nProtocol := STSV_TCP_PROTOCOL\<rparr>,
     crcTable := STOS_InitCRCTable \<lparr>s_CRC8Table = [], s_CRC16Table = [], s_CRC32Table = []\<rparr>,
     net := (\<lambda>_. \<lparr>rx = [], tx = replicate 19 1, sent = [], closed = False\<rparr>)\<rparr>"

lemma wit_answer_client_facts:
  "wf_client wit_answer_client" "\<not> m_Mutex wit_answer_client" "0 < sendCount wit_answer_client"
  "\<not> fileDataSending wit_answer_client" "packRef wit_answer_client = 0"
  "queued wit_answer_client = [(0, [0])]"
  by (simp_all add: wit_answer_client_def fresh_client_def init_sendBufferMSG_def wf_client_def block_defs
      queued_def block_at_def)

lemma wit_answer_facts:
  "client_at wit_answer_server 0 = Inr wit_answer_client"
  "s_nProtocol (cfg wit_answer_server) = STSV_TCP_PROTOCOL"
  "crcTable wit_answer_server = STOS_InitCRCTable \<lparr>s_CRC8Table = [], s_CRC16Table = [], s_CRC32Table = []\<rparr>"
  "packet 0 [(0, [0])] = packet (packRef wit_answer_client) (queued wit_answer_client)"
  "0 \<notin> set (tx (net wit_answer_server (socket wit_answer_client)))"
  "length (packet 0 [(0, [0])]) \<le> progress (tx (net wit_answer_server (socket wit_answer_client)))"
  "0 \<notin> set (replicate 19 (1 :: int))" "length (packet 0 [(0, [0])]) \<le> progress (replicate 19 1)"
  by (simp_all add: wit_answer_client_facts wit_answer_server_def fresh_server_def client_at_Inr_iff packet_length
      packet_body_length progress_def)

theorem answer_and_retransmission_witness:
  "\<exists>s1. EndPackSendData wit_answer_server 0 = Inr s1 \<and>
     sent (net s1 (socket wit_answer_client)) = sent (net wit_answer_server (socket wit_answer_client)) @ packet 0 [(0, [0])]"
  using answer_and_retransmission [OF wit_answer_facts(1) wit_answer_client_facts(1-4) wit_answer_facts(2-8)]
  by blast

section \<open>Accepting\<close>

text \<open>The receive buffer holds a packet whose checksum field is the checksum of its bytes.\<close>

definition checked :: "crc_tables \<Rightarrow> u8 list \<Rightarrow> bool" where
  "checked t b \<longleftrightarrow> (case (msg_size b, rd16 b 12) of
     (Inr sz, Inr crc) \<Rightarrow> STOS_CRC16 t b 16 (ucast (sz - 4)) = Inr crc | _ \<Rightarrow> False)"

lemma checked_iff:
  "checked t b \<longleftrightarrow> (\<exists>sz crc. msg_size b = Inr sz \<and> rd16 b 12 = Inr crc \<and>
     STOS_CRC16 t b 16 (ucast (sz - 4)) = Inr crc)"
  by (auto simp: checked_def split: sum.splits)

definition accepted_buffer :: "server \<Rightarrow> u8 list \<Rightarrow> u32 \<Rightarrow> bool" where
  "accepted_buffer s b no \<longleftrightarrow> checked (crcTable s) b \<and> msg_packNo b = Inr no"

definition accepted_at :: "server \<Rightarrow> nat \<Rightarrow> int \<times> server \<Rightarrow> bool" where
  "accepted_at s i = (\<lambda>(r, s'). r = 0 \<longrightarrow>
     (\<exists>c. client_at s' i = Inr c \<and> accepted_buffer s (recvBuffer c) (packRef c)))"

lemma accepted_refused: "r \<noteq> 0 \<Longrightarrow> accepted_at s i (r, s')"
  by (simp add: accepted_at_def)

lemma accepted_via: "crcTable s1 = crcTable s \<Longrightarrow> accepted_at s1 i x \<Longrightarrow> accepted_at s i x"
  by (cases x) (auto simp: accepted_at_def accepted_buffer_def)

lemma accepted_acceptData:
  assumes "client_at s i = Inr c" and "accepted_buffer s (recvBuffer c) packNo"
  shows "ensures (acceptData s i ty packNo) (accepted_at s i)"
proof -
  have i: "i < length (views recvBuffer s)" "views recvBuffer s ! i = recvBuffer c"
    using views_at [OF assms(1), of recvBuffer] by auto
  have take: "views recvBuffer s1 = views recvBuffer s \<Longrightarrow>
      on_client s1 i (\<lambda>c. Inr (c\<lparr>packRef := packNo\<rparr>)) = Inr s2 \<Longrightarrow> accepted_at s i (0, s2)" for s1 s2
  proof -
    assume r: "views recvBuffer s1 = views recvBuffer s"
      and "on_client s1 i (\<lambda>c. Inr (c\<lparr>packRef := packNo\<rparr>)) = Inr s2"
    then obtain c1 where c1: "client_at s1 i = Inr c1" "s2 = put_client s1 i (c1\<lparr>packRef := packNo\<rparr>)"
      by (auto simp: on_client_def bindR_Inr_iff)
    then have "i < length (s_Client_t s1)" "recvBuffer c1 = recvBuffer c"
      using views_at [OF c1(1), of recvBuffer] r i by auto
    with c1(2) assms(2) show ?thesis by (simp add: accepted_at_def)
  qed
  show ?thesis
    unfolding acceptData_def
    by (intro ensures_rules)
      (auto split: if_splits intro: accepted_refused take
        dest!: rbuf.kept_packet rbuf.kept_BigData rbuf.kept_FileData)
qed

lemma accepted_checkData:
  assumes "client_at s i = Inr c" and "msg_size (recvBuffer c) = Inr sz"
  shows "ensures (checkData s i ty sz readSize) (accepted_at s i)"
  using assms unfolding checkData_def
  by (intro ensures_rules)
    (auto intro!: accepted_refused accepted_acceptData simp: accepted_buffer_def checked_iff sizeof_defs)

lemma ReadFrom_client_frame:
  assumes "ReadFrom_client s i off n nb = Inr (r, s')" and "client_at s i = Inr c"
  shows "\<exists>c'. client_at s' i = Inr c' \<and> crcTable s' = crcTable s \<and>
    (\<forall>o2 m. o2 + m \<le> off \<longrightarrow> load (recvBuffer c') o2 m = load (recvBuffer c) o2 m)"
proof -
  from assms obtain b bs k where s': "s' = put_client (s\<lparr>net := (net s)(socket c := k)\<rparr>) i (c\<lparr>recvBuffer := b\<rparr>)"
    and b: "store (recvBuffer c) off bs = Inr b"
    by (auto simp: ReadFrom_client_def bindR_Inr_iff)
  have "i < length (s_Client_t s)" using assms(2) by (simp add: client_at_Inr_iff)
  with b show ?thesis unfolding s' by (auto dest: load_store_other)
qed

lemma accepted_processData: "ensures (processData s i ty) (accepted_at s i)"
proof -
  have "ensures (checkData s1 i ty sz readSize) (accepted_at s i)"
    if c: "client_at s i = Inr c" "msg_size (recvBuffer c) = Inr sz"
      and rd: "ReadFrom_client s i 12 n nb = Inr (readSize, s1)" for c sz n nb readSize s1
  proof -
    from ReadFrom_client_frame [OF rd c(1)] obtain c' where
      c': "client_at s1 i = Inr c'" "crcTable s1 = crcTable s"
        "load (recvBuffer c') 8 4 = load (recvBuffer c) 8 4" by auto
    have "msg_size (recvBuffer c') = Inr sz" using c(2) c'(3) by (simp add: msg_size_def rd32_def)
    from accepted_checkData [OF c'(1) this] show ?thesis
      using accepted_via [OF c'(2)] by (auto simp: ensures_def)
  qed
  then show ?thesis
    unfolding processData_def sizeof_defs
    by (intro ensures_rules) (auto intro: accepted_refused)
qed

lemma accepted_processRegister: "ensures (processRegister s i) (accepted_at s i)"
  unfolding processRegister_def by (intro ensures_rules) (simp_all add: accepted_refused)

lemma accepted_processRetrasmit: "ensures (processRetrasmit s i) (accepted_at s i)"
  unfolding processRetrasmit_def by (intro ensures_rules) (simp_all add: accepted_refused)

lemma accepted_processMessageBuffer: "ensures (processMessageBuffer s i) (accepted_at s i)"
proof -
  have all: "ensures (if ty = STSOCKMSG_REGISTER then processRegister s2 i
      else if ty = STSOCKMSG_RETRASMIT then processRetrasmit s2 i
      else if ty = STSOCKMSG_PING then Inr (-1, s2) else processData s2 i ty) (accepted_at s2 i)" for s2 ty
    by (simp add: accepted_processRegister accepted_processRetrasmit accepted_processData ensures_Inr
        accepted_refused)
  have via: "crcTable s2 = crcTable s \<Longrightarrow> ensures m (accepted_at s2 i) \<Longrightarrow> ensures m (accepted_at s i)" for s2 m
    by (auto simp: ensures_def intro: accepted_via)
  have same: "on_client s i (\<lambda>c. Inr (c\<lparr>recvCount := 0\<rparr>)) = Inr s1 \<Longrightarrow>
      ReadFrom_client s1 i 0 n nb = Inr p \<Longrightarrow> p = (r, s2) \<Longrightarrow> crcTable s2 = crcTable s" for s1 n nb p r s2
    by (auto simp: on_client_def ReadFrom_client_def bindR_Inr_iff)
  show ?thesis
    unfolding processMessageBuffer_def
  proof (rule ensures_bind, rule ensures_bind, rule ensures_prod, rule ensures_if)
    fix s1 p readSize s2
    assume s1: "on_client s i (\<lambda>c. Inr (c\<lparr>recvCount := 0\<rparr>)) = Inr s1"
      and p: "ReadFrom_client s1 i 0 sizeof_DATASIZE False = Inr p" "p = (readSize, s2)"
    show "ensures (bindR (go_offline s2 i) (\<lambda>s. Inr (-1, s))) (accepted_at s i)"
      by (intro ensures_bind ensures_Inr accepted_refused) simp
    show "ensures (bindR (client_at s2 i) (\<lambda>c. bindR (msg_type (recvBuffer c)) (\<lambda>ty.
        if ty = STSOCKMSG_REGISTER then processRegister s2 i
        else if ty = STSOCKMSG_RETRASMIT then processRetrasmit s2 i
        else if ty = STSOCKMSG_PING then Inr (-1, s2) else processData s2 i ty))) (accepted_at s i)"
      by (intro ensures_bind via [OF same [OF s1 p]] all)
  qed
qed

text \<open>C11: Nothing is accepted unchecked: when \<open>processMessageBuffer\<close> reports a data packet to the
application, the receive buffer holds a packet whose checksum field is the CRC-16 of the bytes its
size field spans, and the packet number recorded for the client is the one in the packet.\<close>

theorem accepted_has_checksum:
  assumes "processMessageBuffer s i = Inr (0, s')"
  shows "\<exists>c sz crc. client_at s' i = Inr c \<and> msg_size (recvBuffer c) = Inr sz \<and> rd16 (recvBuffer c) 12 = Inr crc \<and>
    STOS_CRC16 (crcTable s) (recvBuffer c) 16 (ucast (sz - 4)) = Inr crc \<and>
    msg_packNo (recvBuffer c) = Inr (packRef c)"
  using ensuresD [OF accepted_processMessageBuffer assms]
  by (auto simp: accepted_at_def accepted_buffer_def checked_iff)

theorem accepted_has_checksum_witness:
  "\<exists>s' c. processMessageBuffer wit_server 0 = Inr (0, s') \<and> client_at s' 0 = Inr c \<and>
     msg_packNo (recvBuffer c) = Inr (packRef c)"
  using received_message [OF wit_facts] accepted_has_checksum [of wit_server 0] by blast

end
