(* ===== verification/Star_Room.thy ===== *)
theory Star_Room
  imports Star_State
begin

text \<open>
  The rooms of the lobby (the code between \<open>#ifdef USE_LOBBY\<close>) and \<open>DestroyClientRoom\<close>. A
  \<open>Client_t *\<close> in \<open>joinRoom\<close> is the index of the client. The room mutex of one thread: locking it
  twice waits for ever.
\<close>

section \<open>Operations\<close>

definition STSV_MAX_PLAYER_PER_ROOM :: nat where "STSV_MAX_PLAYER_PER_ROOM = 20"

text \<open>\<open>roomIdx\<close> of a client is a \<open>short\<close>: a room number is cut to 16 bits when it is stored.\<close>

definition to_s16 :: "int \<Rightarrow> int" where
  "to_s16 n = sint (word_of_int n :: s16)"

lemma to_s16_id: "0 \<le> n \<Longrightarrow> n < 2 ^ 15 \<Longrightarrow> to_s16 n = n"
  by (simp add: to_s16_def sint_uint uint_word_of_int signed_take_bit_int_eq_self)

text \<open>A room that \<open>memset\<close> has cleared.\<close>

definition cleared_room :: SERVER_ROOM_DESC where
  "cleared_room = \<lparr>numClient = 0, roomName = replicate 32 NUL,
     joinRoom = replicate STSV_MAX_PLAYER_PER_ROOM None, mutexRoom = False\<rparr>"

definition room_at :: "server \<Rightarrow> int \<Rightarrow> SERVER_ROOM_DESC result" where
  "room_at s r = get_at (s_Room_t s) r"

definition put_room :: "server \<Rightarrow> int \<Rightarrow> SERVER_ROOM_DESC \<Rightarrow> server" where
  "put_room s r x = s\<lparr>s_Room_t := (s_Room_t s)[nat r := x]\<rparr>"

definition FindFreeIdxRoom :: "server \<Rightarrow> int result" where
  "FindFreeIdxRoom s = find_slot (\<lambda>x. numClient x = 0) (s_Room_t s) 0 (nat (s_nMaxRoom (cfg s)))"

definition STSV_ClearRoom :: "server \<Rightarrow> int \<Rightarrow> (int \<times> server) result" where
  "STSV_ClearRoom s r = bindR (room_at s r) (\<lambda>_. Inr (0, put_room s r cleared_room))"

text \<open>
  The mutex is held for the search only: it is given back before the room that was found is taken. For one thread
  it makes no difference, and here it is left out but for the wait when another has it; the statements one by one, in
  several threads, are below (\<open>create_step\<close>).
\<close>

definition STSV_CreateRoom :: "server \<Rightarrow> nat \<Rightarrow> (int \<times> server) result" where
  "STSV_CreateRoom s i =
     bindR (client_at s i) (\<lambda>c.
       if 0 \<le> roomIdx c then Inr (-2, s)
       else if s_MutexFreeRoomIdx s then Inl Deadlock
       else
         bindR (FindFreeIdxRoom s) (\<lambda>roomFound.
           if roomFound = -1 then Inr (-1, s)
           else
             bindR (set_at (joinRoom cleared_room) 0 (Some i)) (\<lambda>js.
               (let s = put_room s roomFound (cleared_room\<lparr>joinRoom := js, numClient := 1\<rparr>);
                    s = put_client s i (c\<lparr>roomIdx := to_s16 roomFound\<rparr>)
                in Inr (roomFound, s\<lparr>cfg := (cfg s)\<lparr>s_nRoomCount := s_nRoomCount (cfg s) + 1\<rparr>\<rparr>)))))"

text \<open>A member behind the last one counted.\<close>

definition add_member :: "SERVER_ROOM_DESC \<Rightarrow> nat \<Rightarrow> SERVER_ROOM_DESC result" where
  "add_member x i =
     bindR (set_at (joinRoom x) (numClient x) (Some i)) (\<lambda>js.
       Inr (x\<lparr>joinRoom := js, numClient := numClient x + 1\<rparr>))"

definition STSV_JoinFreeRoom :: "server \<Rightarrow> nat \<Rightarrow> (int \<times> server) result" where
  "STSV_JoinFreeRoom s i =
     bindR (find_slot (\<lambda>x. 0 < numClient x \<and> numClient x < int STSV_MAX_PLAYER_PER_ROOM) (s_Room_t s) 0
         (nat (s_nMaxRoom (cfg s)))) (\<lambda>r.
       if r = -1 then Inr (-1, s)
       else bindR (room_at s r) (\<lambda>x. bindR (add_member x i) (\<lambda>x. Inr (r, put_room s r x))))"

definition lock_room :: "SERVER_ROOM_DESC \<Rightarrow> SERVER_ROOM_DESC result" where
  "lock_room x = (if mutexRoom x then Inl Deadlock else Inr (x\<lparr>mutexRoom := True\<rparr>))"

definition unlock_room :: "SERVER_ROOM_DESC \<Rightarrow> SERVER_ROOM_DESC" where
  "unlock_room x = x\<lparr>mutexRoom := False\<rparr>"

text \<open>The guard on \<open>roomID\<close> and the two calls of \<open>pthread_mutex_lock\<close> are the code's.\<close>

definition STSV_JoinRoom :: "server \<Rightarrow> nat \<Rightarrow> int \<Rightarrow> (bool \<times> server) result" where
  "STSV_JoinRoom s i roomID =
     (if roomID < 0 \<and> s_nMaxRoom (cfg s) \<le> roomID then Inr (False, s)
      else
        bindR (room_at s roomID) (\<lambda>x.
          if numClient x = 0 then Inr (False, s)
          else if numClient x < int STSV_MAX_PLAYER_PER_ROOM then
            bindR (lock_room x) (\<lambda>x.
            bindR (add_member x i) (\<lambda>x.
            bindR (client_at s i) (\<lambda>c.
            bindR (lock_room x) (\<lambda>x.
              Inr (True, put_client (put_room s roomID x) i (c\<lparr>roomIdx := to_s16 roomID\<rparr>))))))
          else Inr (False, s)))"

definition STSV_RoomOwner :: "server \<Rightarrow> nat \<Rightarrow> bool result" where
  "STSV_RoomOwner s i =
     bindR (client_at s i) (\<lambda>c.
       if roomIdx c < 0 then Inr False
       else bindR (room_at s (roomIdx c)) (\<lambda>x.
         bindR (get_at (joinRoom x) 0) (\<lambda>m. Inr (m = Some i))))"

definition STSV_GetNumPlayer :: "server \<Rightarrow> int \<Rightarrow> int result" where
  "STSV_GetNumPlayer s r = bindR (room_at s r) (\<lambda>x. Inr (numClient x))"

definition STSV_GetRoomCount :: "server \<Rightarrow> int" where
  "STSV_GetRoomCount s = s_nRoomCount (cfg s)"

text \<open>
  The client's first place among the counted members is emptied; its \<open>roomIdx\<close> stays. The loop
  reads \<open>joinRoom\<close> out of its bounds only when \<open>numClient\<close> is beyond them.
\<close>

definition DestroyClientRoom :: "server \<Rightarrow> nat \<Rightarrow> (int \<times> server) result" where
  "DestroyClientRoom s i =
     bindR (client_at s i) (\<lambda>c.
       if 0 \<le> roomIdx c then
         bindR (room_at s (roomIdx c)) (\<lambda>x.
         bindR (find_slot (\<lambda>m. m = Some i) (joinRoom x) 0 (nat (numClient x))) (\<lambda>k.
           if k = -1 then Inr (-1, s)
           else
             bindR (lock_room x) (\<lambda>x.
             bindR (set_at (joinRoom x) k None) (\<lambda>js.
               Inr (0, put_room s (roomIdx c)
                 (unlock_room (x\<lparr>joinRoom := js, numClient := numClient x - 1\<rparr>)))))))
       else Inr (-1, s))"

definition STSV_ExitRoom :: "server \<Rightarrow> nat \<Rightarrow> (int \<times> server) result" where
  "STSV_ExitRoom s i =
     bindR (client_at s i) (\<lambda>c.
       if 0 \<le> roomIdx c then
         bindR (DestroyClientRoom s i) (\<lambda>(_, s).
         bindR (room_at s (roomIdx c)) (\<lambda>x. Inr (numClient x, s)))
       else Inr (0, s))"

definition STSV_SendConfirmCreateRoom :: "server \<Rightarrow> nat \<Rightarrow> s32 \<Rightarrow> server result" where
  "STSV_SendConfirmCreateRoom s i roomID = send_header s i STSOCKMSG_CONFIRM_CREATE_ROOM roomID"

definition STSV_SendConfirmJoinRoom :: "server \<Rightarrow> nat \<Rightarrow> s32 \<Rightarrow> server result" where
  "STSV_SendConfirmJoinRoom s i roomID = send_header s i STSOCKMSG_CONFIRM_JOIN_ROOM roomID"

definition STSV_SendConfimrExitRoom :: "server \<Rightarrow> nat \<Rightarrow> s32 \<Rightarrow> server result" where
  "STSV_SendConfimrExitRoom s i roomID = send_header s i STSOCKMSG_CONFIRM_EXTI_ROOM roomID"

section \<open>The table of rooms\<close>

text \<open>
  What the operations keep, from a table of cleared rooms on: the arrays at their sizes, and never
  more members than are counted.
\<close>

definition occupied :: "nat option list \<Rightarrow> nat" where
  "occupied js = length (filter (\<lambda>m. m \<noteq> None) js)"

definition wf_room :: "SERVER_ROOM_DESC \<Rightarrow> bool" where
  "wf_room x \<longleftrightarrow> length (joinRoom x) = STSV_MAX_PLAYER_PER_ROOM \<and> \<not> mutexRoom x \<and>
     int (occupied (joinRoom x)) \<le> numClient x \<and> numClient x \<le> int STSV_MAX_PLAYER_PER_ROOM"

definition wf_rooms :: "server \<Rightarrow> bool" where
  "wf_rooms s \<longleftrightarrow> int (length (s_Room_t s)) = s_nMaxRoom (cfg s) \<and> (\<forall>x \<in> set (s_Room_t s). wf_room x)"

lemma occupied_pos: "k < length js \<Longrightarrow> js ! k \<noteq> None \<Longrightarrow> 0 < occupied js"
  unfolding occupied_def length_greater_0_conv filter_empty_conv by (meson nth_mem)

lemma occupied_update:
  "k < length js \<Longrightarrow> occupied (js[k := m]) =
     occupied js - (if js ! k \<noteq> None then 1 else 0) + (if m \<noteq> None then 1 else 0)"
proof (induction js arbitrary: k)
  case (Cons j js)
  show ?case
  proof (cases k)
    case 0
    then show ?thesis by (simp add: occupied_def)
  next
    case (Suc l)
    then have "l < length js" using Cons.prems by simp
    moreover have "js ! l \<noteq> None \<Longrightarrow> 0 < occupied js"
      using \<open>l < length js\<close> by (rule occupied_pos)
    ultimately show ?thesis using Cons.IH [of l] Suc by (auto simp: occupied_def)
  qed
qed simp

lemma occupied_replicate [simp]: "occupied (replicate n None) = 0"
  by (simp add: occupied_def)

lemma cleared_room_simps [simp]:
  "numClient cleared_room = 0" "joinRoom cleared_room = replicate 20 None" "mutexRoom cleared_room = False"
  by (simp_all add: cleared_room_def STSV_MAX_PLAYER_PER_ROOM_def)

lemma wf_cleared_room: "wf_room cleared_room"
  by (simp add: wf_room_def STSV_MAX_PLAYER_PER_ROOM_def)

lemma wf_room_add:
  assumes "wf_room x" and "0 \<le> numClient x" and "numClient x < int STSV_MAX_PLAYER_PER_ROOM"
    and "add_member x i = Inr y"
  shows "wf_room y"
proof -
  from assms(4) have y: "y = x\<lparr>joinRoom := (joinRoom x)[nat (numClient x) := Some i], numClient := numClient x + 1\<rparr>"
    and k: "nat (numClient x) < length (joinRoom x)"
    by (auto simp: add_member_def bindR_Inr_iff set_at_Inr_iff)
  have "occupied ((joinRoom x)[nat (numClient x) := Some i]) \<le> occupied (joinRoom x) + 1"
    using k by (simp add: occupied_update)
  with assms(1,3) show ?thesis by (simp add: y wf_room_def)
qed

lemma wf_room_remove:
  assumes "wf_room x" and "k < length (joinRoom x)" and "joinRoom x ! k = Some i"
  shows "wf_room (x\<lparr>joinRoom := (joinRoom x)[k := None], numClient := numClient x - 1, mutexRoom := False\<rparr>)"
  using assms occupied_pos [of k "joinRoom x"] by (auto simp: wf_room_def occupied_update)

lemma wf_rooms_put:
  assumes "wf_rooms s" and "wf_room x"
  shows "wf_rooms (put_room s r x)"
  using assms by (auto simp: wf_rooms_def put_room_def dest!: set_update_subset_insert [THEN subsetD])

lemma wf_rooms_client [simp]: "wf_rooms (put_client s i c) = wf_rooms s"
  by (simp add: wf_rooms_def)

lemma wf_rooms_cfg [simp]: "s_nMaxRoom k = s_nMaxRoom (cfg s) \<Longrightarrow> wf_rooms (s\<lparr>cfg := k\<rparr>) = wf_rooms s"
  by (simp add: wf_rooms_def)

lemma put_room_frame [simp]:
  "cfg (put_room s r x) = cfg s" "s_Client_t (put_room s r x) = s_Client_t s"
  "length (s_Room_t (put_room s r x)) = length (s_Room_t s)"
  by (simp_all add: put_room_def)

lemma wf_rooms_at: "wf_rooms s \<Longrightarrow> room_at s r = Inr x \<Longrightarrow> wf_room x"
  by (auto simp: wf_rooms_def room_at_def get_at_Inr_iff)

text \<open>The search for a free room is the shared search of a table.\<close>

definition free_room :: "server \<Rightarrow> int" where
  "free_room s = first_free (\<lambda>r. numClient (s_Room_t s ! r) = 0) 0 (nat (s_nMaxRoom (cfg s)))"

interpretation rooms: slot_search "\<lambda>s. nat (s_nMaxRoom (cfg s))" "\<lambda>s r. numClient (s_Room_t s ! r) = 0" free_room
  by unfold_locales (simp add: free_room_def)

lemma wf_rooms_length: "wf_rooms s \<Longrightarrow> nat (s_nMaxRoom (cfg s)) = length (s_Room_t s)"
  unfolding wf_rooms_def by (metis nat_int)

lemma FindFreeIdxRoom_eq: "wf_rooms s \<Longrightarrow> FindFreeIdxRoom s = Inr (free_room s)"
  unfolding FindFreeIdxRoom_def free_room_def by (rule find_slot_first_free) (simp add: wf_rooms_length)

lemma CreateRoom_cases:
  assumes "STSV_CreateRoom s i = Inr (r, s')"
  obtains "s' = s" "r < 0"
    | c where "client_at s i = Inr c" "roomIdx c < 0" "FindFreeIdxRoom s = Inr r" "r \<noteq> -1"
      "s' = (put_client (put_room s r (cleared_room\<lparr>joinRoom := (replicate 20 None)[0 := Some i], numClient := 1\<rparr>))
        i (c\<lparr>roomIdx := to_s16 r\<rparr>))\<lparr>cfg := (cfg s)\<lparr>s_nRoomCount := s_nRoomCount (cfg s) + 1\<rparr>\<rparr>"
proof -
  from assms obtain c where c: "client_at s i = Inr c"
    by (auto simp: STSV_CreateRoom_def bindR_Inr_iff)
  show ?thesis
  proof (cases "s' = s \<and> r < 0")
    case False
    with assms c have "roomIdx c < 0" "FindFreeIdxRoom s = Inr r" "r \<noteq> -1"
      "s' = (put_client (put_room s r (cleared_room\<lparr>joinRoom := (replicate 20 None)[0 := Some i], numClient := 1\<rparr>))
        i (c\<lparr>roomIdx := to_s16 r\<rparr>))\<lparr>cfg := (cfg s)\<lparr>s_nRoomCount := s_nRoomCount (cfg s) + 1\<rparr>\<rparr>"
      by (simp_all add: STSV_CreateRoom_def bindR_Inr_iff set_at_Inr_iff Let_def split: if_splits)
        (auto simp: put_client_def put_room_def)
    with c that(2) show ?thesis by blast
  qed (use that(1) in blast)
qed

lemma wf_CreateRoom:
  assumes "wf_rooms s" and "STSV_CreateRoom s i = Inr (r, s')"
  shows "wf_rooms s'"
proof -
  have one: "wf_room (cleared_room\<lparr>joinRoom := (replicate 20 None)[0 := Some i], numClient := 1\<rparr>)"
    by (simp add: wf_room_def STSV_MAX_PLAYER_PER_ROOM_def occupied_update)
  from assms(2) show ?thesis
  proof (cases rule: CreateRoom_cases)
    case 1
    with assms(1) show ?thesis by simp
  next
    case (2 c)
    have "wf_rooms (put_client (put_room s r (cleared_room\<lparr>joinRoom := (replicate 20 None)[0 := Some i],
        numClient := 1\<rparr>)) i (c\<lparr>roomIdx := to_s16 r\<rparr>))"
      using wf_rooms_put [OF assms(1) one] by simp
    then show ?thesis unfolding 2(5) by (subst wf_rooms_cfg) simp_all
  qed
qed

lemma wf_JoinFreeRoom:
  assumes "wf_rooms s" and "STSV_JoinFreeRoom s i = Inr (r, s')"
  shows "wf_rooms s'"
proof -
  let ?free = "\<lambda>x. 0 < numClient x \<and> numClient x < int STSV_MAX_PLAYER_PER_ROOM"
  from assms(2) obtain k where k: "find_slot ?free (s_Room_t s) 0 (nat (s_nMaxRoom (cfg s))) = Inr k"
    by (auto simp: STSV_JoinFreeRoom_def bindR_Inr_iff)
  then show ?thesis
  proof (cases rule: find_slot_cases)
    case 1
    with assms k show ?thesis by (simp add: STSV_JoinFreeRoom_def)
  next
    case (2 j)
    then obtain y where y: "add_member (s_Room_t s ! j) i = Inr y" "s' = put_room s (int j) y"
      using assms(2) k by (auto simp: STSV_JoinFreeRoom_def bindR_Inr_iff room_at_def get_at_nat)
    have "wf_room (s_Room_t s ! j)" using assms(1) 2 by (simp add: wf_rooms_def)
    then have "wf_room y" using y(1) 2 by (auto intro: wf_room_add)
    with assms(1) show ?thesis unfolding y(2) by (rule wf_rooms_put)
  qed
qed

lemma wf_DestroyClientRoom:
  assumes "wf_rooms s" and "DestroyClientRoom s i = Inr (r, s')"
  shows "wf_rooms s'"
proof (cases "s' = s")
  case False
  with assms(2) obtain c x k js where c: "client_at s i = Inr c" "room_at s (roomIdx c) = Inr x"
    "find_slot (\<lambda>m. m = Some i) (joinRoom x) 0 (nat (numClient x)) = Inr k" "k \<noteq> -1"
    "set_at (joinRoom x) k None = Inr js"
    "s' = put_room s (roomIdx c) (x\<lparr>joinRoom := js, numClient := numClient x - 1, mutexRoom := False\<rparr>)"
    by (auto simp: DestroyClientRoom_def bindR_Inr_iff lock_room_def unlock_room_def split: if_splits)
  from c(3) show ?thesis
  proof (cases rule: find_slot_cases)
    case (2 j)
    have "wf_room x" using assms(1) c(2) by (rule wf_rooms_at)
    with 2 c(5) have "wf_room (x\<lparr>joinRoom := js, numClient := numClient x - 1, mutexRoom := False\<rparr>)"
      by (auto simp: set_at_Inr_iff intro: wf_room_remove)
    with assms(1) show ?thesis unfolding c(6) by (rule wf_rooms_put)
  qed (use c(4) in simp)
qed (use assms(1) in simp)

section \<open>Properties\<close>

text \<open>
  The life of the lobby: rooms are created, joined, left and cleared, in any order, one call after another (the
  calls of several threads at the same time are below).
\<close>

inductive room_steps :: "server \<Rightarrow> server \<Rightarrow> bool" where
  room_start: "room_steps s s"
| room_create: "room_steps s s1 \<Longrightarrow> STSV_CreateRoom s1 i = Inr (r, s2) \<Longrightarrow> room_steps s s2"
| room_join: "room_steps s s1 \<Longrightarrow> STSV_JoinFreeRoom s1 i = Inr (r, s2) \<Longrightarrow> room_steps s s2"
| room_enter: "room_steps s s1 \<Longrightarrow> STSV_JoinRoom s1 i k = Inr (b, s2) \<Longrightarrow> room_steps s s2"
| room_leave: "room_steps s s1 \<Longrightarrow> DestroyClientRoom s1 i = Inr (r, s2) \<Longrightarrow> room_steps s s2"
| room_exit: "room_steps s s1 \<Longrightarrow> STSV_ExitRoom s1 i = Inr (r, s2) \<Longrightarrow> room_steps s s2"
| room_clear: "room_steps s s1 \<Longrightarrow> STSV_ClearRoom s1 k = Inr (r, s2) \<Longrightarrow> room_steps s s2"

lemma wf_ExitRoom: "wf_rooms s \<Longrightarrow> STSV_ExitRoom s i = Inr (r, s') \<Longrightarrow> wf_rooms s'"
  by (auto simp: STSV_ExitRoom_def bindR_Inr_iff split: if_splits dest: wf_DestroyClientRoom)

lemma wf_ClearRoom: "wf_rooms s \<Longrightarrow> STSV_ClearRoom s k = Inr (r, s') \<Longrightarrow> wf_rooms s'"
  by (auto simp: STSV_ClearRoom_def bindR_Inr_iff wf_cleared_room intro: wf_rooms_put)

text \<open>A call of \<open>STSV_JoinRoom\<close> that returns has changed nothing.\<close>

lemma JoinRoom_same: "STSV_JoinRoom s i k = Inr (b, s') \<Longrightarrow> s' = s"
  by (auto simp: STSV_JoinRoom_def bindR_Inr_iff lock_room_def add_member_def split: if_splits)

lemmas wf_room_operations = wf_CreateRoom wf_JoinFreeRoom wf_DestroyClientRoom wf_ExitRoom wf_ClearRoom

lemma room_steps_wf: "room_steps s s' \<Longrightarrow> wf_rooms s \<Longrightarrow> wf_rooms s'"
  by (induction rule: room_steps.induct) (auto dest: wf_room_operations JoinRoom_same)

lemma wf_room_empty: "wf_room x \<Longrightarrow> numClient x = 0 \<Longrightarrow> j < STSV_MAX_PLAYER_PER_ROOM \<Longrightarrow> joinRoom x ! j = None"
  using occupied_pos [of j "joinRoom x"] by (cases "joinRoom x ! j") (auto simp: wf_room_def)

text \<open>C29: When one call comes after another, no client is put out of a room by another's new room: in a lobby
that started with cleared rooms, whatever was created, joined, entered, left and cleared since, the room that
\<open>STSV_CreateRoom\<close> hands out has no member, and gets its creator as its only one; the other rooms and the
well-formedness of the table are kept. The creator is the owner as far as the number of the room fits the 16
bits of \<open>roomIdx\<close>. Calls of two threads at the same time are not protected (\<open>two_creators_one_room\<close>).\<close>

theorem CreateRoom_takes_an_empty_room:
  assumes "wf_rooms s" and "room_steps s s1" and "STSV_CreateRoom s1 i = Inr (r, s2)" and "0 \<le> r"
  shows "wf_rooms s2 \<and> nat r < length (s_Room_t s1) \<and>
    (\<forall>j < STSV_MAX_PLAYER_PER_ROOM. joinRoom (s_Room_t s1 ! nat r) ! j = None) \<and>
    joinRoom (s_Room_t s2 ! nat r) = Some i # replicate 19 None \<and> STSV_GetNumPlayer s2 r = Inr 1 \<and>
    (r < 2 ^ 15 \<longrightarrow> STSV_RoomOwner s2 i = Inr True) \<and>
    (\<forall>k. k \<noteq> nat r \<longrightarrow> s_Room_t s2 ! k = s_Room_t s1 ! k)"
proof -
  have wf: "wf_rooms s1" using assms(2,1) by (rule room_steps_wf)
  have wf2: "wf_rooms s2" using wf assms(3) by (rule wf_CreateRoom)
  from assms(3) show ?thesis
  proof (cases rule: CreateRoom_cases)
    case (2 c)
    have found: "free_room s1 = int (nat r)" using 2(3) assms(4) wf by (simp add: FindFreeIdxRoom_eq)
    have r: "nat r < length (s_Room_t s1)" "numClient (s_Room_t s1 ! nat r) = 0"
      using rooms.found_free [OF found] wf_rooms_length [OF wf] by simp_all
    then have "wf_room (s_Room_t s1 ! nat r)" using wf by (simp add: wf_rooms_def)
    then have "\<forall>j < STSV_MAX_PLAYER_PER_ROOM. joinRoom (s_Room_t s1 ! nat r) ! j = None"
      using r(2) wf_room_empty by blast
    moreover have "i < length (s_Client_t s1)" using 2(1) by (simp add: client_at_Inr_iff)
    ultimately show ?thesis
      using wf2 r assms(4) to_s16_id [OF assms(4)]
      by (simp add: 2(5) STSV_RoomOwner_def STSV_GetNumPlayer_def client_at_def get_at_def room_at_def
          put_client_def put_room_def numeral_eq_Suc)
  qed (use assms(4) in simp)
qed

text \<open>\<open>STSV_JoinRoom\<close> never lets a client in: on a room with a member and a place left it locks the
room's mutex a second time where it should unlock it, and the thread waits for ever.\<close>

lemma JoinRoom_deadlocks:
  assumes "room_at s roomID = Inr x" and "wf_room x" and "0 < numClient x"
    and "numClient x < int STSV_MAX_PLAYER_PER_ROOM" and "client_at s i = Inr c"
  shows "STSV_JoinRoom s i roomID = Inl Deadlock"
proof -
  have "0 \<le> roomID" using assms(1) by (simp add: room_at_def get_at_Inr_iff)
  moreover have "nat (numClient x) < length (joinRoom x)" "\<not> mutexRoom x"
    using assms(2-4) by (simp_all add: wf_room_def)
  ultimately show ?thesis
    using assms(1,3-5) by (simp add: STSV_JoinRoom_def lock_room_def add_member_def set_at_def)
qed

text \<open>A client that \<open>STSV_JoinFreeRoom\<close> has let into a room never leaves it: the function does not
record the room in the client, so leaving it, on request or when the client disconnects, finds
nothing to do and the place stays taken.\<close>

lemma JoinFreeRoom_never_leaves:
  assumes "STSV_JoinFreeRoom s i = Inr (r, s')" and "client_at s i = Inr c" and "roomIdx c < 0"
  shows "DestroyClientRoom s' i = Inr (-1, s') \<and> STSV_ExitRoom s' i = Inr (0, s')"
proof -
  have "client_at s' i = Inr c"
    using assms(1,2) by (auto simp: STSV_JoinFreeRoom_def bindR_Inr_iff client_at_def put_room_def split: if_splits)
  with assms(3) show ?thesis by (simp add: DestroyClientRoom_def STSV_ExitRoom_def)
qed

text \<open>A client that has left its room cannot create another one: \<open>roomIdx\<close> is not reset.\<close>

lemma no_room_after_exit:
  assumes "client_at s i = Inr c" and "0 \<le> roomIdx c" and "STSV_ExitRoom s i = Inr (n, s')"
  shows "STSV_CreateRoom s' i = Inr (-2, s')"
proof -
  have "client_at s' i = Inr c"
    using assms by (auto simp: STSV_ExitRoom_def DestroyClientRoom_def bindR_Inr_iff client_at_def put_room_def
        split: if_splits)
  with assms(2) show ?thesis by (simp add: STSV_CreateRoom_def)
qed

text \<open>A lobby of two rooms, and two clients that are in no room.\<close>

definition lobby :: server where
  "lobby = (fresh_server [(fresh_client 0)\<lparr>roomIdx := -1\<rparr>, (fresh_client 0)\<lparr>roomIdx := -1\<rparr>])\<lparr>
     cfg := fresh_config\<lparr>s_nMaxRoom := 2\<rparr>, s_Room_t := [cleared_room, cleared_room]\<rparr>"

definition owned_room :: SERVER_ROOM_DESC where
  "owned_room = cleared_room\<lparr>joinRoom := Some 0 # replicate 19 None, numClient := 1\<rparr>"

definition lobby_owned :: server where
  "lobby_owned = lobby\<lparr>cfg := fresh_config\<lparr>s_nMaxRoom := 2, s_nRoomCount := 1\<rparr>,
     s_Room_t := [owned_room, cleared_room],
     s_Client_t := [(fresh_client 0)\<lparr>roomIdx := 0\<rparr>, (fresh_client 0)\<lparr>roomIdx := -1\<rparr>]\<rparr>"

lemma lobby_create: "STSV_CreateRoom lobby 0 = Inr (0, lobby_owned)"
  by (simp add: STSV_CreateRoom_def lobby_def lobby_owned_def owned_room_def fresh_server_def client_at_def
      get_at_def set_at_def FindFreeIdxRoom_def put_room_def put_client_def fresh_client_def
      init_sendBufferMSG_def fresh_config_def to_s16_id numeral_eq_Suc)

lemma wf_lobby: "wf_rooms lobby"
  by (simp add: wf_rooms_def lobby_def wf_cleared_room)

theorem CreateRoom_takes_an_empty_room_witness:
  "wf_rooms lobby_owned \<and> STSV_RoomOwner lobby_owned 0 = Inr True \<and> STSV_GetNumPlayer lobby_owned 0 = Inr 1"
  using CreateRoom_takes_an_empty_room [OF wf_lobby room_start lobby_create] by simp

lemma lobby_facts:
  "room_at lobby_owned 0 = Inr owned_room" "wf_room owned_room" "0 < numClient owned_room"
  "numClient owned_room < int STSV_MAX_PLAYER_PER_ROOM"
  "client_at lobby_owned 1 = Inr ((fresh_client 0)\<lparr>roomIdx := -1\<rparr>)"
  "client_at lobby_owned 0 = Inr ((fresh_client 0)\<lparr>roomIdx := 0\<rparr>)"
  by (simp_all add: lobby_owned_def owned_room_def room_at_def get_at_def wf_room_def client_at_def
      STSV_MAX_PLAYER_PER_ROOM_def occupied_def)

lemma JoinRoom_deadlocks_witness: "STSV_JoinRoom lobby_owned 1 0 = Inl Deadlock"
  using JoinRoom_deadlocks [OF lobby_facts(1-5)] .

definition lobby_joined :: server where
  "lobby_joined = put_room lobby_owned 0 (owned_room\<lparr>joinRoom := Some 0 # Some 1 # replicate 18 None, numClient := 2\<rparr>)"

lemma lobby_join: "STSV_JoinFreeRoom lobby_owned 1 = Inr (0, lobby_joined)"
  by (simp add: STSV_JoinFreeRoom_def lobby_joined_def lobby_owned_def owned_room_def get_at_def set_at_def
      room_at_def add_member_def put_room_def STSV_MAX_PLAYER_PER_ROOM_def numeral_eq_Suc)

lemma JoinFreeRoom_never_leaves_witness:
  "DestroyClientRoom lobby_joined 1 = Inr (-1, lobby_joined) \<and> STSV_GetNumPlayer lobby_joined 0 = Inr 2"
  using JoinFreeRoom_never_leaves [OF lobby_join lobby_facts(5)]
  by (simp add: STSV_GetNumPlayer_def lobby_joined_def room_at_def get_at_def put_room_def lobby_owned_def)

lemma no_room_after_exit_witness:
  "\<exists>s. STSV_ExitRoom lobby_owned 0 = Inr (0, s) \<and> STSV_CreateRoom s 0 = Inr (-2, s)"
proof -
  obtain s where s: "STSV_ExitRoom lobby_owned 0 = Inr (0, s)"
    by (simp add: STSV_ExitRoom_def DestroyClientRoom_def lobby_facts lobby_owned_def owned_room_def get_at_def
        set_at_def room_at_def client_at_def lock_room_def put_room_def unlock_room_def)
  from no_room_after_exit [OF lobby_facts(6) _ this] s show ?thesis by auto
qed

section \<open>Several creators\<close>

text \<open>
  \<open>STSV_CreateRoom\<close> statement by statement, in the threads of several clients: the room of the client itself is looked
  at, the mutex is taken, a free room is looked for, the mutex is given back, and only then the room is cleared and
  filled. Thread \<open>t\<close> serves client \<open>t\<close>.
\<close>

datatype create_pc = NotCreating | RoomLocked | RoomSearched int | RoomFound int | RoomCleared int | RoomReturned int

record create_threads =
  lobby_server :: server
  create_at :: "nat \<Rightarrow> create_pc"

definition create_goto :: "create_threads \<Rightarrow> server \<Rightarrow> nat \<Rightarrow> create_pc \<Rightarrow> create_threads" where
  "create_goto p s t pc = p\<lparr>lobby_server := s, create_at := (create_at p)(t := pc)\<rparr>"

definition take_room :: "server \<Rightarrow> nat \<Rightarrow> int \<Rightarrow> server result" where
  "take_room s i r =
     bindR (room_at s r) (\<lambda>x.
     bindR (set_at (joinRoom x) 0 (Some i)) (\<lambda>js.
     bindR (client_at s i) (\<lambda>c.
       (let s = put_room s r (x\<lparr>joinRoom := js, numClient := 1\<rparr>);
            s = put_client s i (c\<lparr>roomIdx := to_s16 r\<rparr>)
        in Inr (s\<lparr>cfg := (cfg s)\<lparr>s_nRoomCount := s_nRoomCount (cfg s) + 1\<rparr>\<rparr>)))))"

inductive create_step :: "create_threads \<Rightarrow> create_threads \<Rightarrow> bool" where
  create_refused: "create_at p t = NotCreating \<Longrightarrow> client_at (lobby_server p) t = Inr c \<Longrightarrow> 0 \<le> roomIdx c \<Longrightarrow>
     create_step p (create_goto p (lobby_server p) t (RoomReturned (-2)))"
| create_lock: "create_at p t = NotCreating \<Longrightarrow> client_at (lobby_server p) t = Inr c \<Longrightarrow> roomIdx c < 0 \<Longrightarrow>
     \<not> s_MutexFreeRoomIdx (lobby_server p) \<Longrightarrow>
     create_step p (create_goto p ((lobby_server p)\<lparr>s_MutexFreeRoomIdx := True\<rparr>) t RoomLocked)"
| create_search: "create_at p t = RoomLocked \<Longrightarrow> FindFreeIdxRoom (lobby_server p) = Inr r \<Longrightarrow>
     create_step p (create_goto p (lobby_server p) t (RoomSearched r))"
| create_unlock: "create_at p t = RoomSearched r \<Longrightarrow>
     create_step p (create_goto p ((lobby_server p)\<lparr>s_MutexFreeRoomIdx := False\<rparr>) t (RoomFound r))"
| create_full: "create_at p t = RoomFound (-1) \<Longrightarrow>
     create_step p (create_goto p (lobby_server p) t (RoomReturned (-1)))"
| create_clear: "create_at p t = RoomFound r \<Longrightarrow> r \<noteq> -1 \<Longrightarrow> STSV_ClearRoom (lobby_server p) r = Inr (n, s') \<Longrightarrow>
     create_step p (create_goto p s' t (RoomCleared r))"
| create_take: "create_at p t = RoomCleared r \<Longrightarrow> take_room (lobby_server p) t r = Inr s' \<Longrightarrow>
     create_step p (create_goto p s' t (RoomReturned r))"

lemma create_goto_simps [simp]:
  "lobby_server (create_goto p s t pc) = s" "create_at (create_goto p s t pc) = (create_at p)(t := pc)"
  "create_goto (create_goto p s t pc) s' t pc' = create_goto p s' t pc'"
  by (simp_all add: create_goto_def)

lemma mutex_frame [simp]:
  "FindFreeIdxRoom (s\<lparr>s_MutexFreeRoomIdx := m\<rparr>) = FindFreeIdxRoom s" "client_at (s\<lparr>s_MutexFreeRoomIdx := m\<rparr>) t = client_at s t"
  "\<not> s_MutexFreeRoomIdx s \<Longrightarrow> s\<lparr>s_MutexFreeRoomIdx := False\<rparr> = s"
  by (simp_all add: FindFreeIdxRoom_def client_at_def)

text \<open>One thread: the search, with nobody else in the mutex, and what it does with a room that it has found.\<close>

lemma search_steps:
  assumes "create_at p t = NotCreating" and "client_at (lobby_server p) t = Inr c" and "roomIdx c < 0"
    and "\<not> s_MutexFreeRoomIdx (lobby_server p)" and "FindFreeIdxRoom (lobby_server p) = Inr r"
  shows "create_step\<^sup>*\<^sup>* p (create_goto p (lobby_server p) t (RoomFound r))"
proof -
  let ?s = "(lobby_server p)\<lparr>s_MutexFreeRoomIdx := True\<rparr>"
  have "create_step p (create_goto p ?s t RoomLocked)" using assms(1-4) by (rule create_lock)
  moreover have "create_step (create_goto p ?s t RoomLocked) (create_goto p ?s t (RoomSearched r))"
    using create_search [of "create_goto p ?s t RoomLocked" t r] assms(5) by simp
  moreover have "create_step (create_goto p ?s t (RoomSearched r)) (create_goto p (lobby_server p) t (RoomFound r))"
    using create_unlock [of "create_goto p ?s t (RoomSearched r)" t r] assms(4) by simp
  ultimately show ?thesis by (meson converse_rtranclp_into_rtranclp r_into_rtranclp)
qed

definition new_room :: "nat \<Rightarrow> SERVER_ROOM_DESC" where
  "new_room i = cleared_room\<lparr>joinRoom := Some i # replicate 19 None, numClient := 1\<rparr>"

definition created :: "server \<Rightarrow> nat \<Rightarrow> Client_t \<Rightarrow> int \<Rightarrow> server" where
  "created s i c r = (put_client (put_room s r (new_room i)) i (c\<lparr>roomIdx := to_s16 r\<rparr>))
     \<lparr>cfg := (cfg s)\<lparr>s_nRoomCount := s_nRoomCount (cfg s) + 1\<rparr>\<rparr>"

lemma take_steps:
  assumes "create_at p t = RoomFound r" and "0 \<le> r" and "nat r < length (s_Room_t (lobby_server p))"
    and "client_at (lobby_server p) t = Inr c"
  shows "create_step\<^sup>*\<^sup>* p (create_goto p (created (lobby_server p) t c r) t (RoomReturned r))"
proof -
  let ?s = "put_room (lobby_server p) r cleared_room"
  have "create_step p (create_goto p ?s t (RoomCleared r))"
    using assms by (intro create_clear [of _ _ r 0]) (simp_all add: STSV_ClearRoom_def room_at_def get_at_def)
  moreover have "take_room ?s t r = Inr (created (lobby_server p) t c r)"
    using assms by (simp add: take_room_def room_at_def get_at_def set_at_def put_room_def client_at_def created_def
        new_room_def put_client_def numeral_eq_Suc)
  then have "create_step (create_goto p ?s t (RoomCleared r)) (create_goto p (created (lobby_server p) t c r) t (RoomReturned r))"
    using create_take [of "create_goto p ?s t (RoomCleared r)" t r] by simp
  ultimately show ?thesis by (meson converse_rtranclp_into_rtranclp r_into_rtranclp)
qed

lemma CreateRoom_created:
  assumes "client_at s i = Inr c" and "roomIdx c < 0" and "\<not> s_MutexFreeRoomIdx s" and "FindFreeIdxRoom s = Inr r" and "0 \<le> r"
  shows "STSV_CreateRoom s i = Inr (r, created s i c r)"
  using assms by (simp add: STSV_CreateRoom_def set_at_def created_def new_room_def numeral_eq_Suc)

text \<open>A thread alone does what \<open>STSV_CreateRoom\<close> does.\<close>

lemma create_alone:
  assumes "create_at p t = NotCreating" and "client_at (lobby_server p) t = Inr c" and "roomIdx c < 0"
    and "\<not> s_MutexFreeRoomIdx (lobby_server p)" and "FindFreeIdxRoom (lobby_server p) = Inr r" and "0 \<le> r"
    and "nat r < length (s_Room_t (lobby_server p))"
  shows "\<exists>s'. STSV_CreateRoom (lobby_server p) t = Inr (r, s') \<and> create_step\<^sup>*\<^sup>* p (create_goto p s' t (RoomReturned r))"
proof -
  note search_steps [OF assms(1-5)]
  also have "create_step\<^sup>*\<^sup>* (create_goto p (lobby_server p) t (RoomFound r))
      (create_goto p (created (lobby_server p) t c r) t (RoomReturned r))"
    using take_steps [of "create_goto p (lobby_server p) t (RoomFound r)" t r c] assms by simp
  finally show ?thesis using CreateRoom_created [OF assms(2-6)] by blast
qed

text \<open>
  Two threads that look for a room before either has taken the one it found get the same: both calls return its
  number, the first creator is no longer in it, the second is the owner, and two rooms are counted.
\<close>

lemma two_creators_one_room:
  assumes "wf_rooms s" and "\<not> s_MutexFreeRoomIdx s" and "free_room s = int k" and "k < 2 ^ 15" and "i \<noteq> j"
    and "client_at s i = Inr c" and "roomIdx c < 0" and "client_at s j = Inr d" and "roomIdx d < 0"
  shows "\<exists>p. create_step\<^sup>*\<^sup>* \<lparr>lobby_server = s, create_at = (\<lambda>_. NotCreating)\<rparr> p \<and>
    create_at p i = RoomReturned (int k) \<and> create_at p j = RoomReturned (int k) \<and>
    s_Room_t (lobby_server p) = (s_Room_t s)[k := new_room j] \<and>
    STSV_RoomOwner (lobby_server p) i = Inr False \<and> STSV_RoomOwner (lobby_server p) j = Inr True \<and>
    STSV_GetRoomCount (lobby_server p) = STSV_GetRoomCount s + 2"
proof -
  let ?p0 = "\<lparr>lobby_server = s, create_at = (\<lambda>_. NotCreating)\<rparr>"
  let ?p1 = "create_goto ?p0 s i (RoomFound (int k))"
  let ?p2 = "create_goto ?p1 s j (RoomFound (int k))"
  let ?s3 = "created s i c (int k)" and ?s4 = "created (created s i c (int k)) j d (int k)"
  let ?p3 = "create_goto ?p2 ?s3 i (RoomReturned (int k))"
  let ?p4 = "create_goto ?p3 ?s4 j (RoomReturned (int k))"
  have find: "FindFreeIdxRoom s = Inr (int k)" using FindFreeIdxRoom_eq [OF assms(1)] assms(3) by simp
  have k: "k < length (s_Room_t s)" using rooms.found_free [OF assms(3)] wf_rooms_length [OF assms(1)] by simp
  have d: "client_at ?s3 j = Inr d" "k < length (s_Room_t ?s3)"
    using assms(5,8) k by (simp_all add: created_def client_at_Inr_iff put_client_def)
  have "create_step\<^sup>*\<^sup>* ?p0 ?p1" using search_steps [of ?p0 i c "int k"] assms(2,6,7) find by simp
  also have "create_step\<^sup>*\<^sup>* ?p1 ?p2" using search_steps [of ?p1 j d "int k"] assms(2,5,8,9) find by simp
  also have "create_step\<^sup>*\<^sup>* ?p2 ?p3" using take_steps [of ?p2 i "int k" c] assms(5,6) k by simp
  also have "create_step\<^sup>*\<^sup>* ?p3 ?p4" using take_steps [of ?p3 j "int k" d] assms(5) d by simp
  finally have run: "create_step\<^sup>*\<^sup>* ?p0 ?p4" .
  have rooms: "s_Room_t ?s4 = (s_Room_t s)[k := new_room j]" by (simp add: created_def put_room_def)
  have at: "client_at ?s4 i = Inr (c\<lparr>roomIdx := int k\<rparr>)" "client_at ?s4 j = Inr (d\<lparr>roomIdx := int k\<rparr>)"
    using assms(4-6,8) to_s16_id [of "int k"] by (simp_all add: created_def client_at_Inr_iff put_client_def)
  have "room_at ?s4 (int k) = Inr (new_room j)" unfolding room_at_def rooms using k by (simp add: get_at_nat)
  then have "STSV_RoomOwner ?s4 i = Inr False" "STSV_RoomOwner ?s4 j = Inr True"
    using at assms(5) by (simp_all add: STSV_RoomOwner_def new_room_def get_at_def)
  moreover have "STSV_GetRoomCount ?s4 = STSV_GetRoomCount s + 2" by (simp add: STSV_GetRoomCount_def created_def)
  ultimately show ?thesis using run rooms assms(5) by (intro exI [of _ ?p4]) simp
qed

lemma two_creators_one_room_witness:
  "\<exists>p. create_step\<^sup>*\<^sup>* \<lparr>lobby_server = lobby, create_at = (\<lambda>_. NotCreating)\<rparr> p \<and>
     create_at p 0 = RoomReturned 0 \<and> create_at p 1 = RoomReturned 0 \<and>
     s_Room_t (lobby_server p) = [new_room 1, cleared_room]"
proof -
  have "free_room lobby = int 0" "\<not> s_MutexFreeRoomIdx lobby" "s_Room_t lobby = [cleared_room, cleared_room]"
    "client_at lobby 0 = Inr ((fresh_client 0)\<lparr>roomIdx := -1\<rparr>)" "client_at lobby 1 = Inr ((fresh_client 0)\<lparr>roomIdx := -1\<rparr>)"
    by (simp_all add: free_room_def lobby_def client_at_def get_at_def fresh_server_def numeral_2_eq_2)
  with two_creators_one_room [OF wf_lobby, of 0 0 1] show ?thesis by fastforce
qed

end
