(* ===== verification/Star_DB.thy ===== *)
theory Star_DB
  imports Star_Files
begin

text \<open>
  The pool of MySQL connections. The client library is not part of the repository, so it is an
  argument: a record of its functions over a state \<open>'w\<close> of the database and a type \<open>'r\<close> of stored
  results. \<open>mysql_init\<close>, \<open>mysql_options\<close> and \<open>mysql_real_connect\<close>, which are always called in this
  order, are one function. The arrays that \<open>InitServerLimit\<close> allocates are lists with one element per
  connection. The messages of \<open>LogString\<close> are not followed.
\<close>

section \<open>State\<close>

record ('w, 'r) mysql_api =
  mysql_real_connect :: "'w \<Rightarrow> nat \<Rightarrow> bool \<times> 'w"
  mysql_close :: "'w \<Rightarrow> nat \<Rightarrow> 'w"
  mysql_query :: "'w \<Rightarrow> nat \<Rightarrow> string \<Rightarrow> int \<times> 'w"
  mysql_real_query :: "'w \<Rightarrow> nat \<Rightarrow> string \<Rightarrow> nat \<Rightarrow> int \<times> 'w"
  mysql_errno :: "'w \<Rightarrow> nat \<Rightarrow> int"
  mysql_insert_id :: "'w \<Rightarrow> nat \<Rightarrow> u64"
  mysql_store_result :: "'w \<Rightarrow> nat \<Rightarrow> 'r option \<times> 'w"
  mysql_num_rows :: "'r \<Rightarrow> u64"
  mysql_num_fields :: "'r \<Rightarrow> u32"
  mysql_fetch_row :: "'r \<Rightarrow> string option list option \<times> 'r"
  mysql_free_result :: "'w \<Rightarrow> 'r \<Rightarrow> 'w"

definition CR_SERVER_GONE_ERROR :: int where "CR_SERVER_GONE_ERROR = 2006"
definition CR_OUT_OF_MEMORY :: int where "CR_OUT_OF_MEMORY = 2008"

text \<open>A row is an array of strings that may be NULL; \<open>None\<close> is the null pointer.\<close>

record ('w, 'r) db =
  db_world :: 'w
  pMySql :: "bool list"
  mMySqlRes :: "'r option list"
  mMySqlRow :: "string option list option list"
  mMySqlNumRow :: "int list"
  mMySqlNumFields :: "int list"
  mMySqlCommand :: "char list list"
  sqlLock :: "bool list"
  s_MutexFreeDBIdx :: bool
  haveConnectDB :: bool
  unlockDB :: bool
  s_nCurDBConnect :: int

section \<open>Connections\<close>

definition STSV_GetDBConnect :: "('w, 'r) db \<Rightarrow> u32" where
  "STSV_GetDBConnect d = word_of_int (s_nCurDBConnect d)"

definition STSV_DBGetMaxConnection :: "config \<Rightarrow> int" where
  "STSV_DBGetMaxConnection k = s_nDBMaxConnect k"

definition STSV_DBGetCurConnection :: "('w, 'r) db \<Rightarrow> int" where
  "STSV_DBGetCurConnection d = s_nCurDBConnect d"

definition STSV_DBHaveConnect :: "('w, 'r) db \<Rightarrow> bool" where
  "STSV_DBHaveConnect d = haveConnectDB d"

text \<open>One connection of \<open>STDB_Connect\<close>, with the number of connections made.\<close>

definition connect_one :: "('w, 'r) mysql_api \<Rightarrow> ('w, 'r) db \<times> int \<Rightarrow> nat \<Rightarrow> (('w, 'r) db \<times> int) result" where
  "connect_one my = (\<lambda>(d, cCount) i.
     (let (ok, w) = mysql_real_connect my (db_world d) i in
      bindR (set_at (pMySql d) (int i) ok) (\<lambda>ps.
      (let d = d\<lparr>db_world := w, pMySql := ps\<rparr> in
       if ok then bindR (set_at (sqlLock d) (int i) False) (\<lambda>ls.
         Inr (d\<lparr>sqlLock := ls, haveConnectDB := True\<rparr>, cCount + 1))
       else Inr (d, cCount)))))"

definition STDB_Connect :: "('w, 'r) mysql_api \<Rightarrow> config \<Rightarrow> ('w, 'r) db \<Rightarrow> (('w, 'r) db \<times> int) result" where
  "STDB_Connect my k d = foldR (connect_one my) (d, 0) [0..<nat (s_nDBMaxConnect k)]"

definition STSV_DBReleaseResult :: "('w, 'r) mysql_api \<Rightarrow> ('w, 'r) db \<Rightarrow> int \<Rightarrow> ('w, 'r) db result" where
  "STSV_DBReleaseResult my d i =
     bindR (get_at (mMySqlRes d) i) (\<lambda>res.
     case res of
       Some r \<Rightarrow>
         bindR (set_at (mMySqlRes d) i None) (\<lambda>rs.
         bindR (set_at (mMySqlNumFields d) i (-1)) (\<lambda>fs.
         bindR (set_at (mMySqlNumRow d) i (-1)) (\<lambda>ns.
           Inr (d\<lparr>db_world := mysql_free_result my (db_world d) r, mMySqlRes := rs,
             mMySqlNumFields := fs, mMySqlNumRow := ns\<rparr>))))
     | None \<Rightarrow> Inr d)"

definition disconnect_one :: "('w, 'r) mysql_api \<Rightarrow> ('w, 'r) db \<Rightarrow> nat \<Rightarrow> ('w, 'r) db result" where
  "disconnect_one my d i =
     bindR (get_at (mMySqlRes d) (int i)) (\<lambda>res.
     bindR (if res \<noteq> None then
         bindR (STSV_DBReleaseResult my d (int i)) (\<lambda>d.
         bindR (set_at (mMySqlRes d) (int i) None) (\<lambda>rs. Inr (d\<lparr>mMySqlRes := rs\<rparr>)))
       else Inr d) (\<lambda>d.
     bindR (get_at (pMySql d) (int i)) (\<lambda>p.
       Inr (if p then d\<lparr>db_world := mysql_close my (db_world d) i\<rparr> else d))))"

definition STDB_DisConnect :: "('w, 'r) mysql_api \<Rightarrow> config \<Rightarrow> ('w, 'r) db \<Rightarrow> (('w, 'r) db \<times> int) result" where
  "STDB_DisConnect my k d = bindR (foldR (disconnect_one my) d [0..<nat (s_nDBMaxConnect k)]) (\<lambda>d. Inr (d, 0))"

definition STDB_ReConnect :: "('w, 'r) mysql_api \<Rightarrow> ('w, 'r) db \<Rightarrow> int \<Rightarrow> (('w, 'r) db \<times> int) result" where
  "STDB_ReConnect my d i =
     (let (ok, w) = mysql_real_connect my (db_world d) (nat i) in
      bindR (set_at (pMySql d) i ok) (\<lambda>ps.
        Inr (d\<lparr>db_world := w, pMySql := ps\<rparr>, if ok then 1 else 0)))"

section \<open>Locking\<close>

definition STSV_DBUnlockResource :: "('w, 'r) db \<Rightarrow> int \<Rightarrow> ('w, 'r) db result" where
  "STSV_DBUnlockResource d i =
     bindR (get_at (sqlLock d) i) (\<lambda>locked.
       if locked then
         bindR (set_at (sqlLock d) i False) (\<lambda>ls.
           Inr (d\<lparr>s_nCurDBConnect := (if s_nCurDBConnect d - 1 < 0 then 0 else s_nCurDBConnect d - 1),
             sqlLock := ls, unlockDB := False\<rparr>))
       else Inr (d\<lparr>unlockDB := False\<rparr>))"

text \<open>
  The search goes round the pool until it finds a connection that is connected and not locked. It
  reads the first one in any case. Alone, a thread whose first round finds none goes round for ever.
\<close>

fun free_resource :: "bool list \<Rightarrow> bool list \<Rightarrow> nat \<Rightarrow> nat \<Rightarrow> int result" where
  "free_resource locks conns i 0 = Inl Blocked"
| "free_resource locks conns i (Suc n) =
     bindR (get_at locks (int i)) (\<lambda>l.
     bindR (get_at conns (int i)) (\<lambda>p.
       if \<not> l \<and> p then Inr (int i) else free_resource locks conns (Suc i) n))"

definition STSV_DBFindAndLockResource :: "config \<Rightarrow> ('w, 'r) db \<Rightarrow> (('w, 'r) db \<times> int) result" where
  "STSV_DBFindAndLockResource k d =
     (if s_MutexFreeDBIdx d then Inl Deadlock
      else
        bindR (free_resource (sqlLock d) (pMySql d) 0 (max 1 (nat (s_nDBMaxConnect k)))) (\<lambda>foundIdx.
        bindR (set_at (sqlLock d) foundIdx True) (\<lambda>ls.
          Inr (d\<lparr>s_nCurDBConnect := s_nCurDBConnect d + 1, sqlLock := ls\<rparr>, foundIdx))))"

section \<open>Queries\<close>

text \<open>What every operation on a connection does first: an old result is released.\<close>

definition drop_result :: "('w, 'r) mysql_api \<Rightarrow> ('w, 'r) db \<Rightarrow> int \<Rightarrow> ('w, 'r) db result" where
  "drop_result my d i =
     bindR (get_at (mMySqlRes d) i) (\<lambda>res. if res \<noteq> None then STSV_DBReleaseResult my d i else Inr d)"

definition STSV_DBLastInsert :: "('w, 'r) mysql_api \<Rightarrow> ('w, 'r) db \<Rightarrow> int \<Rightarrow> (('w, 'r) db \<times> u32) result" where
  "STSV_DBLastInsert my d i =
     bindR (drop_result my d i) (\<lambda>d.
     bindR (get_at (sqlLock d) i) (\<lambda>locked.
       Inr (d, if locked then ucast (mysql_insert_id my (db_world d) (nat i)) else 0)))"

text \<open>The command as \<open>vsprintf\<close> writes it into the buffer of the connection.\<close>

definition put_command :: "('w, 'r) db \<Rightarrow> int \<Rightarrow> string \<Rightarrow> ('w, 'r) db result" where
  "put_command d i sql =
     bindR (get_at (mMySqlCommand d) i) (\<lambda>buffer.
     bindR (c_strcpy buffer sql) (\<lambda>buffer.
     bindR (set_at (mMySqlCommand d) i buffer) (\<lambda>cs. Inr (d\<lparr>mMySqlCommand := cs\<rparr>))))"

definition store_result :: "('w, 'r) mysql_api \<Rightarrow> ('w, 'r) db \<Rightarrow> int \<Rightarrow> ('w, 'r) db result" where
  "store_result my d i =
     (let (res, w) = mysql_store_result my (db_world d) (nat i) in
      bindR (set_at (mMySqlRes d) i res) (\<lambda>rs.
      (let d = d\<lparr>db_world := w, mMySqlRes := rs\<rparr> in
       case res of
         None \<Rightarrow> Inr d
       | Some r \<Rightarrow>
           bindR (set_at (mMySqlNumRow d) i (sint (ucast (mysql_num_rows my r) :: s32))) (\<lambda>ns.
           bindR (set_at (mMySqlNumFields d) i (sint (mysql_num_fields my r))) (\<lambda>fs.
             Inr (d\<lparr>mMySqlNumRow := ns, mMySqlNumFields := fs\<rparr>))))))"

definition query :: "('w, 'r) mysql_api \<Rightarrow> ('w, 'r) db \<Rightarrow> int \<Rightarrow> string \<Rightarrow> int \<times> ('w, 'r) db" where
  "query my d i sql = (let (ret, w) = mysql_query my (db_world d) (nat i) sql in (ret, d\<lparr>db_world := w\<rparr>))"

text \<open>
  The answer to an error of the query: \<open>None\<close> where \<open>STSV_DBQuery\<close> goes on to store the result. In
  the first branch the second \<open>ret\<close> is not looked at.
\<close>

definition query_again :: "('w, 'r) mysql_api \<Rightarrow> ('w, 'r) db \<Rightarrow> int \<Rightarrow> string \<Rightarrow> int \<Rightarrow> (bool option \<times> ('w, 'r) db) result" where
  "query_again my d i sql ret =
     (if ret = CR_SERVER_GONE_ERROR then
        bindR (STDB_ReConnect my d i) (\<lambda>(d, _). Inr (None, snd (query my d i sql)))
      else if ret = CR_OUT_OF_MEMORY then Inr (Some False, d)
      else
        (let errorNo = mysql_errno my (db_world d) (nat i) in
         if errorNo = 1146 \<or> errorNo = 1064 \<or> errorNo = 1062 then Inr (Some False, d)
         else
           bindR (STDB_ReConnect my d i) (\<lambda>(d, ok).
             if 0 < ok then
               (let (ret, d) = query my d i sql in
                if ret \<noteq> 0 then Inr (Some False, d) else Inr (None, d))
             else Inr (Some False, d))))"

definition STSV_DBQuery :: "('w, 'r) mysql_api \<Rightarrow> ('w, 'r) db \<Rightarrow> int \<Rightarrow> string \<Rightarrow> (bool \<times> ('w, 'r) db) result" where
  "STSV_DBQuery my d i sql =
     bindR (drop_result my d i) (\<lambda>d.
     bindR (get_at (sqlLock d) i) (\<lambda>locked.
       if \<not> locked then Inr (False, d)
       else
         bindR (put_command d i sql) (\<lambda>d.
         (let (ret, d) = query my d i sql in
          bindR (if ret \<noteq> 0 then query_again my d i sql ret else Inr (None, d)) (\<lambda>(answer, d).
          case answer of
            Some b \<Rightarrow> Inr (b, d)
          | None \<Rightarrow> bindR (store_result my d i) (\<lambda>d. Inr (True, d)))))))"

definition real_query :: "('w, 'r) mysql_api \<Rightarrow> ('w, 'r) db \<Rightarrow> int \<Rightarrow> string \<Rightarrow> int \<times> ('w, 'r) db" where
  "real_query my d i sql =
     (let (ret, w) = mysql_real_query my (db_world d) (nat i) sql (length sql) in (ret, d\<lparr>db_world := w\<rparr>))"

definition STSV_RealQuery :: "('w, 'r) mysql_api \<Rightarrow> ('w, 'r) db \<Rightarrow> int \<Rightarrow> string \<Rightarrow> (bool \<times> ('w, 'r) db) result" where
  "STSV_RealQuery my d i sql =
     bindR (drop_result my d i) (\<lambda>d.
     bindR (get_at (sqlLock d) i) (\<lambda>locked.
       if \<not> locked then Inr (False, d)
       else
         bindR (put_command d i sql) (\<lambda>d.
         (let (ret, d) = real_query my d i sql in
          bindR (if ret = 0 then Inr (None, d)
            else if ret = CR_SERVER_GONE_ERROR
            then bindR (STDB_ReConnect my d i) (\<lambda>(d, _). Inr (None, snd (real_query my d i sql)))
            else
              bindR (STDB_ReConnect my d i) (\<lambda>(d, ok).
                if 0 < ok then
                  (let (ret, d) = real_query my d i sql in
                   if ret \<noteq> 0 then Inr (Some False, d) else Inr (None, d))
                else Inr (Some False, d))) (\<lambda>(answer, d).
          case answer of
            Some b \<Rightarrow> Inr (b, d)
          | None \<Rightarrow> bindR (store_result my d i) (\<lambda>d. Inr (True, d)))))))"

section \<open>Rows\<close>

definition STSV_DBNumRow :: "('w, 'r) db \<Rightarrow> int \<Rightarrow> int result" where
  "STSV_DBNumRow d i =
     bindR (get_at (sqlLock d) i) (\<lambda>locked. if \<not> locked then Inr 0 else get_at (mMySqlNumRow d) i)"

definition STSV_DBNumColum :: "('w, 'r) db \<Rightarrow> int \<Rightarrow> int result" where
  "STSV_DBNumColum d i =
     bindR (get_at (sqlLock d) i) (\<lambda>locked. if \<not> locked then Inr 0 else get_at (mMySqlNumFields d) i)"

definition STSV_DBFetchRow :: "('w, 'r) mysql_api \<Rightarrow> ('w, 'r) db \<Rightarrow> int \<Rightarrow> (bool \<times> ('w, 'r) db) result" where
  "STSV_DBFetchRow my d i =
     bindR (get_at (sqlLock d) i) (\<lambda>locked.
       if \<not> locked then Inr (False, d)
       else
         bindR (get_at (mMySqlRes d) i) (\<lambda>res.
         case res of
           None \<Rightarrow> Inr (False, d)
         | Some r \<Rightarrow>
             (let (row, r') = mysql_fetch_row my r in
              bindR (set_at (mMySqlRow d) i row) (\<lambda>rows.
              bindR (set_at (mMySqlRes d) i (Some r')) (\<lambda>rs.
                Inr (row \<noteq> None, d\<lparr>mMySqlRow := rows, mMySqlRes := rs\<rparr>))))))"

text \<open>The value at \<open>rowIdx\<close> of the row fetched last; the guard admits one index too many.\<close>

definition row_value :: "('w, 'r) db \<Rightarrow> int \<Rightarrow> int \<Rightarrow> string option result" where
  "row_value d i rowIdx =
     bindR (get_at (mMySqlRow d) i) (\<lambda>row.
     case row of None \<Rightarrow> Inl NullDeref | Some vs \<Rightarrow> get_at vs rowIdx)"

definition STSV_DBGetRowIntValue :: "('w, 'r) db \<Rightarrow> int \<Rightarrow> int \<Rightarrow> int result" where
  "STSV_DBGetRowIntValue d i rowIdx =
     bindR (get_at (sqlLock d) i) (\<lambda>locked.
       if \<not> locked then Inr (-1)
       else
         bindR (get_at (mMySqlNumFields d) i) (\<lambda>n.
           if n < rowIdx then Inr (-1)
           else
             bindR (row_value d i rowIdx) (\<lambda>v.
             case v of None \<Rightarrow> Inl NullDeref | Some str \<Rightarrow> Inr (atoi str))))"

definition STSV_DBGetRowStringValue :: "('w, 'r) db \<Rightarrow> int \<Rightarrow> int \<Rightarrow> string option result" where
  "STSV_DBGetRowStringValue d i rowIdx =
     bindR (get_at (sqlLock d) i) (\<lambda>locked.
       if \<not> locked then Inr None
       else
         bindR (get_at (mMySqlNumFields d) i) (\<lambda>n.
           if n < rowIdx then Inr None
           else
             bindR (row_value d i rowIdx) (\<lambda>v.
             case v of None \<Rightarrow> Inr (Some ''0'') | Some str \<Rightarrow> Inr (Some str))))"

section \<open>Saving a file\<close>

text \<open>
  \<open>sprintf (dst, pre, ...)\<close> of a text and the string that starts at \<open>src\<close> of the same array.
  The C standard leaves the call undefined when what is read and what is written overlap.
\<close>

definition sprintf_same :: "char list \<Rightarrow> string \<Rightarrow> nat \<Rightarrow> char list result" where
  "sprintf_same dst pre src =
     bindR (c_string (drop src dst)) (\<lambda>arg.
       if src < length pre + length arg + 1 then Inl Overlap
       else c_strcpy dst (pre @ arg))"

text \<open>\<open>stack\<close> is what the local array holds on entry; the parameter \<open>fileName\<close> is not used.\<close>

definition STSV_DBSaveFile :: "char list \<Rightarrow> server \<Rightarrow> string \<Rightarrow> u8 list \<Rightarrow> nat \<Rightarrow> (bool \<times> server) result" where
  "STSV_DBSaveFile stack s fileName buffer n =
     bindR (sprintf_same (take 128 stack) ''DBFILE/'' 0) (\<lambda>filePath.
     bindR (c_string filePath) (\<lambda>path.
     case fopen_wb s path of
       None \<Rightarrow> Inr (False, s)
     | Some s \<Rightarrow> bindR (load buffer 0 n) (\<lambda>bs. Inr (True, fappend s path bs))))"

section \<open>Finding a connection\<close>

lemma free_resource_cases:
  assumes "i + n \<le> length locks" and "i + n \<le> length conns"
  shows "(free_resource locks conns i n = Inl Blocked \<and> (\<forall>j. i \<le> j \<and> j < i + n \<longrightarrow> locks ! j \<or> \<not> conns ! j)) \<or>
    (\<exists>k. free_resource locks conns i n = Inr (int k) \<and> i \<le> k \<and> k < i + n \<and> \<not> locks ! k \<and> conns ! k \<and>
      (\<forall>j. i \<le> j \<and> j < k \<longrightarrow> locks ! j \<or> \<not> conns ! j))"
  using assms
proof (induction locks conns i n rule: free_resource.induct)
  case (1 locks conns i)
  then show ?case by auto
next
  case (2 locks conns i n)
  have i: "i < length locks" "i < length conns" using "2.prems" by simp_all
  show ?case
  proof (cases "\<not> locks ! i \<and> conns ! i")
    case True
    with i have "free_resource locks conns i (Suc n) = Inr (int i)" by (simp add: get_at_nat)
    with True show ?thesis by (intro disjI2 exI [of _ i]) auto
  next
    case False
    then have step: "free_resource locks conns i (Suc n) = free_resource locks conns (Suc i) n"
      using i by (auto simp: get_at_nat)
    have from_i: "i \<le> j \<longleftrightarrow> j = i \<or> Suc i \<le> j" for j by auto
    have "(free_resource locks conns (Suc i) n = Inl Blocked \<and>
          (\<forall>j. Suc i \<le> j \<and> j < Suc i + n \<longrightarrow> locks ! j \<or> \<not> conns ! j)) \<or>
        (\<exists>k. free_resource locks conns (Suc i) n = Inr (int k) \<and> Suc i \<le> k \<and> k < Suc i + n \<and>
          \<not> locks ! k \<and> conns ! k \<and> (\<forall>j. Suc i \<le> j \<and> j < k \<longrightarrow> locks ! j \<or> \<not> conns ! j))"
      using "2.IH" i False "2.prems" by (simp add: get_at_nat)
    then show ?thesis
    proof
      assume "free_resource locks conns (Suc i) n = Inl Blocked \<and>
        (\<forall>j. Suc i \<le> j \<and> j < Suc i + n \<longrightarrow> locks ! j \<or> \<not> conns ! j)"
      then show ?thesis using False step by (intro disjI1) (auto simp: from_i)
    next
      assume "\<exists>k. free_resource locks conns (Suc i) n = Inr (int k) \<and> Suc i \<le> k \<and> k < Suc i + n \<and>
        \<not> locks ! k \<and> conns ! k \<and> (\<forall>j. Suc i \<le> j \<and> j < k \<longrightarrow> locks ! j \<or> \<not> conns ! j)"
      then obtain k where "free_resource locks conns (Suc i) n = Inr (int k)" "Suc i \<le> k" "k < Suc i + n"
        "\<not> locks ! k" "conns ! k" "\<forall>j. Suc i \<le> j \<and> j < k \<longrightarrow> locks ! j \<or> \<not> conns ! j" by blast
      then show ?thesis using False step by (intro disjI2 exI [of _ k]) (auto simp: from_i)
    qed
  qed
qed

definition pool_size :: "config \<Rightarrow> nat" where
  "pool_size k = nat (s_nDBMaxConnect k)"

definition wf_db :: "config \<Rightarrow> ('w, 'r) db \<Rightarrow> bool" where
  "wf_db k d \<longleftrightarrow> length (pMySql d) = pool_size k \<and> length (mMySqlRes d) = pool_size k \<and>
     length (mMySqlRow d) = pool_size k \<and> length (mMySqlNumRow d) = pool_size k \<and>
     length (mMySqlNumFields d) = pool_size k \<and> length (mMySqlCommand d) = pool_size k \<and>
     length (sqlLock d) = pool_size k"

definition available :: "('w, 'r) db \<Rightarrow> nat \<Rightarrow> bool" where
  "available d j \<longleftrightarrow> \<not> sqlLock d ! j \<and> pMySql d ! j"

text \<open>\<open>STSV_DBFindAndLockResource\<close> hands out the first connection that is connected and not locked, and
locks it; when there is none it never returns, and it never returns a connection in use.\<close>

lemma FindAndLockResource_least:
  assumes "wf_db k d" and "0 < pool_size k" and "\<not> s_MutexFreeDBIdx d"
  shows "(\<exists>j d'. j < pool_size k \<and> available d j \<and> (\<forall>l < j. \<not> available d l) \<and>
      STSV_DBFindAndLockResource k d = Inr (d', int j) \<and> sqlLock d' = (sqlLock d)[j := True] \<and>
      s_nCurDBConnect d' = s_nCurDBConnect d + 1 \<and> wf_db k d') \<or>
    ((\<forall>j < pool_size k. \<not> available d j) \<and> STSV_DBFindAndLockResource k d = Inl Blocked)"
proof -
  have n: "max 1 (nat (s_nDBMaxConnect k)) = pool_size k" using assms(2) by (simp add: pool_size_def)
  have len: "length (sqlLock d) = pool_size k" "length (pMySql d) = pool_size k"
    using assms(1) by (simp_all add: wf_db_def)
  from free_resource_cases [of 0 "pool_size k" "sqlLock d" "pMySql d"] len
  consider "free_resource (sqlLock d) (pMySql d) 0 (pool_size k) = Inl Blocked" "\<forall>j < pool_size k. \<not> available d j"
    | j where "free_resource (sqlLock d) (pMySql d) 0 (pool_size k) = Inr (int j)" "j < pool_size k"
      "available d j" "\<forall>l < j. \<not> available d l"
    by (auto simp: available_def)
  then show ?thesis
  proof cases
    case 1
    then show ?thesis using assms(3) n by (simp add: STSV_DBFindAndLockResource_def)
  next
    case (2 j)
    then have "STSV_DBFindAndLockResource k d =
        Inr (d\<lparr>s_nCurDBConnect := s_nCurDBConnect d + 1, sqlLock := (sqlLock d)[j := True]\<rparr>, int j)"
      using assms(3) n len by (simp add: STSV_DBFindAndLockResource_def set_at_nat)
    with 2 assms(1) show ?thesis by (auto simp: wf_db_def)
  qed
qed

section \<open>Several threads\<close>

text \<open>
  The steps of \<open>STSV_DBFindAndLockResource\<close> and \<open>STSV_DBUnlockResource\<close> of threads that run at the
  same time: the search and the taking of a connection are under the mutex, giving it back is not.
  Reading and writing \<open>s_nCurDBConnect\<close> are separate steps. A thread gives back the connection that
  it was given, as the interface asks.
\<close>

datatype db_pc = DbIdle | DbSearch nat | DbFound nat | DbInc nat int | DbTake nat | DbLeave nat
  | DbHold nat | DbDec nat int | DbFree nat

record db_pool =
  db_pcs :: "nat \<Rightarrow> db_pc"
  db_mutex :: "nat option"
  db_locks :: "nat \<Rightarrow> bool"
  db_conns :: "nat \<Rightarrow> bool"
  db_count :: int

definition db_goto :: "db_pool \<Rightarrow> nat \<Rightarrow> db_pc \<Rightarrow> db_pool" where
  "db_goto p t c = p\<lparr>db_pcs := (db_pcs p)(t := c)\<rparr>"

inductive db_step :: "nat \<Rightarrow> db_pool \<Rightarrow> db_pool \<Rightarrow> bool" for n :: nat where
  db_enter: "db_pcs p t = DbIdle \<Longrightarrow> db_mutex p = None \<Longrightarrow>
     db_step n p (db_goto (p\<lparr>db_mutex := Some t\<rparr>) t (DbSearch 0))"
| db_found: "db_pcs p t = DbSearch i \<Longrightarrow> \<not> db_locks p i \<Longrightarrow> db_conns p i \<Longrightarrow> db_step n p (db_goto p t (DbFound i))"
| db_next: "db_pcs p t = DbSearch i \<Longrightarrow> db_locks p i \<or> \<not> db_conns p i \<Longrightarrow>
     db_step n p (db_goto p t (DbSearch (if n \<le> Suc i then 0 else Suc i)))"
| db_read_inc: "db_pcs p t = DbFound i \<Longrightarrow> db_step n p (db_goto p t (DbInc i (db_count p)))"
| db_write_inc: "db_pcs p t = DbInc i v \<Longrightarrow> db_step n p (db_goto (p\<lparr>db_count := v + 1\<rparr>) t (DbTake i))"
| db_take: "db_pcs p t = DbTake i \<Longrightarrow> db_step n p (db_goto (p\<lparr>db_locks := (db_locks p)(i := True)\<rparr>) t (DbLeave i))"
| db_leave: "db_pcs p t = DbLeave i \<Longrightarrow> db_step n p (db_goto (p\<lparr>db_mutex := None\<rparr>) t (DbHold i))"
| db_read_dec: "db_pcs p t = DbHold i \<Longrightarrow> db_locks p i \<Longrightarrow> db_step n p (db_goto p t (DbDec i (db_count p)))"
| db_unlocked: "db_pcs p t = DbHold i \<Longrightarrow> \<not> db_locks p i \<Longrightarrow> db_step n p (db_goto p t DbIdle)"
| db_write_dec: "db_pcs p t = DbDec i v \<Longrightarrow>
     db_step n p (db_goto (p\<lparr>db_count := (if v - 1 < 0 then 0 else v - 1)\<rparr>) t (DbFree i))"
| db_free: "db_pcs p t = DbFree i \<Longrightarrow> db_step n p (db_goto (p\<lparr>db_locks := (db_locks p)(i := False)\<rparr>) t DbIdle)"

definition db_start :: "(nat \<Rightarrow> bool) \<Rightarrow> db_pool" where
  "db_start conns = \<lparr>db_pcs = (\<lambda>_. DbIdle), db_mutex = None, db_locks = (\<lambda>_. False), db_conns = conns, db_count = 0\<rparr>"

inductive db_reach :: "nat \<Rightarrow> (nat \<Rightarrow> bool) \<Rightarrow> db_pool \<Rightarrow> bool" for n :: nat and conns :: "nat \<Rightarrow> bool" where
  db_init: "db_reach n conns (db_start conns)"
| db_more: "db_reach n conns p \<Longrightarrow> db_step n p q \<Longrightarrow> db_reach n conns q"

fun inside :: "db_pc \<Rightarrow> bool" where
  "inside (DbSearch _) = True" | "inside (DbFound _) = True" | "inside (DbInc _ _) = True"
| "inside (DbTake _) = True" | "inside (DbLeave _) = True" | "inside _ = False"

fun candidate :: "db_pc \<Rightarrow> nat option" where
  "candidate (DbFound i) = Some i" | "candidate (DbInc i _) = Some i" | "candidate (DbTake i) = Some i"
| "candidate _ = None"

fun owned :: "db_pc \<Rightarrow> nat option" where
  "owned (DbLeave i) = Some i" | "owned (DbHold i) = Some i" | "owned (DbDec i _) = Some i"
| "owned (DbFree i) = Some i" | "owned _ = None"

definition db_inv :: "db_pool \<Rightarrow> bool" where
  "db_inv p \<longleftrightarrow> (\<forall>t. inside (db_pcs p t) \<longleftrightarrow> db_mutex p = Some t) \<and>
     (\<forall>t i. candidate (db_pcs p t) = Some i \<longrightarrow> \<not> db_locks p i) \<and>
     (\<forall>t i. owned (db_pcs p t) = Some i \<longrightarrow> db_locks p i) \<and>
     (\<forall>t u i. owned (db_pcs p t) = Some i \<longrightarrow> owned (db_pcs p u) = Some i \<longrightarrow> t = u)"

lemma candidate_inside: "candidate c = Some i \<Longrightarrow> inside c"
  by (cases c) auto

lemma db_goto_simps [simp]:
  "db_pcs (db_goto p t c) = (db_pcs p)(t := c)" "db_mutex (db_goto p t c) = db_mutex p"
  "db_locks (db_goto p t c) = db_locks p" "db_count (db_goto p t c) = db_count p" "db_conns (db_goto p t c) = db_conns p"
  by (simp_all add: db_goto_def)

lemma db_inv_goto:
  assumes "db_inv p" and "db_locks q = db_locks p" and "db_pcs q = (db_pcs p)(t := c)"
    and "owned c = owned (db_pcs p t)" and "candidate c = None \<or> candidate c = candidate (db_pcs p t)"
    and "\<And>u. inside (db_pcs q u) \<longleftrightarrow> db_mutex q = Some u"
  shows "db_inv q"
proof -
  have "owned (db_pcs q u) = owned (db_pcs p u)" for u using assms(3,4) by simp
  moreover have "candidate (db_pcs q u) = Some i \<Longrightarrow> \<not> db_locks q i" for u i
    using assms(1,2,3,5) by (auto simp: db_inv_def split: if_splits)
  ultimately show ?thesis using assms(1,6) by (auto simp: db_inv_def assms(2))
qed

lemma db_inv_stay:
  assumes "db_inv p" and "q = db_goto p' t c" and "db_locks p' = db_locks p" and "db_pcs p' = db_pcs p"
    and "db_mutex p' = db_mutex p" and "owned c = owned (db_pcs p t)"
    and "candidate c = None \<or> candidate c = candidate (db_pcs p t)" and "inside c = inside (db_pcs p t)"
  shows "db_inv q"
proof (rule db_inv_goto [OF assms(1), where t = t and c = c])
  show "inside (db_pcs q u) \<longleftrightarrow> db_mutex q = Some u" for u
    using assms(1,2,4,5,8) by (simp add: db_inv_def)
qed (simp_all add: assms)

lemma db_step_inv:
  assumes "db_step n p q" and "db_inv p"
  shows "db_inv q"
proof -
  have inv: "inside (db_pcs p t) \<longleftrightarrow> db_mutex p = Some t" "candidate (db_pcs p t) = Some i \<Longrightarrow> \<not> db_locks p i"
    "owned (db_pcs p t) = Some i \<Longrightarrow> db_locks p i"
    "owned (db_pcs p t) = Some i \<Longrightarrow> owned (db_pcs p u) = Some i \<Longrightarrow> t = u" for t u i
    using assms(2) by (auto simp: db_inv_def)
  from assms(1) show ?thesis
  proof cases
    case (db_take t i)
    have "inside (db_pcs p t)" using db_take by simp
    then have mine: "db_mutex p = Some t" by (simp add: inv(1))
    have "candidate (db_pcs p u) \<noteq> Some i" if "u \<noteq> t" for u
      using candidate_inside [of "db_pcs p u" i] inv(1) [of u] mine that by auto
    moreover have "owned (db_pcs p u) \<noteq> Some i" for u
      using inv(2) [of t i] inv(3) [of u i] db_take by auto
    ultimately show ?thesis
      using inv db_take mine by (auto simp: db_inv_def)
  next
    case (db_free t i)
    have "owned (db_pcs p u) \<noteq> Some i" if "u \<noteq> t" for u
      using inv(4) [of t i u] db_free that by auto
    moreover have "db_mutex p \<noteq> Some t" using inv(1) [of t] db_free by simp
    ultimately show ?thesis using inv db_free by (auto simp: db_inv_def split: if_splits)
  next
    case (db_enter t)
    have "\<not> inside (db_pcs p u)" for u using inv(1) [of u] db_enter by simp
    then show ?thesis using inv db_enter by (auto simp: db_inv_def)
  next
    case (db_leave t i)
    have "db_mutex p = Some t" using inv(1) [of t] db_leave by simp
    then have "inside (db_pcs q u) \<longleftrightarrow> db_mutex q = Some u" for u
      using db_leave inv(1) [of u] by simp
    then show ?thesis using assms(2) db_leave by (intro db_inv_goto [of p q t "DbHold i"]) simp_all
  next
    case (db_found t i)
    then have "db_mutex p = Some t" using inv(1) [of t] by simp
    then show ?thesis using inv db_found by (auto simp: db_inv_def split: if_splits)
  next
    case (db_next t i)
    then show ?thesis
      using assms(2) by (intro db_inv_stay [of p q p t "DbSearch (if n \<le> Suc i then 0 else Suc i)"]) simp_all
  next
    case (db_read_inc t i)
    then show ?thesis using assms(2) by (intro db_inv_stay [of p q p t "DbInc i (db_count p)"]) simp_all
  next
    case (db_write_inc t i v)
    then show ?thesis using assms(2) by (intro db_inv_stay [of p q "p\<lparr>db_count := v + 1\<rparr>" t "DbTake i"]) simp_all
  next
    case (db_unlocked t i)
    then show ?thesis using inv(3) [of t i] by simp
  next
    case (db_read_dec t i)
    then show ?thesis using assms(2) by (intro db_inv_stay [of p q p t "DbDec i (db_count p)"]) simp_all
  next
    case (db_write_dec t i v)
    then show ?thesis using assms(2) by (intro db_inv_stay [of p q "p\<lparr>db_count := (if v - 1 < 0 then 0 else v - 1)\<rparr>" t "DbFree i"]) simp_all
  qed
qed

lemma db_reach_inv: "db_reach n conns p \<Longrightarrow> db_inv p"
proof (induction rule: db_reach.induct)
  case db_init
  show ?case by (simp add: db_inv_def db_start_def)
qed (rule db_step_inv)

text \<open>C20: Threads that run at the same time never hold the same connection: in every reachable state a
connection has at most one holder, and it is locked as long as it is held.\<close>

theorem db_connection_exclusive:
  assumes "db_reach n conns p" and "owned (db_pcs p t) = Some i" and "owned (db_pcs p u) = Some i"
  shows "t = u \<and> db_locks p i"
  using db_reach_inv [OF assms(1)] assms(2,3) by (auto simp: db_inv_def)

text \<open>Runs are built step by step; each step is given by the thread that moves.\<close>

definition db_move :: "nat \<Rightarrow> db_pool \<Rightarrow> nat \<Rightarrow> db_pool" where
  "db_move n p t = (case db_pcs p t of
     DbIdle \<Rightarrow> (if db_mutex p = None then db_goto (p\<lparr>db_mutex := Some t\<rparr>) t (DbSearch 0) else p)
   | DbSearch i \<Rightarrow> (if \<not> db_locks p i \<and> db_conns p i then db_goto p t (DbFound i)
       else db_goto p t (DbSearch (if n \<le> Suc i then 0 else Suc i)))
   | DbFound i \<Rightarrow> db_goto p t (DbInc i (db_count p))
   | DbInc i v \<Rightarrow> db_goto (p\<lparr>db_count := v + 1\<rparr>) t (DbTake i)
   | DbTake i \<Rightarrow> db_goto (p\<lparr>db_locks := (db_locks p)(i := True)\<rparr>) t (DbLeave i)
   | DbLeave i \<Rightarrow> db_goto (p\<lparr>db_mutex := None\<rparr>) t (DbHold i)
   | DbHold i \<Rightarrow> db_goto p t (if db_locks p i then DbDec i (db_count p) else DbIdle)
   | DbDec i v \<Rightarrow> db_goto (p\<lparr>db_count := (if v - 1 < 0 then 0 else v - 1)\<rparr>) t (DbFree i)
   | DbFree i \<Rightarrow> db_goto (p\<lparr>db_locks := (db_locks p)(i := False)\<rparr>) t DbIdle)"

lemma db_move_step: "db_move n p t = p \<or> db_step n p (db_move n p t)"
proof (cases "db_pcs p t")
  case (DbSearch i)
  then show ?thesis using db_next [of p t i n] by (auto simp: db_move_def intro: db_found)
next
  case (DbDec i v)
  then show ?thesis using db_write_dec [of p t i v n] by (auto simp: db_move_def)
qed (auto simp: db_move_def intro: db_step.intros)

lemma db_reach_run: "db_reach n conns (fold (\<lambda>t p. db_move n p t) ts (db_start conns))"
proof (induction ts rule: rev_induct)
  case (snoc t ts)
  then show ?case
    using db_move_step [of n "fold (\<lambda>t p. db_move n p t) ts (db_start conns)" t] by (auto intro: db_more)
qed (simp add: db_init)

theorem db_connection_exclusive_witness:
  "\<exists>p. db_reach 2 (\<lambda>_. True) p \<and> owned (db_pcs p 5) = Some 0 \<and> owned (db_pcs p 7) = Some 1 \<and> db_locks p 1"
proof -
  let ?p = "fold (\<lambda>t p. db_move 2 p t) [5, 5, 5, 5, 5, 5, 7, 7, 7, 7, 7, 7, 7] (db_start (\<lambda>_. True))"
  have r: "db_reach 2 (\<lambda>_. True) ?p" by (rule db_reach_run)
  have o: "owned (db_pcs ?p 5) = Some 0" "owned (db_pcs ?p 7) = Some 1"
    by (simp_all add: db_move_def db_start_def db_goto_def)
  from db_connection_exclusive [OF r o(2) o(2)] r o show ?thesis by blast
qed

text \<open>The number of connections in use is not reliable: \<open>STSV_DBUnlockResource\<close> decrements it outside the
mutex, and when a thread takes a connection in between, the count is 0 although a connection is held.\<close>

lemma db_count_lost_update:
  "\<exists>p. db_reach 2 (\<lambda>_. True) p \<and> owned (db_pcs p 7) = Some 1 \<and> db_pcs p 5 = DbIdle \<and> db_count p = 0"
proof -
  let ?p = "fold (\<lambda>t p. db_move 2 p t) [5, 5, 5, 5, 5, 5, 5, 7, 7, 7, 7, 7, 7, 7, 5, 5] (db_start (\<lambda>_. True))"
  have "db_reach 2 (\<lambda>_. True) ?p" by (rule db_reach_run)
  moreover have "owned (db_pcs ?p 7) = Some 1 \<and> db_pcs ?p 5 = DbIdle \<and> db_count ?p = 0"
    by (simp add: db_move_def db_start_def db_goto_def)
  ultimately show ?thesis by blast
qed

section \<open>Reading a result\<close>

text \<open>What the client library documents of a stored result: its rows come in order, then NULL.\<close>

fun holds_rows :: "('w, 'r) mysql_api \<Rightarrow> 'r \<Rightarrow> string option list list \<Rightarrow> bool" where
  "holds_rows my r [] \<longleftrightarrow> fst (mysql_fetch_row my r) = None"
| "holds_rows my r (row # rows) \<longleftrightarrow>
     fst (mysql_fetch_row my r) = Some row \<and> holds_rows my (snd (mysql_fetch_row my r)) rows"

text \<open>\<open>n\<close> calls of \<open>STSV_DBFetchRow\<close>, with the answer of the last one.\<close>

fun fetches :: "('w, 'r) mysql_api \<Rightarrow> ('w, 'r) db \<Rightarrow> int \<Rightarrow> nat \<Rightarrow> (bool \<times> ('w, 'r) db) result" where
  "fetches my d i 0 = STSV_DBFetchRow my d i"
| "fetches my d i (Suc n) = bindR (STSV_DBFetchRow my d i) (\<lambda>(_, d). fetches my d i n)"

definition cell :: "string option \<Rightarrow> string" where
  "cell v = (case v of None \<Rightarrow> ''0'' | Some str \<Rightarrow> str)"

lemma FetchRow_step:
  assumes "wf_db k d" and "i < pool_size k" and "sqlLock d ! i" and "mMySqlRes d ! i = Some r"
    and "mysql_fetch_row my r = (row, r')"
  shows "STSV_DBFetchRow my d (int i) = Inr (row \<noteq> None,
     d\<lparr>mMySqlRow := (mMySqlRow d)[i := row], mMySqlRes := (mMySqlRes d)[i := Some r']\<rparr>)"
  using assms by (simp add: STSV_DBFetchRow_def wf_db_def get_at_nat set_at_nat)

lemma fetches_rows:
  assumes "wf_db k d" and "i < pool_size k" and "sqlLock d ! i" and "mMySqlRes d ! i = Some r"
    and "holds_rows my r rows"
  shows "m < length rows \<Longrightarrow> \<exists>d'. fetches my d (int i) m = Inr (True, d') \<and> mMySqlRow d' ! i = Some (rows ! m) \<and>
      wf_db k d' \<and> sqlLock d' = sqlLock d \<and> mMySqlNumFields d' = mMySqlNumFields d"
    and "\<exists>d'. fetches my d (int i) (length rows) = Inr (False, d')"
proof -
  have "(m < length rows \<longrightarrow> (\<exists>d'. fetches my d (int i) m = Inr (True, d') \<and> mMySqlRow d' ! i = Some (rows ! m) \<and>
      wf_db k d' \<and> sqlLock d' = sqlLock d \<and> mMySqlNumFields d' = mMySqlNumFields d)) \<and>
    (\<exists>d'. fetches my d (int i) (length rows) = Inr (False, d'))"
    using assms
  proof (induction rows arbitrary: d r m)
    case Nil
    then show ?case using FetchRow_step [OF Nil(1-4), of my None "snd (mysql_fetch_row my r)"]
      by (cases "mysql_fetch_row my r") simp
  next
    case (Cons row rows)
    let ?r' = "snd (mysql_fetch_row my r)"
    let ?d' = "d\<lparr>mMySqlRow := (mMySqlRow d)[i := Some row], mMySqlRes := (mMySqlRes d)[i := Some ?r']\<rparr>"
    have step: "STSV_DBFetchRow my d (int i) = Inr (True, ?d')"
      using FetchRow_step [OF Cons.prems(1-4), of my "Some row" ?r'] Cons.prems(5)
      by (cases "mysql_fetch_row my r") simp
    have d': "wf_db k ?d'" "sqlLock ?d' ! i" "mMySqlRes ?d' ! i = Some ?r'" "holds_rows my ?r' rows"
      "mMySqlRow ?d' ! i = Some row"
      using Cons.prems by (simp_all add: wf_db_def)
    note IH = Cons.IH [OF d'(1) Cons.prems(2) d'(2-4)]
    show ?case
    proof
      show "m < length (row # rows) \<longrightarrow> (\<exists>d'. fetches my d (int i) m = Inr (True, d') \<and>
          mMySqlRow d' ! i = Some ((row # rows) ! m) \<and> wf_db k d' \<and> sqlLock d' = sqlLock d \<and>
          mMySqlNumFields d' = mMySqlNumFields d)"
        using step d'(1,5) IH by (cases m) simp_all
      show "\<exists>d'. fetches my d (int i) (length (row # rows)) = Inr (False, d')" using step IH by simp
    qed
  qed
  then show "m < length rows \<Longrightarrow> \<exists>d'. fetches my d (int i) m = Inr (True, d') \<and> mMySqlRow d' ! i = Some (rows ! m) \<and>
      wf_db k d' \<and> sqlLock d' = sqlLock d \<and> mMySqlNumFields d' = mMySqlNumFields d"
    "\<exists>d'. fetches my d (int i) (length rows) = Inr (False, d')" by simp_all
qed

text \<open>A query that the server answers with a result.\<close>

lemma DBQuery_ok:
  assumes "wf_db k d" and "i < pool_size k" and "sqlLock d ! i" and "mMySqlRes d ! i = None"
    and "length sql < length (mMySqlCommand d ! i)"
    and "mysql_query my (db_world d) i sql = (0, w)" and "mysql_store_result my w i = (Some r, w')"
  shows "\<exists>d'. STSV_DBQuery my d (int i) sql = Inr (True, d') \<and> wf_db k d' \<and> sqlLock d' = sqlLock d \<and>
    mMySqlRes d' ! i = Some r \<and> mMySqlNumRow d' ! i = sint (ucast (mysql_num_rows my r) :: s32) \<and>
    mMySqlNumFields d' ! i = sint (mysql_num_fields my r)"
proof -
  obtain b where b: "c_strcpy (mMySqlCommand d ! i) sql = Inr b"
    using assms(5) by (simp add: c_strcpy_def store_def)
  have len: "i < length (mMySqlRes d)" "i < length (sqlLock d)" "i < length (mMySqlCommand d)"
    "i < length (mMySqlNumRow d)" "i < length (mMySqlNumFields d)"
    using assms(1,2) by (simp_all add: wf_db_def)
  show ?thesis
    using assms(1,3,4,6,7) b len
    by (simp add: STSV_DBQuery_def drop_result_def put_command_def query_def store_result_def get_at_nat set_at_nat
        Let_def wf_db_def)
qed

text \<open>C21: A query on a locked connection that the database answers gives its rows in order: after it,
\<open>STSV_DBNumRow\<close> and \<open>STSV_DBNumColum\<close> are the sizes of the result, the \<open>m\<close>-th fetch succeeds exactly
for the rows there are, and \<open>STSV_DBGetRowStringValue\<close> reads every cell, with \<open>0\<close> for NULL.\<close>

theorem query_rows_read:
  assumes "wf_db k d" and "i < pool_size k" and "sqlLock d ! i" and "mMySqlRes d ! i = None"
    and "length sql < length (mMySqlCommand d ! i)"
    and "mysql_query my (db_world d) i sql = (0, w)" and "mysql_store_result my w i = (Some r, w')"
    and "holds_rows my r rows" and "\<forall>row \<in> set rows. int (length row) = sint (mysql_num_fields my r)"
    and "mysql_num_rows my r = of_nat (length rows)" and "length rows < 2 ^ 31"
  shows "\<exists>d'. STSV_DBQuery my d (int i) sql = Inr (True, d') \<and> STSV_DBNumRow d' (int i) = Inr (int (length rows)) \<and>
    STSV_DBNumColum d' (int i) = Inr (sint (mysql_num_fields my r)) \<and>
    (\<exists>d''. fetches my d' (int i) (length rows) = Inr (False, d'')) \<and>
    (\<forall>m < length rows. \<exists>d''. fetches my d' (int i) m = Inr (True, d'') \<and>
       (\<forall>j < length (rows ! m). STSV_DBGetRowStringValue d'' (int i) (int j) = Inr (Some (cell (rows ! m ! j)))))"
proof -
  obtain d' where d': "STSV_DBQuery my d (int i) sql = Inr (True, d')" "wf_db k d'" "sqlLock d' = sqlLock d"
    "mMySqlRes d' ! i = Some r" "mMySqlNumRow d' ! i = sint (ucast (mysql_num_rows my r) :: s32)"
    "mMySqlNumFields d' ! i = sint (mysql_num_fields my r)"
    using DBQuery_ok [OF assms(1-7)] by blast
  have len: "i < length (sqlLock d')" "i < length (mMySqlNumRow d')" "i < length (mMySqlNumFields d')"
    using d'(2) assms(2) by (simp_all add: wf_db_def)
  have lock: "sqlLock d' ! i" using d'(3) assms(3) by simp
  have "ucast (of_nat (length rows) :: u64) = (of_nat (length rows) :: s32)"
    by (rule bit_word_eqI) (auto simp: bit_ucast_iff bit_of_nat_iff)
  then have rows: "sint (ucast (mysql_num_rows my r) :: s32) = int (length rows)"
    using assms(10,11) by (simp add: sint_of_nat_32)
  have counts: "STSV_DBNumRow d' (int i) = Inr (int (length rows))"
    "STSV_DBNumColum d' (int i) = Inr (sint (mysql_num_fields my r))"
    using len lock d'(5,6) rows by (simp_all add: STSV_DBNumRow_def STSV_DBNumColum_def get_at_nat)
  note fetch = fetches_rows [OF d'(2) assms(2) lock d'(4) assms(8)]
  have "\<exists>d''. fetches my d' (int i) m = Inr (True, d'') \<and>
      (\<forall>j < length (rows ! m). STSV_DBGetRowStringValue d'' (int i) (int j) = Inr (Some (cell (rows ! m ! j))))"
    if m: "m < length rows" for m
  proof -
    obtain d'' where d'': "fetches my d' (int i) m = Inr (True, d'')" "mMySqlRow d'' ! i = Some (rows ! m)"
      "wf_db k d''" "sqlLock d'' = sqlLock d'" "mMySqlNumFields d'' = mMySqlNumFields d'"
      using fetch(1) [OF m] by blast
    have row: "int (length (rows ! m)) = sint (mysql_num_fields my r)" using assms(9) m by simp
    have "STSV_DBGetRowStringValue d'' (int i) (int j) = Inr (Some (cell (rows ! m ! j)))"
      if j: "j < length (rows ! m)" for j
    proof -
      have "i < length (mMySqlRow d'')" "i < length (sqlLock d'')" "i < length (mMySqlNumFields d'')"
        using d''(3) assms(2) by (simp_all add: wf_db_def)
      moreover have "\<not> mMySqlNumFields d'' ! i < int j" using d''(5) d'(6) row j by simp
      ultimately show ?thesis using d''(2,4) lock j
        by (simp add: STSV_DBGetRowStringValue_def row_value_def get_at_nat cell_def split: option.split)
    qed
    with d''(1) show ?thesis by blast
  qed
  with d'(1) counts fetch(2) show ?thesis by blast
qed

text \<open>The guard of the two functions that read a cell admits the index just behind the row: with
\<open>rowIdx\<close> equal to the number of columns both read outside the row.\<close>

lemma row_guard_off_by_one:
  assumes "wf_db k d" and "i < pool_size k" and "sqlLock d ! i" and "mMySqlRow d ! i = Some row"
    and "mMySqlNumFields d ! i = int (length row)"
  shows "STSV_DBGetRowStringValue d (int i) (int (length row)) = Inl OutOfBounds \<and>
    STSV_DBGetRowIntValue d (int i) (int (length row)) = Inl OutOfBounds \<and>
    STSV_DBGetRowIntValue d (int i) (int (length row) + 1) = Inr (-1)"
  using assms
  by (simp add: wf_db_def STSV_DBGetRowStringValue_def STSV_DBGetRowIntValue_def row_value_def get_at_def)

text \<open>A database with one connection, whose queries all give one row of two columns.\<close>

definition wit_api :: "(unit, string option list list) mysql_api" where
  "wit_api = \<lparr>mysql_real_connect = (\<lambda>w _. (True, w)), mysql_close = (\<lambda>w _. w), mysql_query = (\<lambda>w _ _. (0, w)),
     mysql_real_query = (\<lambda>w _ _ _. (0, w)), mysql_errno = (\<lambda>_ _. 0), mysql_insert_id = (\<lambda>_ _. 0),
     mysql_store_result = (\<lambda>w _. (Some [[Some ''7'', None]], w)), mysql_num_rows = (\<lambda>r. of_nat (length r)),
     mysql_num_fields = (\<lambda>_. 2),
     mysql_fetch_row = (\<lambda>r. case r of [] \<Rightarrow> (None, []) | x # xs \<Rightarrow> (Some x, xs)), mysql_free_result = (\<lambda>w _. w)\<rparr>"

definition wit_db :: "(unit, string option list list) db" where
  "wit_db = \<lparr>db_world = (), pMySql = [True], mMySqlRes = [None], mMySqlRow = [Some [None, Some ''5'']],
     mMySqlNumRow = [-1], mMySqlNumFields = [2], mMySqlCommand = [replicate 16 NUL], sqlLock = [True],
     s_MutexFreeDBIdx = False, haveConnectDB = True, unlockDB = False, s_nCurDBConnect = 1\<rparr>"

lemma wit_db_facts:
  "wf_db (fresh_config\<lparr>s_nDBMaxConnect := 1\<rparr>) wit_db" "0 < pool_size (fresh_config\<lparr>s_nDBMaxConnect := 1\<rparr>)"
  "sqlLock wit_db ! 0" "mMySqlRes wit_db ! 0 = None" "length ''SELECT 1'' < length (mMySqlCommand wit_db ! 0)"
  "mysql_query wit_api (db_world wit_db) 0 ''SELECT 1'' = (0, ())"
  "mysql_store_result wit_api () 0 = (Some [[Some ''7'', None]], ())"
  "holds_rows wit_api [[Some ''7'', None]] [[Some ''7'', None]]"
  "\<forall>row \<in> set [[Some ''7'', None]]. int (length row) = sint (mysql_num_fields wit_api [[Some ''7'', None]])"
  "mysql_num_rows wit_api [[Some ''7'', None]] = of_nat (length [[Some ''7'', None :: string option]])"
  "length [[Some ''7'', None :: string option]] < 2 ^ 31"
  by (simp_all add: wf_db_def pool_size_def wit_db_def wit_api_def)

theorem query_rows_read_witness:
  "\<exists>d' d''. STSV_DBQuery wit_api wit_db 0 ''SELECT 1'' = Inr (True, d') \<and> STSV_DBNumRow d' 0 = Inr 1 \<and>
     fetches wit_api d' 0 0 = Inr (True, d'') \<and> STSV_DBGetRowStringValue d'' 0 1 = Inr (Some ''0'')"
  using query_rows_read [OF wit_db_facts] by (force simp: cell_def)

lemma row_guard_off_by_one_witness: "STSV_DBGetRowStringValue wit_db 0 2 = Inl OutOfBounds"
  using row_guard_off_by_one [OF wit_db_facts(1-3), of "[None, Some ''5'']"] by (simp add: wit_db_def)

lemma FindAndLockResource_least_witness:
  "\<exists>d'. STSV_DBFindAndLockResource (fresh_config\<lparr>s_nDBMaxConnect := 1\<rparr>) (wit_db\<lparr>sqlLock := [False]\<rparr>) = Inr (d', 0)"
proof -
  let ?k = "fresh_config\<lparr>s_nDBMaxConnect := 1\<rparr>" and ?d = "wit_db\<lparr>sqlLock := [False]\<rparr>"
  have wf: "wf_db ?k ?d" and av: "available ?d 0" and one: "pool_size ?k = 1"
    by (simp_all add: wf_db_def pool_size_def wit_db_def available_def)
  have "\<not> s_MutexFreeDBIdx ?d" by (simp add: wit_db_def)
  from FindAndLockResource_least [OF wf _ this] av one show ?thesis by auto
qed

section \<open>Disconnecting\<close>

lemma disconnect_one_total:
  assumes "wf_db k d" and "i < pool_size k"
  shows "\<exists>d'. disconnect_one my d i = Inr d' \<and> wf_db k d'"
  using assms
  by (cases "mMySqlRes d ! i")
    (simp_all add: disconnect_one_def STSV_DBReleaseResult_def wf_db_def get_at_nat set_at_nat)

lemma disconnect_total:
  assumes "wf_db k d" and "\<forall>i \<in> set is. i < pool_size k"
  shows "\<exists>d'. foldR (disconnect_one my) d is = Inr d' \<and> wf_db k d'"
  using assms
proof (induction "is" arbitrary: d)
  case (Cons i "is")
  then obtain d1 where "disconnect_one my d i = Inr d1" "wf_db k d1"
    using disconnect_one_total [of k d i my] by auto
  with Cons.IH [of d1] Cons.prems(2) show ?case by simp
qed simp

lemma DisConnect_total: "wf_db k d \<Longrightarrow> \<exists>d'. STDB_DisConnect my k d = Inr (d', 0)"
  using disconnect_total [of k d "[0..<pool_size k]" my] by (auto simp: STDB_DisConnect_def pool_size_def)

end
