(* ===== verification/Star_Server.thy ===== *)
theory Star_Server
  imports Star_Answer Star_Room Star_DB
begin

text \<open>
  The server itself: creating the listening socket, accepting clients, stopping. What the operating
  system answers (socket numbers, results of \<open>bind\<close>, \<open>listen\<close>, \<open>accept\<close> and \<open>pthread_create\<close>) are
  arguments. A thread that is created runs elsewhere (Star_Thread); the messages of \<open>LogString\<close> are
  not followed.
\<close>

section \<open>Settings and getters\<close>

definition STSV_INVALID_SOCKET :: int where "STSV_INVALID_SOCKET = -1"
definition MAX_GAME_SERVER :: u32 where "MAX_GAME_SERVER = 1"

definition STSV_GetMaxClient :: "server \<Rightarrow> int" where
  "STSV_GetMaxClient s = s_nMaxConnection (cfg s)"

definition STSV_GetMemoryUse :: "server \<Rightarrow> nat" where
  "STSV_GetMemoryUse s = s_nMemoryUse s"

definition STSV_GetMaxMemoryGB :: "server \<Rightarrow> u32" where
  "STSV_GetMaxMemoryGB s = word_of_int (s_nServerMEMG (cfg s))"

definition STSV_GetMaxGameServer :: u32 where
  "STSV_GetMaxGameServer = MAX_GAME_SERVER"

definition STSV_GetCurConnection :: "server \<Rightarrow> u32" where
  "STSV_GetCurConnection s = s_nCurLoginCount s"

definition STSV_GetEstimateRamUse :: "server \<Rightarrow> nat" where
  "STSV_GetEstimateRamUse s = s_EstimateRam s"

text \<open>\<open>htonl (INADDR_ANY)\<close>: the bytes of 0 in the other order.\<close>

definition htonl :: "u32 \<Rightarrow> u32" where
  "htonl w = un32 (rev (le32 w))"

definition INADDR_ANY :: u32 where "INADDR_ANY = 0"

definition STSV_GetLoginServerIP :: u32 where "STSV_GetLoginServerIP = htonl INADDR_ANY"
definition STSV_GetGameServerIP :: "int \<Rightarrow> u32" where "STSV_GetGameServerIP gameServerID = htonl INADDR_ANY"
definition STSV_GetDBServerIP :: u32 where "STSV_GetDBServerIP = htonl INADDR_ANY"

definition STSV_SetUnlimitServer :: "server \<Rightarrow> bool \<Rightarrow> server" where
  "STSV_SetUnlimitServer s unlimit = s\<lparr>s_bUnlimit := unlimit\<rparr>"

definition STSV_SetClientRequestFunction :: "server \<Rightarrow> callback \<Rightarrow> server" where
  "STSV_SetClientRequestFunction s f = s\<lparr>processMSGClientRequest := f\<rparr>"

definition STSV_SetClientDisconnectFunction :: "server \<Rightarrow> callback \<Rightarrow> server" where
  "STSV_SetClientDisconnectFunction s f = s\<lparr>processMSGClientDisconnect := f\<rparr>"

definition STSV_SetClientConnectFunction :: "server \<Rightarrow> callback \<Rightarrow> server" where
  "STSV_SetClientConnectFunction s f = s\<lparr>processMSGClientConnect := f\<rparr>"

section \<open>Sockets\<close>

text \<open>A closed socket delivers and takes nothing any more; what was sent on it is remembered.\<close>

definition DestroySocket :: "server \<Rightarrow> int \<Rightarrow> server \<times> int" where
  "DestroySocket s sock = (s\<lparr>net := (net s)(sock := (net s sock)\<lparr>rx := [], tx := [], closed := True\<rparr>)\<rparr>, 0)"

definition SetNonBlocking :: "server \<Rightarrow> nat \<Rightarrow> int \<Rightarrow> server result" where
  "SetNonBlocking s i setBlocking = on_client s i (\<lambda>c. Inr (c\<lparr>NonBlocking := (setBlocking \<noteq> 0)\<rparr>))"

definition FindFreeIdxHost :: "server \<Rightarrow> int result" where
  "FindFreeIdxHost s = find_slot (\<lambda>c. \<not> online c) (s_Client_t s) 0 (nat (s_nMaxConnection (cfg s)))"

definition free_host :: "server \<Rightarrow> int" where
  "free_host s = first_free (\<lambda>i. \<not> online (s_Client_t s ! i)) 0 (nat (s_nMaxConnection (cfg s)))"

interpretation hosts: slot_search "\<lambda>s. nat (s_nMaxConnection (cfg s))" "\<lambda>s i. \<not> online (s_Client_t s ! i)" free_host
  by unfold_locales (simp add: free_host_def)

definition wf_hosts :: "server \<Rightarrow> bool" where
  "wf_hosts s \<longleftrightarrow> int (length (s_Client_t s)) = s_nMaxConnection (cfg s)"

lemma wf_hosts_length: "wf_hosts s \<Longrightarrow> nat (s_nMaxConnection (cfg s)) = length (s_Client_t s)"
  unfolding wf_hosts_def by (metis nat_int)

lemma FindFreeIdxHost_eq: "wf_hosts s \<Longrightarrow> FindFreeIdxHost s = Inr (free_host s)"
  unfolding FindFreeIdxHost_def free_host_def by (rule find_slot_first_free) (simp add: wf_hosts_length)

section \<open>The listening socket\<close>

text \<open>
  What the system answers while the server is created. With a protocol other than 0 and 1 the code
  uses \<open>sock\<close> and \<open>ret\<close> without a value: they are what the stack holds.
\<close>

record os_results =
  os_socket :: int
  os_bind :: int
  os_addr_in_use :: bool
  os_bind_again :: int
  os_listen :: int
  os_thread :: int
  os_stack_sock :: int
  os_stack_ret :: int

definition CreateTCPServer :: "os_results \<Rightarrow> server \<Rightarrow> ('w, 'r) db \<Rightarrow> int \<Rightarrow> int \<times> server \<times> ('w, 'r) db" where
  "CreateTCPServer os s d listenSock =
     (if os_listen os = -1 then (1, s, d)
      else
        (let s = s\<lparr>s_ServerDesc := \<lparr>listenSocket = listenSock, sd_online = True\<rparr>, s_nCurLoginCount := 0\<rparr>;
             d = d\<lparr>s_nCurDBConnect := 0\<rparr>
         in (if os_thread os \<noteq> 0 then -1 else 0, s, d)))"

definition CreateUDPServer :: "os_results \<Rightarrow> server \<Rightarrow> ('w, 'r) db \<Rightarrow> int \<Rightarrow> int \<times> server \<times> ('w, 'r) db" where
  "CreateUDPServer os s d linstenSock =
     (let s = s\<lparr>s_ServerDesc := \<lparr>listenSocket = linstenSock, sd_online = True\<rparr>, s_nCurLoginCount := 0\<rparr>;
          d = d\<lparr>s_nCurDBConnect := 0\<rparr>
      in (if os_thread os \<noteq> 0 then -1 else 0, s, d))"

text \<open>Only a port in use is an error; any other failure of \<open>bind\<close> is passed over.\<close>

definition CreateServer :: "os_results \<Rightarrow> server \<Rightarrow> ('w, 'r) db \<Rightarrow> int \<times> server \<times> ('w, 'r) db" where
  "CreateServer os s d =
     (let p = s_nProtocol (cfg s);
          sock = (if p = STSV_UDP_PROTOCOL \<or> p = STSV_TCP_PROTOCOL then os_socket os else os_stack_sock os) in
      if os_bind os = -1 \<and> os_addr_in_use os \<and> os_bind_again os = -1
      then (-1, fst (DestroySocket s sock), d)
      else if p = STSV_UDP_PROTOCOL then CreateUDPServer os s d sock
      else if p = STSV_TCP_PROTOCOL then CreateTCPServer os s d sock
      else (os_stack_ret os, s, d))"

section \<open>Accepting a TCP client\<close>

text \<open>
  What the system answers to one connection: the results of the calls of \<open>accept\<close>, the length of
  the address, the results of \<open>pthread_join\<close> and \<open>pthread_create\<close>, and the connection behind the
  new socket.
\<close>

record accept_os =
  ac_socks :: "int list"
  ac_len :: int
  ac_join :: int
  ac_thread :: int
  ac_conn :: conn

fun accept_socket :: "int list \<Rightarrow> int result" where
  "accept_socket [] = Inl Blocked"
| "accept_socket (n # ns) = (if n = STSV_INVALID_SOCKET then accept_socket ns else Inr n)"

text \<open>The assignments to the slot; all its other fields keep the values of the client before.\<close>

definition take_slot :: "accept_os \<Rightarrow> int \<Rightarrow> nat \<Rightarrow> Client_t \<Rightarrow> Client_t" where
  "take_slot a connectSock i c =
     c\<lparr>thread := (if thread c \<and> ac_join a = 0 then False else thread c),
       socket := connectSock, addrLen := ac_len a, online := True, idx := of_nat i, packRef := 0,
       roomIdx := -1, curPacketNo := 0, fileDataSending := False, bigDataReady := False\<rparr>"

text \<open>
  \<open>AcceptConnection\<close> up to the call of \<open>pthread_create\<close>, with the slot that was taken (none when the table is
  full), what is done when no thread can be created, and the whole: \<open>s_nCurLoginCount\<close> is raised after the thread
  of the client is there. \<open>pthread_join\<close> waits for the thread that had the slot before; here it only has a result.
\<close>

definition accept_client :: "accept_os \<Rightarrow> server \<Rightarrow> (nat option \<times> server) result" where
  "accept_client a s =
     bindR (accept_socket (ac_socks a)) (\<lambda>connectSock.
     (let s = s\<lparr>net := (net s)(connectSock := ac_conn a)\<rparr> in
      bindR (FindFreeIdxHost s) (\<lambda>freeHostIdx.
        if freeHostIdx < 0 then Inr (None, fst (DestroySocket s connectSock))
        else
          (let i = nat freeHostIdx in
           bindR (on_client s i (\<lambda>c. Inr (take_slot a connectSock i c))) (\<lambda>s.
           bindR (SetNonBlocking s i 1) (\<lambda>s.
           bindR (WriteTo_client s i (header_message STSOCKMSG_GIVEID (of_nat i))) (\<lambda>(_, s).
             Inr (Some i, s))))))))"

definition give_up_slot :: "server \<Rightarrow> nat \<Rightarrow> server result" where
  "give_up_slot s i =
     bindR (go_offline s i) (\<lambda>s. bindR (client_at s i) (\<lambda>c. Inr (fst (DestroySocket s (socket c)))))"

definition AcceptConnection :: "accept_os \<Rightarrow> server \<Rightarrow> server result" where
  "AcceptConnection a s =
     bindR (accept_client a s) (\<lambda>(slot, s).
       case slot of
         None \<Rightarrow> Inr s
       | Some i \<Rightarrow>
           if ac_thread a \<noteq> 0 then give_up_slot s i
           else Inr (s\<lparr>s_nCurLoginCount := s_nCurLoginCount s + 1\<rparr>))"

section \<open>Accepting a UDP client\<close>

text \<open>
  The system's answers: the socket of the new client, the result of \<open>pthread_create\<close>, the new
  listening socket and the result of its \<open>bind\<close>; \<open>stack\<close> is what \<open>dataBuff\<close> holds on entry.
\<close>

record udp_os =
  udp_stack :: "u8 list"
  udp_len :: int
  udp_socket :: int
  udp_thread :: int
  udp_listen :: int
  udp_bind :: int

text \<open>
  \<open>ReadFrom\<close> on the listening socket: a failure is not told apart from data. A call that reads
  nothing is repeated, so an empty datagram is passed over.
\<close>

fun knock_loop :: "recv_event list \<Rightarrow> (u8 list \<times> recv_event list) result" where
  "knock_loop [] = Inl Blocked"
| "knock_loop (ev # evs) =
     bindR (ReadFrom_datagram (ev # evs) sizeof_DATASIZE) (\<lambda>(n, bs, evs').
       if n \<noteq> 0 then Inr (bs, evs') else knock_loop evs)"

definition read_knock :: "server \<Rightarrow> u8 list \<Rightarrow> (u8 list \<times> server) result" where
  "read_knock s dataBuff =
     (let sock = listenSocket (s_ServerDesc s) in
      bindR (knock_loop (rx (net s sock))) (\<lambda>(bs, evs).
      bindR (store dataBuff 0 bs) (\<lambda>b.
        Inr (b, s\<lparr>net := (net s)(sock := (net s sock)\<lparr>rx := evs\<rparr>)\<rparr>))))"

text \<open>The index of the free slot is not checked: \<open>s_Client_t[-1]\<close> when there is none.\<close>

definition AcceptConnectionUDP :: "udp_os \<Rightarrow> server \<Rightarrow> server result" where
  "AcceptConnectionUDP u s =
     bindR (read_knock s (udp_stack u)) (\<lambda>(dataBuff, s).
     bindR (msg_type dataBuff) (\<lambda>ty.
       if ty \<noteq> STSOCKMSG_KNOCK then Inr s
       else
         bindR (FindFreeIdxHost s) (\<lambda>freeIdx.
         bindR (get_at (s_Client_t s) freeIdx) (\<lambda>c.
         (let i = nat freeIdx;
              s = fst (DestroySocket s (listenSocket (s_ServerDesc s)));
              s = put_client s i (c\<lparr>addrLen := udp_len u, online := True, packRef := 0,
                socket := udp_socket u, idx := of_nat i\<rparr>) in
          bindR (if udp_thread u \<noteq> 0
              then bindR (go_offline s i) (\<lambda>s. Inr (fst (DestroySocket s (udp_socket u))))
              else Inr (s\<lparr>s_nCurLoginCount := s_nCurLoginCount s + 1\<rparr>)) (\<lambda>s.
            if udp_bind u = -1 then Inr (fst (DestroySocket s (udp_listen u)))
            else Inr (s\<lparr>s_ServerDesc := (s_ServerDesc s)\<lparr>listenSocket := udp_listen u\<rparr>\<rparr>)))))))"

section \<open>The accepting threads\<close>

text \<open>One element per return of \<open>select\<close> and \<open>poll\<close>; with the list used up the thread waits.\<close>

fun STSV_PollAcceptFunc :: "(int \<times> accept_os) list \<Rightarrow> server \<Rightarrow> server result" where
  "STSV_PollAcceptFunc [] s = (if sd_online (s_ServerDesc s) then Inl Blocked else Inr s)"
| "STSV_PollAcceptFunc ((nready, a) # evs) s =
     (if sd_online (s_ServerDesc s)
      then bindR (if 0 < nready then AcceptConnection a s else Inr s) (STSV_PollAcceptFunc evs)
      else Inr s)"

fun STSV_KoockAcceptFunc :: "(int \<times> udp_os) list \<Rightarrow> server \<Rightarrow> server result" where
  "STSV_KoockAcceptFunc [] s = (if sd_online (s_ServerDesc s) then Inl Blocked else Inr s)"
| "STSV_KoockAcceptFunc ((nready, u) # evs) s =
     (if sd_online (s_ServerDesc s)
      then bindR (if 0 < nready then AcceptConnectionUDP u s else Inr s) (STSV_KoockAcceptFunc evs)
      else Inr s)"

section \<open>Sending to everybody\<close>

text \<open>The loop starts with client 1.\<close>

definition write_client :: "u8 list \<Rightarrow> server \<Rightarrow> nat \<Rightarrow> server result" where
  "write_client buff s i =
     bindR (client_at s i) (\<lambda>c.
       if \<not> online c then Inr s
       else bindR (WriteAll_one (NonBlocking c) (net s (socket c)) buff) (\<lambda>k.
         Inr (s\<lparr>net := (net s)(socket c := k)\<rparr>)))"

definition WriteAll :: "server \<Rightarrow> u8 list \<Rightarrow> server result" where
  "WriteAll s buff = foldR (write_client buff) s [1..<nat (s_nMaxConnection (cfg s))]"

section \<open>Stopping\<close>

definition stop_client :: "server \<Rightarrow> nat \<Rightarrow> server result" where
  "stop_client s i =
     bindR (client_at s i) (\<lambda>c. Inr (if online c then fst (DestroySocket s (socket c)) else s))"

definition STSV_Stop :: "('w, 'r) mysql_api \<Rightarrow> server \<Rightarrow> ('w, 'r) db \<Rightarrow> (int \<times> server \<times> ('w, 'r) db) result" where
  "STSV_Stop my s d =
     bindR (foldR stop_client s [0..<nat (s_nMaxConnection (cfg s))]) (\<lambda>s.
     (let s = fst (DestroySocket s (listenSocket (s_ServerDesc s))) in
      bindR (STDB_DisConnect my (cfg s) d) (\<lambda>(d, _). Inr (0, s, d))))"

section \<open>What accepting does\<close>

lemma DestroySocket_frame [simp]:
  "s_Client_t (fst (DestroySocket s k)) = s_Client_t s" "cfg (fst (DestroySocket s k)) = cfg s"
  "s_ServerDesc (fst (DestroySocket s k)) = s_ServerDesc s" "s_nCurLoginCount (fst (DestroySocket s k)) = s_nCurLoginCount s"
  "crcTable (fst (DestroySocket s k)) = crcTable s" "s_Room_t (fst (DestroySocket s k)) = s_Room_t s"
  by (simp_all add: DestroySocket_def)

lemma DestroySocket_net:
  "net (fst (DestroySocket s k)) j = (if j = k then (net s k)\<lparr>rx := [], tx := [], closed := True\<rparr> else net s j)"
  by (simp add: DestroySocket_def)

lemma WriteTo_client_frame:
  assumes "WriteTo_client s i b = Inr (r, s')"
  shows "\<exists>n. s' = s\<lparr>net := n\<rparr>"
  using assms by (auto simp: WriteTo_client_def bindR_Inr_iff)

lemma accept_client_found:
  assumes "wf_hosts s" and "accept_socket (ac_socks a) = Inr k" and "free_host s = int i"
  shows "accept_client a s =
    bindR (WriteTo_client (put_client (s\<lparr>net := (net s)(k := ac_conn a)\<rparr>) i
        ((take_slot a k i (s_Client_t s ! i))\<lparr>NonBlocking := True\<rparr>)) i (header_message STSOCKMSG_GIVEID (of_nat i)))
      (\<lambda>(_, s). Inr (Some i, s))"
proof -
  let ?s = "s\<lparr>net := (net s)(k := ac_conn a)\<rparr>"
  have find: "FindFreeIdxHost ?s = Inr (int i)"
    using FindFreeIdxHost_eq [OF assms(1)] assms(3) by (simp add: FindFreeIdxHost_def)
  have il: "i < length (s_Client_t s)"
    using hosts.found_free [OF assms(3)] wf_hosts_length [OF assms(1)] by simp
  have "client_at ?s i = Inr (s_Client_t s ! i)" using il by (simp add: client_at_Inr_iff)
  then have st1: "on_client ?s i (\<lambda>c. Inr (take_slot a k i c)) = Inr (put_client ?s i (take_slot a k i (s_Client_t s ! i)))"
    by (simp add: on_client_def)
  have st2: "SetNonBlocking (put_client ?s i (take_slot a k i (s_Client_t s ! i))) i 1 =
      Inr (put_client ?s i ((take_slot a k i (s_Client_t s ! i))\<lparr>NonBlocking := True\<rparr>))"
    using il by (simp add: SetNonBlocking_def on_client_def)
  show ?thesis using assms(2) find st1 st2 by (simp add: accept_client_def)
qed

lemma accept_client_full:
  assumes "wf_hosts s" and "accept_socket (ac_socks a) = Inr k" and "free_host s < 0"
  shows "accept_client a s = Inr (None, fst (DestroySocket (s\<lparr>net := (net s)(k := ac_conn a)\<rparr>) k))"
proof -
  have "FindFreeIdxHost (s\<lparr>net := n\<rparr>) = Inr (free_host s)" for n
    using FindFreeIdxHost_eq [OF assms(1)] by (simp add: FindFreeIdxHost_def)
  with assms(2,3) show ?thesis by (simp add: accept_client_def)
qed

text \<open>The slot that a client got, and what has become of the server.\<close>

lemma accept_client_cases:
  assumes "wf_hosts s" and "accept_client a s = Inr (slot, s')"
  obtains k where "slot = None" "accept_socket (ac_socks a) = Inr k" "\<forall>j < length (s_Client_t s). online (s_Client_t s ! j)"
      "s' = fst (DestroySocket (s\<lparr>net := (net s)(k := ac_conn a)\<rparr>) k)"
    | k i n where "slot = Some i" "accept_socket (ac_socks a) = Inr k" "i < length (s_Client_t s)" "free_host s = int i"
      "s' = put_client (s\<lparr>net := n\<rparr>) i ((take_slot a k i (s_Client_t s ! i))\<lparr>NonBlocking := True\<rparr>)"
proof -
  from assms(2) obtain k where k: "accept_socket (ac_socks a) = Inr k"
    by (auto simp: accept_client_def bindR_Inr_iff)
  show ?thesis
  proof (cases "free_host s < 0")
    case True
    then have "\<forall>j < length (s_Client_t s). online (s_Client_t s ! j)"
      using hosts.neg_iff [of s] wf_hosts_length [OF assms(1)] by simp
    with accept_client_full [OF assms(1) k True] assms(2) that(1) k show ?thesis by simp
  next
    case False
    define i where "i = nat (free_host s)"
    then have i: "free_host s = int i" using False by simp
    have il: "i < length (s_Client_t s)"
      using hosts.found_free [OF i] wf_hosts_length [OF assms(1)] by simp
    let ?c = "(take_slot a k i (s_Client_t s ! i))\<lparr>NonBlocking := True\<rparr>"
    let ?s2 = "put_client (s\<lparr>net := (net s)(k := ac_conn a)\<rparr>) i ?c"
    from assms(2) accept_client_found [OF assms(1) k i] obtain r where
      w: "WriteTo_client ?s2 i (header_message STSOCKMSG_GIVEID (of_nat i)) = Inr (r, s')" "slot = Some i"
      by (auto simp: bindR_Inr_iff)
    obtain n where "s' = ?s2\<lparr>net := n\<rparr>" using WriteTo_client_frame [OF w(1)] by blast
    then have "s' = put_client (s\<lparr>net := n\<rparr>) i ?c" by (simp add: put_client_def)
    then show ?thesis using that(2) [OF w(2) k il i] by simp
  qed
qed

lemma give_up_slot_eq:
  assumes "client_at s i = Inr c"
  shows "give_up_slot s i = Inr (fst (DestroySocket (put_client s i (c\<lparr>online := False\<rparr>)) (socket c)))"
proof -
  have "client_at (put_client s i (c\<lparr>online := False\<rparr>)) i = Inr (c\<lparr>online := False\<rparr>)"
    using assms by (simp add: client_at_Inr_iff)
  with assms show ?thesis by (simp add: give_up_slot_def go_offline_def on_client_def)
qed

lemma AcceptConnection_cases:
  assumes "wf_hosts s" and "AcceptConnection a s = Inr s'"
  obtains k where "accept_socket (ac_socks a) = Inr k" "\<forall>j < length (s_Client_t s). online (s_Client_t s ! j)"
      "s' = fst (DestroySocket (s\<lparr>net := (net s)(k := ac_conn a)\<rparr>) k)"
    | k i n s1 where "accept_socket (ac_socks a) = Inr k" "i < length (s_Client_t s)" "free_host s = int i"
      "s1 = (put_client (s\<lparr>net := n\<rparr>) i ((take_slot a k i (s_Client_t s ! i))\<lparr>NonBlocking := True\<rparr>))"
      "s' = (if ac_thread a \<noteq> 0
         then fst (DestroySocket (put_client s1 i ((take_slot a k i (s_Client_t s ! i))\<lparr>NonBlocking := True, online := False\<rparr>)) k)
         else s1\<lparr>s_nCurLoginCount := s_nCurLoginCount s + 1\<rparr>)"
proof -
  from assms(2) obtain slot s1 where s1: "accept_client a s = Inr (slot, s1)"
    and s': "(case slot of None \<Rightarrow> Inr s1 | Some i \<Rightarrow> if ac_thread a \<noteq> 0 then give_up_slot s1 i
      else Inr (s1\<lparr>s_nCurLoginCount := s_nCurLoginCount s1 + 1\<rparr>)) = Inr s'"
    by (auto simp: AcceptConnection_def bindR_Inr_iff)
  from assms(1) s1 show ?thesis
  proof (cases rule: accept_client_cases)
    case (1 k)
    with s' show ?thesis using that(1) [of k] by simp
  next
    case (2 k i n)
    have "client_at s1 i = Inr ((take_slot a k i (s_Client_t s ! i))\<lparr>NonBlocking := True\<rparr>)"
      using 2(3) by (simp add: 2(5))
    moreover have "s_nCurLoginCount s1 = s_nCurLoginCount s" by (simp add: 2(5))
    ultimately have "s' = (if ac_thread a \<noteq> 0
        then fst (DestroySocket (put_client s1 i ((take_slot a k i (s_Client_t s ! i))\<lparr>NonBlocking := True, online := False\<rparr>)) k)
        else s1\<lparr>s_nCurLoginCount := s_nCurLoginCount s + 1\<rparr>)"
      using s' give_up_slot_eq [of s1 i] by (auto simp: 2(1) take_slot_def split: if_splits)
    with that(2) [OF 2(2-5)] show ?thesis .
  qed
qed

text \<open>C19: Accepting a connection never touches a client that is online: the new client gets the first free
slot, with its number as identity and a fresh packet reference, and the others keep their state; when
every slot is taken the connection is closed and no client changes.\<close>

theorem accept_takes_a_free_slot:
  assumes "wf_hosts s" and "AcceptConnection a s = Inr s'"
  shows "wf_hosts s' \<and>
    (\<forall>j < length (s_Client_t s). online (s_Client_t s ! j) \<longrightarrow> s_Client_t s' ! j = s_Client_t s ! j) \<and>
    (if \<forall>j < length (s_Client_t s). online (s_Client_t s ! j)
     then s_Client_t s' = s_Client_t s \<and> (\<exists>k. accept_socket (ac_socks a) = Inr k \<and> closed (net s' k))
     else \<exists>i c. i < length (s_Client_t s) \<and> \<not> online (s_Client_t s ! i) \<and>
       (\<forall>j < i. online (s_Client_t s ! j)) \<and> client_at s' i = Inr c \<and> idx c = of_nat i \<and> packRef c = 0 \<and>
       accept_socket (ac_socks a) = Inr (socket c) \<and> online c = (ac_thread a = 0) \<and>
       s_nCurLoginCount s' = s_nCurLoginCount s + (if ac_thread a = 0 then 1 else 0))"
  using assms
proof (cases rule: AcceptConnection_cases)
  case (1 k)
  then show ?thesis using assms(1) by (auto simp: wf_hosts_def DestroySocket_net)
next
  case (2 k i n s1)
  have free: "\<not> online (s_Client_t s ! i)" "\<forall>j < i. online (s_Client_t s ! j)"
    using hosts.found_free [OF 2(3)] hosts.found_least [OF 2(3)] by auto
  let ?d = "(take_slot a k i (s_Client_t s ! i))\<lparr>NonBlocking := True\<rparr>"
  let ?c = "if ac_thread a = 0 then ?d else ?d\<lparr>online := False\<rparr>"
  have cs: "s_Client_t s' = (s_Client_t s)[i := ?c]"
    by (simp add: 2(4,5) put_client_def)
  have "cfg s' = cfg s" "s_nCurLoginCount s' = s_nCurLoginCount s + (if ac_thread a = 0 then 1 else 0)"
    by (simp_all add: 2(4,5))
  then show ?thesis
    using assms(1) 2(1,2) free cs
    by (auto simp: wf_hosts_def client_at_Inr_iff take_slot_def nth_list_update intro!: exI [of _ i])
qed

text \<open>C38: What one client was owed is sent to the next: a slot whose client left blocks unsent keeps them, and
the first answer to the client that gets the slot is the packet of the previous client's data.\<close>

theorem next_client_gets_old_data:
  assumes "wf_hosts s" and "free_host s = int i" and "client_at s i = Inr c" and "wf_client c"
    and "\<not> m_Mutex c" and "0 < sendCount c" and "s_nProtocol (cfg s) = STSV_TCP_PROTOCOL"
    and "crcTable s = STOS_InitCRCTable t" and "AcceptConnection a s = Inr s1" and "ac_thread a = 0"
    and "P = packet 0 (queued c)" and "0 \<notin> set ws" and "length P \<le> progress ws"
  shows "\<exists>c1. client_at s1 i = Inr c1 \<and> accept_socket (ac_socks a) = Inr (socket c1) \<and>
    (\<exists>s2. EndPackSendData (s1\<lparr>net := (net s1)(socket c1 := (net s1 (socket c1))\<lparr>tx := ws\<rparr>)\<rparr>) i = Inr s2 \<and>
      sent (net s2 (socket c1)) = sent (net s1 (socket c1)) @ P)"
  using assms(1,9)
proof (cases rule: AcceptConnection_cases)
  case (1 k)
  then show ?thesis using assms(2) hosts.found_free [OF assms(2)] wf_hosts_length [OF assms(1)] by auto
next
  case (2 k j n s')
  have ji: "j = i" using 2(3) assms(2) by simp
  have c: "s_Client_t s ! i = c" "i < length (s_Client_t s)" using assms(3) by (simp_all add: client_at_Inr_iff)
  define c1 where "c1 = (take_slot a k i c)\<lparr>NonBlocking := True\<rparr>"
  have s1: "s1 = (put_client (s\<lparr>net := n\<rparr>) i c1)\<lparr>s_nCurLoginCount := s_nCurLoginCount s + 1\<rparr>"
    using 2(4,5) assms(10) c(1) ji by (simp add: c1_def)
  have at1: "client_at s1 i = Inr c1" using c(2) by (simp add: s1 client_at_Inr_iff put_client_def)
  have f: "socket c1 = k" "packRef c1 = 0" "queued c1 = queued c" "wf_client c1" "\<not> m_Mutex c1" "0 < sendCount c1"
    "\<not> fileDataSending c1"
    using assms(4-6) by (simp_all add: c1_def take_slot_def queued_def wf_client_def)
  let ?s = "s1\<lparr>net := (net s1)(socket c1 := (net s1 (socket c1))\<lparr>tx := ws\<rparr>)\<rparr>"
  have at: "client_at ?s i = Inr c1" using at1 by simp
  have env: "s_nProtocol (cfg ?s) = STSV_TCP_PROTOCOL" "crcTable ?s = STOS_InitCRCTable t"
    using assms(7,8) by (simp_all add: s1)
  have P: "P = packet (packRef c1) (queued c1)" using assms(11) f by simp
  have out: "0 \<notin> set (tx (net ?s (socket c1)))" "length P \<le> progress (tx (net ?s (socket c1)))"
    using assms(12,13) by simp_all
  obtain s2 b k' where "EndPackSendData ?s i = Inr s2" "sent k' = sent (net ?s (socket c1)) @ P"
    "s2 = put_client (?s\<lparr>net := (net ?s)(socket c1 := k')\<rparr>) i
      (c1\<lparr>sendBuffer := b, sendDataSize := length P, recvCount := 0, sendCount := 0, curPacketNo := 0\<rparr>)"
    using EndPackSendData_sends [OF at f(4-7) env P refl out] by blast
  with at1 f(1) 2(1) show ?thesis by auto
qed

text \<open>A knock on a full UDP server writes outside the table of clients: the index -1 of \<open>FindFreeIdxHost\<close>
is used without a check.\<close>

lemma udp_knock_on_full_table:
  assumes "wf_hosts s" and "\<forall>j < length (s_Client_t s). online (s_Client_t s ! j)"
    and "read_knock s (udp_stack u) = Inr (b, s1)" and "msg_type b = Inr STSOCKMSG_KNOCK"
  shows "AcceptConnectionUDP u s = Inl OutOfBounds"
proof -
  have s1: "s_Client_t s1 = s_Client_t s" "cfg s1 = cfg s"
    using assms(3) by (auto simp: read_knock_def Let_def bindR_Inr_iff)
  have "wf_hosts s1" using assms(1) s1 by (simp add: wf_hosts_def)
  moreover have "free_host s1 = -1"
    using assms(2) s1 hosts.none_iff [of s1] wf_hosts_length [OF \<open>wf_hosts s1\<close>] by simp
  ultimately have "FindFreeIdxHost s1 = Inr (-1)" by (simp add: FindFreeIdxHost_eq)
  with assms(3,4) show ?thesis by (simp add: AcceptConnectionUDP_def get_at_def)
qed

lemma AcceptConnection_returns:
  assumes "wf_hosts s" and "accept_socket (ac_socks a) = Inr k" and "s_nProtocol (cfg s) = STSV_TCP_PROTOCOL"
    and "0 \<notin> set (tx (ac_conn a))" and "12 \<le> progress (tx (ac_conn a))"
  shows "\<exists>s'. AcceptConnection a s = Inr s'"
proof (cases "free_host s < 0")
  case True
  with accept_client_full [OF assms(1,2)] show ?thesis by (simp add: AcceptConnection_def)
next
  case False
  define i where "i = nat (free_host s)"
  then have i: "free_host s = int i" using False by simp
  have il: "i < length (s_Client_t s)"
    using hosts.found_free [OF i] wf_hosts_length [OF assms(1)] by simp
  let ?c = "(take_slot a k i (s_Client_t s ! i))\<lparr>NonBlocking := True\<rparr>"
  let ?s = "put_client (s\<lparr>net := (net s)(k := ac_conn a)\<rparr>) i ?c"
  have at: "client_at ?s i = Inr ?c" using il by simp
  have k: "socket ?c = k" by (simp add: take_slot_def)
  have "s_nProtocol (cfg ?s) = STSV_TCP_PROTOCOL" "0 \<notin> set (tx (net ?s (socket ?c)))"
    "length (header_message STSOCKMSG_GIVEID (of_nat i)) \<le> progress (tx (net ?s (socket ?c)))"
    using assms(3-5) by (simp_all only: k put_client_frame) simp_all
  from WriteTo_client_all [OF at this] obtain n where
    "WriteTo_client ?s i (header_message STSOCKMSG_GIVEID (of_nat i)) = Inr (12, ?s\<lparr>net := n\<rparr>)" by auto
  with accept_client_found [OF assms(1,2) i] il show ?thesis
    by (simp add: AcceptConnection_def give_up_slot_def go_offline_def on_client_def client_at_Inr_iff)
qed

definition wit_accept :: accept_os where
  "wit_accept = \<lparr>ac_socks = [-1, 9], ac_len = 16, ac_join = 0, ac_thread = 0,
     ac_conn = \<lparr>rx = [], tx = replicate 12 1, sent = [], closed = False\<rparr>\<rparr>"

definition wit_accept_server :: server where
  "wit_accept_server = wit_answer_server\<lparr>cfg := (cfg wit_answer_server)\<lparr>s_nMaxConnection := 1\<rparr>\<rparr>"

lemma wit_accept_facts:
  "wf_hosts wit_accept_server" "free_host wit_accept_server = int 0"
  "client_at wit_accept_server 0 = Inr wit_answer_client"
  "s_nProtocol (cfg wit_accept_server) = STSV_TCP_PROTOCOL"
  "crcTable wit_accept_server = STOS_InitCRCTable \<lparr>s_CRC8Table = [], s_CRC16Table = [], s_CRC32Table = []\<rparr>"
  "accept_socket (ac_socks wit_accept) = Inr 9" "ac_thread wit_accept = 0"
  "0 \<notin> set (tx (ac_conn wit_accept))" "12 \<le> progress (tx (ac_conn wit_accept))"
  by (simp_all add: wf_hosts_def wit_accept_server_def wit_answer_server_def fresh_server_def free_host_def
      client_at_Inr_iff wit_answer_client_def fresh_client_def init_sendBufferMSG_def wit_accept_def progress_def
      STSV_INVALID_SOCKET_def)

theorem accept_takes_a_free_slot_witness:
  "\<exists>s. AcceptConnection wit_accept wit_accept_server = Inr s \<and> wf_hosts s \<and>
     (\<forall>j < length (s_Client_t wit_accept_server). online (s_Client_t wit_accept_server ! j) \<longrightarrow>
       s_Client_t s ! j = s_Client_t wit_accept_server ! j)"
proof -
  from AcceptConnection_returns [OF wit_accept_facts(1,6,4,8,9)] obtain s where
    "AcceptConnection wit_accept wit_accept_server = Inr s" by blast
  with accept_takes_a_free_slot [OF wit_accept_facts(1) this] show ?thesis by blast
qed

theorem next_client_gets_old_data_witness:
  "\<exists>s1 c1 s2. AcceptConnection wit_accept wit_accept_server = Inr s1 \<and> client_at s1 0 = Inr c1 \<and>
     EndPackSendData (s1\<lparr>net := (net s1)(socket c1 := (net s1 (socket c1))\<lparr>tx := replicate 19 1\<rparr>)\<rparr>) 0 = Inr s2 \<and>
     sent (net s2 (socket c1)) = sent (net s1 (socket c1)) @ packet 0 [(0, [0])]"
proof -
  from AcceptConnection_returns [OF wit_accept_facts(1,6,4,8,9)] obtain s1 where
    a: "AcceptConnection wit_accept wit_accept_server = Inr s1" by blast
  have P: "packet 0 [(0, [0])] = packet 0 (queued wit_answer_client)" by (simp add: wit_answer_client_facts)
  from next_client_gets_old_data [OF wit_accept_facts(1-3) wit_answer_client_facts(1-3) wit_accept_facts(4,5) a
      wit_accept_facts(7) P wit_answer_facts(7,8)] a show ?thesis by blast
qed

text \<open>Empty datagrams before a knock are passed over; its header is what is read, however long it is.\<close>

lemma knock_after_empty:
  assumes "set evs \<subseteq> {RecvBytes []}" and "bs \<noteq> []"
  shows "knock_loop (evs @ RecvBytes bs # rest) = Inr (take sizeof_DATASIZE bs, rest)"
  using assms by (induction evs) (auto simp: sizeof_defs)

text \<open>A server with one slot, which is taken, and a knock at its door.\<close>

definition wit_full_server :: server where
  "wit_full_server = (fresh_server [(fresh_client 0)\<lparr>online := True\<rparr>])\<lparr>
     cfg := fresh_config\<lparr>s_nMaxConnection := 1, s_nProtocol := STSV_UDP_PROTOCOL\<rparr>,
     net := (\<lambda>_. \<lparr>rx = [RecvBytes [0xFD, 0xFF]], tx = [], sent = [], closed = False\<rparr>)\<rparr>"

definition wit_udp :: udp_os where
  "wit_udp = \<lparr>udp_stack = replicate 12 0, udp_len = 16, udp_socket = 5, udp_thread = 0, udp_listen = 6, udp_bind = 0\<rparr>"

lemma udp_knock_on_full_table_witness: "AcceptConnectionUDP wit_udp wit_full_server = Inl OutOfBounds"
proof -
  let ?b = "[0xFD, 0xFF] @ replicate 10 0 :: u8 list"
  have wf: "wf_hosts wit_full_server" and all: "\<forall>j < length (s_Client_t wit_full_server). online (s_Client_t wit_full_server ! j)"
    by (simp_all add: wf_hosts_def wit_full_server_def fresh_server_def)
  have "\<exists>s1. read_knock wit_full_server (udp_stack wit_udp) = Inr (?b, s1)"
    by (simp add: read_knock_def wit_full_server_def wit_udp_def sizeof_defs store_def numeral_eq_Suc)
  then obtain s1 where r: "read_knock wit_full_server (udp_stack wit_udp) = Inr (?b, s1)" by blast
  have "load ?b 0 2 = Inr [0xFD, 0xFF]" by (simp add: load_def)
  then have "msg_type ?b = Inr STSOCKMSG_KNOCK"
    by (simp add: msg_type_def rd16_def un16_def msg_type_defs)
  from udp_knock_on_full_table [OF wf all r this] show ?thesis .
qed

section \<open>What stopping does\<close>

lemma stop_clients:
  assumes "foldR stop_client s is = Inr s'"
  shows "s_Client_t s' = s_Client_t s \<and> cfg s' = cfg s \<and> s_ServerDesc s' = s_ServerDesc s \<and>
    (\<forall>k. closed (net s k) \<longrightarrow> closed (net s' k)) \<and>
    (\<forall>i \<in> set is. i < length (s_Client_t s) \<and> (online (s_Client_t s ! i) \<longrightarrow> closed (net s' (socket (s_Client_t s ! i)))))"
  using assms
proof (induction "is" arbitrary: s)
  case (Cons i "is")
  then obtain s1 where s1: "stop_client s i = Inr s1" "foldR stop_client s1 is = Inr s'"
    by (auto simp: bindR_Inr_iff)
  from s1(1) have i: "i < length (s_Client_t s)"
    and c: "s_Client_t s1 = s_Client_t s" "cfg s1 = cfg s" "s_ServerDesc s1 = s_ServerDesc s"
      "\<forall>k. closed (net s k) \<longrightarrow> closed (net s1 k)"
      "online (s_Client_t s ! i) \<longrightarrow> closed (net s1 (socket (s_Client_t s ! i)))"
    by (auto simp: stop_client_def bindR_Inr_iff client_at_Inr_iff DestroySocket_net)
  from Cons.IH [OF s1(2)] c i show ?case by auto
qed simp

lemma stop_clients_total:
  assumes "\<forall>i \<in> set is. i < length (s_Client_t s)"
  shows "\<exists>s'. foldR stop_client s is = Inr s'"
  using assms
proof (induction "is" arbitrary: s)
  case (Cons i "is")
  then have "\<exists>s1. stop_client s i = Inr s1 \<and> s_Client_t s1 = s_Client_t s"
    by (simp add: stop_client_def client_at_def get_at_nat)
  then obtain s1 where "stop_client s i = Inr s1" "s_Client_t s1 = s_Client_t s" by blast
  with Cons.IH [of s1] Cons.prems show ?case by simp
qed simp

lemma Stop_returns:
  assumes "wf_hosts s" and "wf_db (cfg s) d"
  shows "\<exists>s' d'. STSV_Stop my s d = Inr (0, s', d')"
proof -
  have "\<forall>i \<in> set [0..<nat (s_nMaxConnection (cfg s))]. i < length (s_Client_t s)"
    using wf_hosts_length [OF assms(1)] by simp
  from stop_clients_total [OF this] obtain s1 where
    s1: "foldR stop_client s [0..<nat (s_nMaxConnection (cfg s))] = Inr s1" by blast
  have "cfg s1 = cfg s" using stop_clients [OF s1] by simp
  with DisConnect_total [OF assms(2), of my] s1 show ?thesis by (auto simp: STSV_Stop_def)
qed

text \<open>\<open>STSV_Stop\<close> closes the socket of every client that is online and the listening socket, and
nothing else: the clients and the server stay marked as online, so their threads are not told.\<close>

lemma Stop_closes_the_sockets:
  assumes "wf_hosts s" and "STSV_Stop my s d = Inr (r, s', d')"
  shows "r = 0 \<and> s_Client_t s' = s_Client_t s \<and> s_ServerDesc s' = s_ServerDesc s \<and>
    closed (net s' (listenSocket (s_ServerDesc s))) \<and>
    (\<forall>i < length (s_Client_t s). online (s_Client_t s ! i) \<longrightarrow> closed (net s' (socket (s_Client_t s ! i))))"
proof -
  from assms(2) obtain s1 where s1: "foldR stop_client s [0..<nat (s_nMaxConnection (cfg s))] = Inr s1"
    "s' = fst (DestroySocket s1 (listenSocket (s_ServerDesc s1)))" "r = 0"
    by (auto simp: STSV_Stop_def bindR_Inr_iff)
  show ?thesis
    using stop_clients [OF s1(1)] s1(2,3) wf_hosts_length [OF assms(1)] by (auto simp: DestroySocket_net)
qed

lemma Stop_closes_the_sockets_witness:
  "\<exists>s d. STSV_Stop wit_api wit_full_server wit_db = Inr (0, s, d) \<and> closed (net s 0)"
proof -
  have wf: "wf_hosts wit_full_server" by (simp add: wf_hosts_def wit_full_server_def fresh_server_def)
  have "\<exists>s d. STSV_Stop wit_api wit_full_server wit_db = Inr (0, s, d)"
    by (simp add: STSV_Stop_def wit_full_server_def fresh_server_def stop_client_def client_at_def get_at_def
        STDB_DisConnect_def fresh_config_def)
  then obtain s d where st: "STSV_Stop wit_api wit_full_server wit_db = Inr (0, s, d)" by blast
  have "listenSocket (s_ServerDesc wit_full_server) = 0" by (simp add: wit_full_server_def fresh_server_def)
  with Stop_closes_the_sockets [OF wf st] st show ?thesis by auto
qed

end
