(* ===== verification/Star_Init.thy ===== *)
theory Star_Init
  imports Star_Server Star_BigData
begin

text \<open>
  Starting the server: \<open>CheckLimite\<close>, \<open>InitServerLimit\<close>, \<open>InitServerUnlimit\<close> and \<open>STSV_Init\<close>. What
  \<open>malloc\<close> and \<open>getrlimit\<close> give, the sizes of the structs on the platform and the answers to
  \<open>CreateServer\<close> are arguments; the configuration file is one of the files of the server.
\<close>

section \<open>The environment\<close>

text \<open>
  \<open>env_buffers i\<close> are the send and the receive buffer of client \<open>i\<close>, with what \<open>malloc\<close> leaves in
  them; the rooms and the rows of the database are also not initialised by the code.
\<close>

record init_env =
  env_valueBuffer :: "char list"
  env_stack :: u64
  env_files :: u64
  env_clients :: bool
  env_buffers :: "nat \<Rightarrow> u8 list option \<times> u8 list option"
  env_rooms :: "SERVER_ROOM_DESC list option"
  env_sql :: bool
  env_sql_buffers :: "nat \<Rightarrow> char list option"
  env_sql_arrays :: bool
  env_rows :: "nat \<Rightarrow> string option list option"
  env_bigdata :: "nat \<Rightarrow> u8 list option"
  env_os :: os_results
  sizeof_Client_t :: nat
  sizeof_ROOM_DESC :: nat
  sizeof_SQLBuffer :: nat
  sizeof_MYSQL :: nat
  sizeof_pointer :: nat

section \<open>Limits\<close>

text \<open>
  \<open>limiteLogin\<close> is an \<open>int\<close>; the division is one of unsigned 64-bit numbers, as is the comparison
  of the open files, since \<open>rlim_t\<close> is unsigned.
\<close>

definition as_int :: "int \<Rightarrow> int" where
  "as_int n = sint (word_of_int n :: s32)"

definition limiteLogin :: "u64 \<Rightarrow> config \<Rightarrow> int" where
  "limiteLogin stack k =
     sint (ucast ((word_of_int (as_int (s_nServerMEMG k * 1024 * 1024)) :: u64) div (stack div 1024)) :: s32)"

definition CheckLimite :: "u64 \<Rightarrow> u64 \<Rightarrow> config \<Rightarrow> bool" where
  "CheckLimite stack nofile k =
     (if stack < 512 * 1024 then False
      else if limiteLogin stack k < s_nMaxConnection k then False
      else if nofile < word_of_int (as_int (s_nMaxConnection k * 3)) then False
      else True)"

section \<open>Memory\<close>

text \<open>A client that \<open>memset\<close> has cleared; a buffer that is NULL has no bytes.\<close>

definition zero_client :: Client_t where
  "zero_client = \<lparr>socket = 0, online = False, thread = False, idx = 0, roomIdx = 0, sendingData = False,
     sendDataSize = 0, sendDone = False, recieveDone = False, recieveHeader = False, addrLen = 0,
     NonBlocking = False, recvBuffer = [], sendBuffer = [], packRef = 0,
     streamSize = 0, sendCount = 0, recvCount = 0, curPacketNo = 0, sendPacketNo = replicate 64 0,
     bigDataBuffer = None, bigDataReadSize = 0, bigDataReadSizeDone = 0, bigDataReady = False,
     fileDataReady = False, fileDataName = replicate 32 0, fileSendName = replicate 32 0,
     fileDataSending = False, bigDataSendSize = 0, bigDataSendSizeDone = 0,
     sendBufferMSG = replicate 64 None, recvBufferMSG = replicate 64 None,
     sendBufferMSGSize = replicate 64 0, recvBufferMSGSize = replicate 64 0, m_Mutex = False\<rparr>"

text \<open>The buffers of the clients from \<open>i\<close> on, up to the first one that \<open>malloc\<close> refuses.\<close>

fun alloc_buffers :: "(nat \<Rightarrow> u8 list option \<times> u8 list option) \<Rightarrow> nat \<Rightarrow> Client_t list \<Rightarrow> bool \<times> Client_t list" where
  "alloc_buffers mem i [] = (True, [])"
| "alloc_buffers mem i (c # cs) =
     (case mem i of
        (Some sb, Some rb) \<Rightarrow>
          (let (ok, cs) = alloc_buffers mem (Suc i) cs
           in (ok, init_sendBufferMSG (c\<lparr>sendBuffer := sb, recvBuffer := rb\<rparr>) # cs))
      | _ \<Rightarrow> (False, c # cs))"

definition alloc_clients :: "init_env \<Rightarrow> server \<Rightarrow> bool \<times> server" where
  "alloc_clients env s =
     (if \<not> env_clients env then (False, s\<lparr>s_Client_t := []\<rparr>)
      else
        (let (ok, cs) = alloc_buffers (env_buffers env) 0 (replicate (nat (s_nMaxConnection (cfg s))) zero_client)
         in (ok, s\<lparr>s_Client_t := cs\<rparr>)))"

text \<open>The result of \<open>malloc\<close> is not checked, and only the mutexes are initialised.\<close>

definition alloc_rooms :: "init_env \<Rightarrow> server \<Rightarrow> server result" where
  "alloc_rooms env s =
     (case env_rooms env of
        None \<Rightarrow> if 0 < s_nMaxRoom (cfg s) then Inl NullDeref else Inr (s\<lparr>s_Room_t := []\<rparr>)
      | Some rs \<Rightarrow>
          Inr (s\<lparr>s_Room_t := map (\<lambda>r. r\<lparr>mutexRoom := False\<rparr>) (take (nat (s_nMaxRoom (cfg s))) rs)\<rparr>))"

fun alloc_commands :: "(nat \<Rightarrow> char list option) \<Rightarrow> nat \<Rightarrow> nat \<Rightarrow> bool \<times> char list list" where
  "alloc_commands mem i 0 = (True, [])"
| "alloc_commands mem i (Suc n) =
     (case mem i of
        None \<Rightarrow> (False, [])
      | Some b \<Rightarrow> (let (ok, bs) = alloc_commands mem (Suc i) n in (ok, b # bs)))"

definition alloc_sql :: "init_env \<Rightarrow> config \<Rightarrow> ('w, 'r) db \<Rightarrow> bool \<times> ('w, 'r) db" where
  "alloc_sql env k d =
     (if \<not> env_sql env then (False, d)
      else
        (let n = nat (s_nDBMaxConnect k); (ok, bs) = alloc_commands (env_sql_buffers env) 0 n;
             d = d\<lparr>mMySqlCommand := bs\<rparr> in
         if \<not> ok \<or> \<not> env_sql_arrays env then (False, d)
         else (True, d\<lparr>pMySql := replicate n False, sqlLock := replicate n False, mMySqlRes := replicate n None,
           mMySqlRow := map (env_rows env) [0..<n], mMySqlNumRow := replicate n (-1),
           mMySqlNumFields := replicate n (-1)\<rparr>)))"

text \<open>
  What the start counts as used: the client structs are counted twice, the rooms not at all. In
  \<open>InitServerLimit\<close> the sum is an \<open>int\<close>; in \<open>InitServerUnlimit\<close> it is a \<open>size_t\<close>, with one product
  of two \<open>int\<close>s.
\<close>

definition sql_memory :: "init_env \<Rightarrow> config \<Rightarrow> int" where
  "sql_memory env k =
     s_nDBMaxConnect k * int (sizeof_SQLBuffer env) + int (sizeof_MYSQL env) * s_nDBMaxConnect k +
     int (sizeof_pointer env) * s_nDBMaxConnect k + s_nDBMaxConnect k"

definition limit_memory :: "init_env \<Rightarrow> config \<Rightarrow> u64" where
  "limit_memory env k =
     word_of_int (as_int (int (STSV_BIGDATA_POOL_BLOCK * STSV_BIGDATA_BUFFER) +
       2 * s_nMaxConnection k * int (sizeof_Client_t env) + s_nMaxConnection k * s_nDataBuffer k * 2 +
       s_nDBMaxConnect k * s_nSQLBuffer k + sql_memory env k))"

definition unlimit_memory :: "init_env \<Rightarrow> config \<Rightarrow> u64" where
  "unlimit_memory env k =
     word_of_int (int (STSV_BIGDATA_POOL_BLOCK * STSV_BIGDATA_BUFFER) +
       2 * s_nMaxConnection k * int (sizeof_Client_t env) + s_nMaxConnection k * s_nDataBuffer k * 2 +
       as_int (s_nDBMaxConnect k * s_nSQLBuffer k) + sql_memory env k)"

section \<open>The two ways to start\<close>

text \<open>The last part, common to both: the database, the clients marked as offline, the socket.\<close>

definition finish_init ::
  "('w, 'r) mysql_api \<Rightarrow> init_env \<Rightarrow> u64 \<Rightarrow> server \<Rightarrow> ('w, 'r) db \<Rightarrow> (int \<times> server \<times> ('w, 'r) db) result" where
  "finish_init my env sumMemoryUse s d =
     bindR (STDB_Connect my (cfg s) d) (\<lambda>(d, _).
     (let s = s\<lparr>s_nMemoryUse := unat (of_nat (s_nMemoryUse s) + sumMemoryUse),
            s_Client_t := map (\<lambda>c. c\<lparr>online := False, thread := False\<rparr>) (s_Client_t s)\<rparr>;
          (ret, s, d) = CreateServer (env_os env) s d
      in Inr (if ret \<noteq> 0 then -1 else 0, s, d)))"

definition alloc_all ::
  "('w, 'r) mysql_api \<Rightarrow> init_env \<Rightarrow> u64 \<Rightarrow> server \<Rightarrow> ('w, 'r) db \<Rightarrow> (int \<times> server \<times> ('w, 'r) db) result" where
  "alloc_all my env sumMemoryUse s d =
     (let (ok, s) = alloc_clients env s in
      if \<not> ok then Inr (-1, s, d)
      else
        bindR (alloc_rooms env s) (\<lambda>s.
        (let (ok, d) = alloc_sql env (cfg s) d in
         if \<not> ok then Inr (-1, s, d) else finish_init my env sumMemoryUse s d)))"

definition read_config :: "init_env \<Rightarrow> server \<Rightarrow> server result" where
  "read_config env s =
     bindR (ReadConfigFile (map_option chars (files s ''config.sv2'')) (\<not> no_create s ''config.sv2'')
         (env_valueBuffer env) (cfg s)) (\<lambda>(k, new).
       Inr (s\<lparr>cfg := k, files := (case new of None \<Rightarrow> files s | Some t \<Rightarrow> (files s)(''config.sv2'' \<mapsto> bytes t))\<rparr>))"

definition InitServerLimit ::
  "('w, 'r) mysql_api \<Rightarrow> init_env \<Rightarrow> server \<Rightarrow> ('w, 'r) db \<Rightarrow> (int \<times> server \<times> ('w, 'r) db) result" where
  "InitServerLimit my env s d =
     bindR (read_config env s) (\<lambda>s.
       if \<not> CheckLimite (env_stack env) (env_files env) (cfg s) then Inr (-1, s, d)
       else alloc_all my env (limit_memory env (cfg s)) s d)"

text \<open>How many clients fit into the memory, and half as many rooms.\<close>

definition memPerUser :: "init_env \<Rightarrow> int \<Rightarrow> config \<Rightarrow> u64" where
  "memPerUser env stackSize k =
     of_nat (sizeof_Client_t env) + word_of_int (as_int (2 * s_nDataBuffer k)) + word_of_int stackSize +
     of_nat (sizeof_ROOM_DESC env div 2)"

definition memoryHave :: "config \<Rightarrow> u64" where
  "memoryHave k = word_of_int (s_nServerMEMG k) * 1024 * 1024 * 1024"

definition InitServerUnlimit ::
  "('w, 'r) mysql_api \<Rightarrow> init_env \<Rightarrow> server \<Rightarrow> ('w, 'r) db \<Rightarrow> (int \<times> server \<times> ('w, 'r) db) result" where
  "InitServerUnlimit my env s d =
     bindR (read_config env s) (\<lambda>s.
     (let n = sint (ucast (memoryHave (cfg s) div memPerUser env (s_nMaxStackSize s) (cfg s)) :: s32);
          s = s\<lparr>cfg := (cfg s)\<lparr>s_nMaxConnection := n, s_nMaxRoom := (if n < 0 then - (- n div 2) else n div 2)\<rparr>\<rparr>
      in alloc_all my env (unlimit_memory env (cfg s)) s d))"

section \<open>STSV\_Init\<close>

definition default_callbacks :: "server \<Rightarrow> server" where
  "default_callbacks s =
     s\<lparr>processMSGClientRequest := (case processMSGClientRequest s of NoCallback \<Rightarrow> TempCallback | f \<Rightarrow> f),
       processMSGClientConnect := (case processMSGClientConnect s of NoCallback \<Rightarrow> TempCallback | f \<Rightarrow> f)\<rparr>"

definition STSV_Init ::
  "('w, 'r) mysql_api \<Rightarrow> init_env \<Rightarrow> server \<Rightarrow> ('w, 'r) db \<Rightarrow> (int \<times> server \<times> ('w, 'r) db) result" where
  "STSV_Init my env s d =
     (let s = s\<lparr>cfg := (cfg s)\<lparr>s_bDebugVersion := True\<rparr>, crcTable := STOS_InitCRCTable (crcTable s), s_nMemoryUse := 0\<rparr>;
          s = default_callbacks s;
          s = s\<lparr>s_nMaxStackSize := sint (ucast (env_stack env) :: s32), s_nMaxFile := sint (ucast (env_files env) :: s32)\<rparr>;
          (r, s) = initBigDataMemory (env_bigdata env) s in
      if r \<noteq> 0 then Inr (-1, s, d)
      else
        bindR (if s_bUnlimit s then InitServerUnlimit my env s d else InitServerLimit my env s d) (\<lambda>(ret, s, d).
        (let threadRam = word_of_int (as_int (s_nMaxStackSize s * s_nMaxConnection (cfg s))) :: u64;
             dbRam = word_of_int (as_int (151 * 1024 * 1024 + s_nDBMaxConnect (cfg s) * 4)) :: u64
         in Inr (ret, s\<lparr>s_EstimateRam := unat (threadRam + of_nat (s_nMemoryUse s) + dbRam)\<rparr>, d))))"

section \<open>What a started server is\<close>

text \<open>
  The buffers that \<open>malloc\<close> gives have the size that is asked for; the packets of the protocol need
  64 kilobytes.
\<close>

definition sane_env :: "init_env \<Rightarrow> config \<Rightarrow> bool" where
  "sane_env env k \<longleftrightarrow> 65536 \<le> s_nDataBuffer k \<and> 0 \<le> s_nMaxConnection k \<and>
     (\<forall>i sb rb. env_buffers env i = (Some sb, Some rb) \<longrightarrow>
       length sb = nat (s_nDataBuffer k) \<and> length rb = nat (s_nDataBuffer k))"

definition started_client :: "Client_t \<Rightarrow> bool" where
  "started_client c \<longleftrightarrow> wf_client c \<and> 65536 \<le> length (recvBuffer c) \<and> \<not> m_Mutex c \<and> queued c = [] \<and>
     bigDataBuffer c = None"

lemma started_alloc:
  assumes "65536 \<le> length sb" and "65536 \<le> length rb"
  shows "started_client (init_sendBufferMSG (zero_client\<lparr>sendBuffer := sb, recvBuffer := rb\<rparr>))"
  using assms by (simp add: started_client_def wf_client_def zero_client_def init_sendBufferMSG_def queued_def block_defs)

lemma alloc_buffers_started:
  assumes "alloc_buffers mem i cs = (True, cs')" and "set cs \<subseteq> {zero_client}"
    and "\<And>j sb rb. mem j = (Some sb, Some rb) \<Longrightarrow> 65536 \<le> length sb \<and> 65536 \<le> length rb"
  shows "length cs' = length cs \<and> (\<forall>c \<in> set cs'. started_client c)"
  using assms
proof (induction mem i cs arbitrary: cs' rule: alloc_buffers.induct)
  case (2 mem i c cs)
  from "2.prems"(1) obtain sb rb where m: "mem i = (Some sb, Some rb)"
    by (cases "mem i") (simp split: option.splits)
  obtain ok cs1 where r: "alloc_buffers mem (Suc i) cs = (ok, cs1)" by fastforce
  from "2.prems"(1) m r have r1: "alloc_buffers mem (Suc i) cs = (True, cs1)"
    and cs': "cs' = init_sendBufferMSG (c\<lparr>sendBuffer := sb, recvBuffer := rb\<rparr>) # cs1" by simp_all
  have "set cs \<subseteq> {zero_client}" "c = zero_client" using "2.prems"(2) by simp_all
  with "2.IH" [OF m [symmetric] refl refl r1] "2.prems"(3) started_alloc "2.prems"(3) [OF m]
  show ?case by (simp add: cs')
qed simp

lemma started_flags [simp]: "started_client (c\<lparr>online := b, thread := b'\<rparr>) = started_client c"
  by (simp add: started_client_def wf_client_def queued_def)

lemma alloc_commands_length: "alloc_commands mem i n = (True, bs) \<Longrightarrow> length bs = n"
proof (induction mem i n arbitrary: bs rule: alloc_commands.induct)
  case (2 mem i n)
  then obtain b cs where m: "mem i = Some b" "alloc_commands mem (Suc i) n = (True, cs)" "bs = b # cs"
    by (auto split: option.splits prod.splits)
  with "2.IH" [OF m(1) m(2)] show ?case by simp
qed simp

lemma alloc_sql_wf: "alloc_sql env k d = (True, d') \<Longrightarrow> wf_db k d'"
  by (auto simp: alloc_sql_def Let_def wf_db_def pool_size_def dest: alloc_commands_length
      split: if_splits prod.splits)

lemma connect_wf:
  "foldR (connect_one my) (d, n) is = Inr (d', n') \<Longrightarrow> wf_db k d \<Longrightarrow> wf_db k d'"
proof (induction "is" arbitrary: d n)
  case (Cons i "is")
  then obtain x where x: "connect_one my (d, n) i = Inr x" "foldR (connect_one my) x is = Inr (d', n')"
    by (auto simp: bindR_Inr_iff)
  have "wf_db k (fst x)"
    using x(1) Cons.prems(2)
    by (cases x) (auto simp: connect_one_def Let_def bindR_Inr_iff wf_db_def set_at_Inr_iff split: prod.splits if_splits)
  with x(2) Cons.IH [of "fst x" "snd x"] show ?case by simp
qed simp

lemma Connect_wf: "STDB_Connect my k d = Inr (d', n) \<Longrightarrow> wf_db k d \<Longrightarrow> wf_db k d'"
  unfolding STDB_Connect_def by (rule connect_wf)

lemma CreateServer_ok:
  assumes "CreateServer os s d = (0, s', d')" and "s_nProtocol (cfg s) \<in> {STSV_TCP_PROTOCOL, STSV_UDP_PROTOCOL}"
  shows "s_Client_t s' = s_Client_t s \<and> cfg s' = cfg s \<and> crcTable s' = crcTable s \<and>
    s_ServerDesc s' = \<lparr>listenSocket = os_socket os, sd_online = True\<rparr> \<and> s_nCurLoginCount s' = 0 \<and>
    processMSGClientRequest s' = processMSGClientRequest s \<and> processMSGClientConnect s' = processMSGClientConnect s \<and>
    processMSGClientDisconnect s' = processMSGClientDisconnect s \<and> s_BigDataUse s' = s_BigDataUse s \<and> (wf_db k d \<longrightarrow> wf_db k d')"
  using assms
  by (auto simp: CreateServer_def CreateTCPServer_def CreateUDPServer_def Let_def wf_db_def split: if_splits)

lemma alloc_all_steps:
  assumes "alloc_all my env mem s d = Inr (0, s', d')"
  obtains s1 s2 d1 where "alloc_clients env s = (True, s1)" "alloc_rooms env s1 = Inr s2"
    "alloc_sql env (cfg s2) d = (True, d1)" "finish_init my env mem s2 d1 = Inr (0, s', d')"
proof -
  obtain ok s1 where ac: "alloc_clients env s = (ok, s1)" by fastforce
  with assms have s1: "alloc_clients env s = (True, s1)" by (cases ok) (simp_all add: alloc_all_def)
  with assms obtain s2 where s2: "alloc_rooms env s1 = Inr s2"
    by (cases "alloc_rooms env s1") (simp_all add: alloc_all_def)
  obtain ok' d1 where as: "alloc_sql env (cfg s2) d = (ok', d1)" by fastforce
  with assms s1 s2 have d1: "alloc_sql env (cfg s2) d = (True, d1)"
    by (cases ok') (simp_all add: alloc_all_def)
  with assms s1 s2 have fin: "finish_init my env mem s2 d1 = Inr (0, s', d')" by (simp add: alloc_all_def)
  with s1 s2 d1 show ?thesis using that by blast
qed

lemma finish_init_steps:
  assumes "finish_init my env mem s d = Inr (0, s', d')"
  obtains d2 n where "STDB_Connect my (cfg s) d = Inr (d2, n)"
    "CreateServer (env_os env) (s\<lparr>s_nMemoryUse := unat (of_nat (s_nMemoryUse s) + mem),
        s_Client_t := map (\<lambda>c. c\<lparr>online := False, thread := False\<rparr>) (s_Client_t s)\<rparr>) d2 = (0, s', d')"
proof -
  from assms obtain x where x: "STDB_Connect my (cfg s) d = Inr x"
    by (cases "STDB_Connect my (cfg s) d") (simp_all add: finish_init_def)
  let ?s = "s\<lparr>s_nMemoryUse := unat (of_nat (s_nMemoryUse s) + mem),
      s_Client_t := map (\<lambda>c. c\<lparr>online := False, thread := False\<rparr>) (s_Client_t s)\<rparr>"
  obtain r3 s3 d3 where c: "CreateServer (env_os env) ?s (fst x) = (r3, s3, d3)" by (meson prod_cases3)
  with assms x have "r3 = 0" "s3 = s'" "d3 = d'" by (cases x; simp add: finish_init_def Let_def split: if_splits)+
  with c x show ?thesis using that [of "fst x" "snd x"] by simp
qed

lemma CreateServer_cfg: "CreateServer os s d = (r, s', d') \<Longrightarrow> cfg s' = cfg s"
  by (auto simp: CreateServer_def CreateTCPServer_def CreateUDPServer_def Let_def split: if_splits)

lemma alloc_all_ok:
  assumes "alloc_all my env mem s d = Inr (0, s', d')" and "sane_env env (cfg s)"
    and "s_nProtocol (cfg s) \<in> {STSV_TCP_PROTOCOL, STSV_UDP_PROTOCOL}"
  shows "cfg s' = cfg s \<and> wf_hosts s' \<and> (\<forall>c \<in> set (s_Client_t s'). started_client c \<and> \<not> online c) \<and>
    crcTable s' = crcTable s \<and> wf_db (cfg s') d' \<and>
    s_ServerDesc s' = \<lparr>listenSocket = os_socket (env_os env), sd_online = True\<rparr> \<and> s_nCurLoginCount s' = 0 \<and>
    processMSGClientRequest s' = processMSGClientRequest s \<and> processMSGClientConnect s' = processMSGClientConnect s \<and>
    processMSGClientDisconnect s' = processMSGClientDisconnect s \<and> s_BigDataUse s' = s_BigDataUse s"
proof -
  obtain s1 s2 d1 where s1: "alloc_clients env s = (True, s1)" and s2: "alloc_rooms env s1 = Inr s2"
    and d1: "alloc_sql env (cfg s2) d = (True, d1)" and fin: "finish_init my env mem s2 d1 = Inr (0, s', d')"
    by (rule alloc_all_steps [OF assms(1)])
  have f1: "cfg s1 = cfg s" "crcTable s1 = crcTable s" "processMSGClientRequest s1 = processMSGClientRequest s"
    "processMSGClientConnect s1 = processMSGClientConnect s" "processMSGClientDisconnect s1 = processMSGClientDisconnect s"
    "s_BigDataUse s1 = s_BigDataUse s"
    using s1 by (auto simp: alloc_clients_def split: if_splits prod.splits)
  have f2: "s_Client_t s2 = s_Client_t s1" "cfg s2 = cfg s1" "crcTable s2 = crcTable s1"
    "processMSGClientRequest s2 = processMSGClientRequest s1" "processMSGClientConnect s2 = processMSGClientConnect s1"
    "processMSGClientDisconnect s2 = processMSGClientDisconnect s1" "s_BigDataUse s2 = s_BigDataUse s1"
    using s2 by (auto simp: alloc_rooms_def split: option.splits if_splits)
  from s1 have r: "alloc_buffers (env_buffers env) 0 (replicate (nat (s_nMaxConnection (cfg s))) zero_client) = (True, s_Client_t s1)"
    by (auto simp: alloc_clients_def split: if_splits prod.splits)
  have "set (replicate (nat (s_nMaxConnection (cfg s))) zero_client) \<subseteq> {zero_client}" by auto
  note started = alloc_buffers_started [OF r this]
  have "length (s_Client_t s1) = length (replicate (nat (s_nMaxConnection (cfg s))) zero_client) \<and>
      (\<forall>c \<in> set (s_Client_t s1). started_client c)"
    by (rule started) (use assms(2) in \<open>simp add: sane_env_def le_nat_iff\<close>)
  then have cs: "length (s_Client_t s1) = nat (s_nMaxConnection (cfg s))" "\<forall>c \<in> set (s_Client_t s1). started_client c"
    by simp_all
  define s3 where s3: "s3 = s2\<lparr>s_nMemoryUse := unat (of_nat (s_nMemoryUse s2) + mem),
        s_Client_t := map (\<lambda>c. c\<lparr>online := False, thread := False\<rparr>) (s_Client_t s2)\<rparr>"
  obtain d2 n where d2: "STDB_Connect my (cfg s2) d1 = Inr (d2, n)"
    and cr: "CreateServer (env_os env) s3 d2 = (0, s', d')"
    unfolding s3 by (rule finish_init_steps [OF fin])
  have wf: "wf_db (cfg s2) d2" using Connect_wf [OF d2] alloc_sql_wf [OF d1] by simp
  have "s_nProtocol (cfg s3) \<in> {STSV_TCP_PROTOCOL, STSV_UDP_PROTOCOL}" using assms(3) f1 f2 by (simp add: s3)
  from CreateServer_ok [OF cr this, of "cfg s2"] have c: "s_Client_t s' = s_Client_t s3" "cfg s' = cfg s3"
    "crcTable s' = crcTable s3" "s_ServerDesc s' = \<lparr>listenSocket = os_socket (env_os env), sd_online = True\<rparr>"
    "s_nCurLoginCount s' = 0" "processMSGClientRequest s' = processMSGClientRequest s3"
    "processMSGClientConnect s' = processMSGClientConnect s3"
    "processMSGClientDisconnect s' = processMSGClientDisconnect s3" "s_BigDataUse s' = s_BigDataUse s3" "wf_db (cfg s2) d'" using wf by blast+
  have "wf_hosts s'" using c(1,2) cs f1 f2 assms(2) by (simp add: wf_hosts_def s3 sane_env_def)
  with c cs f1 f2 show ?thesis by (auto simp: s3)
qed

lemma initBigData_ok:
  assumes "initBigDataMemory mem s = (0, s')"
  shows "s_BigDataUse s' = False # drop 1 (s_BigDataUse s) \<and> cfg s' = cfg s \<and> crcTable s' = crcTable s \<and>
    processMSGClientRequest s' = processMSGClientRequest s \<and> processMSGClientConnect s' = processMSGClientConnect s \<and>
    processMSGClientDisconnect s' = processMSGClientDisconnect s"
  using assms by (auto simp: initBigDataMemory_def STSV_BIGDATA_POOL_BLOCK_def Let_def split: if_splits)

lemma read_config_frame:
  assumes "read_config env s = Inr s'"
  shows "crcTable s' = crcTable s \<and> processMSGClientRequest s' = processMSGClientRequest s \<and>
    processMSGClientConnect s' = processMSGClientConnect s \<and>
    processMSGClientDisconnect s' = processMSGClientDisconnect s \<and> s_BigDataUse s' = s_BigDataUse s"
  using assms by (auto simp: read_config_def bindR_Inr_iff)

definition keeps :: "server \<Rightarrow> server \<Rightarrow> bool" where
  "keeps s s' \<longleftrightarrow> crcTable s' = crcTable s \<and> processMSGClientRequest s' = processMSGClientRequest s \<and>
     processMSGClientConnect s' = processMSGClientConnect s \<and>
     processMSGClientDisconnect s' = processMSGClientDisconnect s \<and> s_BigDataUse s' = s_BigDataUse s"

lemma InitServer_alloc:
  assumes "(if s_bUnlimit s then InitServerUnlimit my env s d else InitServerLimit my env s d) = Inr (0, s', d')"
  obtains mem s1 where "alloc_all my env mem s1 d = Inr (0, s', d')" "keeps s s1"
proof (cases "read_config env s")
  case (Inl e)
  with assms show ?thesis by (simp add: InitServerUnlimit_def InitServerLimit_def split: if_splits)
next
  case (Inr s1)
  from read_config_frame [OF Inr] have k: "keeps s s1" "keeps s (s1\<lparr>cfg := x\<rparr>)" for x by (simp_all add: keeps_def)
  from assms Inr show ?thesis
    by (cases "s_bUnlimit s") (auto simp: InitServerUnlimit_def InitServerLimit_def Let_def split: if_splits intro: that k)
qed

lemma alloc_all_cfg:
  assumes "alloc_all my env mem s d = Inr (0, s', d')"
  shows "cfg s' = cfg s"
proof -
  obtain s1 s2 d1 where s1: "alloc_clients env s = (True, s1)" and s2: "alloc_rooms env s1 = Inr s2"
    and fin: "finish_init my env mem s2 d1 = Inr (0, s', d')"
    by (rule alloc_all_steps [OF assms])
  from s1 have "cfg s1 = cfg s" by (auto simp: alloc_clients_def split: if_splits prod.splits)
  moreover from s2 have "cfg s2 = cfg s1" by (auto simp: alloc_rooms_def split: option.splits if_splits)
  moreover have "cfg s' = cfg s2" by (rule finish_init_steps [OF fin]) (drule CreateServer_cfg, simp)
  ultimately show ?thesis by simp
qed

lemma Init_ready:
  assumes "STSV_Init my env s d = Inr (0, s', d')" and "sane_env env (cfg s')"
    and "s_nProtocol (cfg s') \<in> {STSV_TCP_PROTOCOL, STSV_UDP_PROTOCOL}"
    and "length (s_BigDataUse s) = STSV_BIGDATA_POOL_BLOCK"
  shows "wf_hosts s' \<and> (\<forall>c \<in> set (s_Client_t s'). started_client c \<and> \<not> online c) \<and> pool_inv s' \<and>
    wf_db (cfg s') d' \<and> crcTable s' = STOS_InitCRCTable (crcTable s) \<and>
    s_ServerDesc s' = \<lparr>listenSocket = os_socket (env_os env), sd_online = True\<rparr> \<and> s_nCurLoginCount s' = 0 \<and>
    processMSGClientRequest s' \<noteq> NoCallback \<and> processMSGClientConnect s' \<noteq> NoCallback \<and>
    processMSGClientDisconnect s' = processMSGClientDisconnect s"
proof -
  let ?s1 = "(default_callbacks (s\<lparr>cfg := (cfg s)\<lparr>s_bDebugVersion := True\<rparr>,
      crcTable := STOS_InitCRCTable (crcTable s), s_nMemoryUse := 0\<rparr>))
    \<lparr>s_nMaxStackSize := sint (ucast (env_stack env) :: s32), s_nMaxFile := sint (ucast (env_files env) :: s32)\<rparr>"
  obtain r s2 where big: "initBigDataMemory (env_bigdata env) ?s1 = (r, s2)" by fastforce
  from assms(1) big have r: "r = 0" by (auto simp: STSV_Init_def Let_def split: if_splits)
  let ?go = "if s_bUnlimit s2 then InitServerUnlimit my env s2 d else InitServerLimit my env s2 d"
  from assms(1) big r have "bindR ?go (\<lambda>(ret, s, d). Inr (ret, s\<lparr>s_EstimateRam :=
      unat ((word_of_int (as_int (s_nMaxStackSize s * s_nMaxConnection (cfg s))) :: u64) + of_nat (s_nMemoryUse s) +
        word_of_int (as_int (151 * 1024 * 1024 + s_nDBMaxConnect (cfg s) * 4)))\<rparr>, d)) = Inr (0, s', d')"
    by (simp add: STSV_Init_def Let_def)
  then obtain s3 where go: "?go = Inr (0, s3, d')" and s': "\<exists>n. s' = s3\<lparr>s_EstimateRam := n\<rparr>"
    by (cases ?go) auto
  from InitServer_alloc [OF go] obtain mem s4 where al: "alloc_all my env mem s4 d = Inr (0, s3, d')"
    and k: "keeps s2 s4" by blast
  have c: "cfg s' = cfg s4" using alloc_all_cfg [OF al] s' by auto
  with assms(2,3) have "sane_env env (cfg s4)" "s_nProtocol (cfg s4) \<in> {STSV_TCP_PROTOCOL, STSV_UDP_PROTOCOL}" by simp_all
  note ok = alloc_all_ok [OF al this]
  have b: "s_BigDataUse s2 = [False]" using initBigData_ok [OF big [unfolded r]] assms(4)
    by (simp add: default_callbacks_def STSV_BIGDATA_POOL_BLOCK_def)
  with ok k s' have use: "s_BigDataUse s' = [False]" by (auto simp: keeps_def)
  have cl: "s_Client_t s' = s_Client_t s3" using s' by auto
  have started: "\<forall>c \<in> set (s_Client_t s'). started_client c \<and> \<not> online c" using ok cl by simp
  have "pool_inv s'" using use started
    by (auto simp: pool_inv_def STSV_BIGDATA_POOL_BLOCK_def holds_block_def started_client_def dest: nth_mem)
  moreover have "wf_hosts s'" using ok s' by (auto simp: wf_hosts_def)
  moreover have "crcTable s' = STOS_InitCRCTable (crcTable s)" "processMSGClientDisconnect s' = processMSGClientDisconnect s"
    "processMSGClientRequest s' \<noteq> NoCallback" "processMSGClientConnect s' \<noteq> NoCallback"
    using ok s' k initBigData_ok [OF big [unfolded r]]
    by (auto simp: keeps_def default_callbacks_def split: callback.splits)
  ultimately show ?thesis using ok s' started by auto
qed

text \<open>
  C13: when \<open>STSV_Init\<close> returns 0, with buffers that hold the messages of the protocol and a known
  protocol, the server is ready for every operation: as many clients as the configuration says, all
  free, unlocked, with empty queues; the pools of big data and of connections in order; the CRC tables
  built; a connect and a request callback set. The disconnect callback is the one there was, or none.
\<close>

theorem Init_establishes:
  assumes "STSV_Init my env s d = Inr (0, s', d')" and "sane_env env (cfg s')"
    and "s_nProtocol (cfg s') \<in> {STSV_TCP_PROTOCOL, STSV_UDP_PROTOCOL}"
    and "length (s_BigDataUse s) = STSV_BIGDATA_POOL_BLOCK"
  shows "wf_hosts s' \<and> (\<forall>c \<in> set (s_Client_t s'). started_client c \<and> \<not> online c) \<and> pool_inv s' \<and>
    wf_db (cfg s') d' \<and> crcTable s' = STOS_InitCRCTable (crcTable s) \<and>
    s_ServerDesc s' = \<lparr>listenSocket = os_socket (env_os env), sd_online = True\<rparr> \<and> s_nCurLoginCount s' = 0 \<and>
    processMSGClientRequest s' \<noteq> NoCallback \<and> processMSGClientConnect s' \<noteq> NoCallback \<and>
    processMSGClientDisconnect s' = processMSGClientDisconnect s"
  using assms by (rule Init_ready)

section \<open>A start with the default configuration\<close>

lemma alloc_buffers_total: "\<exists>cs'. alloc_buffers (\<lambda>_. (Some sb, Some rb)) i cs = (True, cs')"
proof (induction cs arbitrary: i)
  case (Cons c cs)
  from Cons [of "Suc i"] obtain cs' where "alloc_buffers (\<lambda>_. (Some sb, Some rb)) (Suc i) cs = (True, cs')" by blast
  then show ?case by simp
qed simp

lemma alloc_commands_total: "\<exists>bs. alloc_commands (\<lambda>_. Some b) i n = (True, bs)"
proof (induction n arbitrary: i)
  case (Suc n)
  from Suc [of "Suc i"] obtain bs where "alloc_commands (\<lambda>_. Some b) (Suc i) n = (True, bs)" by blast
  then show ?case by simp
qed simp

lemma connect_one_total:
  assumes "wf_db k d" and "i < pool_size k"
  shows "\<exists>x. connect_one my (d, n) i = Inr x"
proof -
  obtain ok w where m: "mysql_real_connect my (db_world d) i = (ok, w)" by fastforce
  with assms show ?thesis by (simp add: connect_one_def Let_def wf_db_def set_at_nat)
qed

lemma connect_total:
  assumes "wf_db k d" and "\<forall>i \<in> set is. i < pool_size k"
  shows "\<exists>x. foldR (connect_one my) (d, n) is = Inr x"
  using assms
proof (induction "is" arbitrary: d n)
  case (Cons i "is")
  then obtain d1 n1 where x: "connect_one my (d, n) i = Inr (d1, n1)"
    using connect_one_total [of k d i my n] by auto
  have "wf_db k d1" using connect_wf [of my d n "[i]" d1 n1 k] x Cons.prems(1) by simp
  with Cons.IH [of d1 n1] Cons.prems(2) x show ?case by simp
qed simp

definition wit_env :: init_env where
  "wit_env = \<lparr>env_valueBuffer = replicate 32 NUL, env_stack = 8 * 1024 * 1024, env_files = 1024,
     env_clients = True, env_buffers = (\<lambda>_. (Some (replicate 65536 0), Some (replicate 65536 0))),
     env_rooms = Some [], env_sql = True, env_sql_buffers = (\<lambda>_. Some (replicate 65536 NUL)),
     env_sql_arrays = True, env_rows = (\<lambda>_. None), env_bigdata = (\<lambda>_. Some (replicate STSV_BIGDATA_BUFFER 0)),
     env_os = \<lparr>os_socket = 3, os_bind = 0, os_addr_in_use = False, os_bind_again = 0, os_listen = 0,
       os_thread = 0, os_stack_sock = 0, os_stack_ret = 0\<rparr>,
     sizeof_Client_t = 3000, sizeof_ROOM_DESC = 600, sizeof_SQLBuffer = 8, sizeof_MYSQL = 1200, sizeof_pointer = 8\<rparr>"

lemma default_config_limits:
  "\<exists>c. default_config (fresh_config\<lparr>s_bDebugVersion := b\<rparr>) = Inr c \<and> s_nMaxConnection c = 50 \<and> s_nServerMEMG c = 2 \<and>
     s_nMaxRoom c = 0 \<and> s_nDBMaxConnect c = 10 \<and> s_nProtocol c = 0 \<and> s_nDataBuffer c = 65536"
proof -
  have "\<exists>a. c_strcpy (replicate 16 NUL) ''root'' = Inr a" "\<exists>a. c_strcpy (replicate 16 NUL) ''123456'' = Inr a"
    "\<exists>a. c_strcpy (replicate 16 NUL) ''StarDB'' = Inr a" "\<exists>a. c_strcpy (replicate 32 NUL) ''127.0.0.1'' = Inr a"
    by (simp_all add: c_strcpy_def store_total)
  then show ?thesis by (auto simp: default_config_def fresh_config_def)
qed

lemma wit_limits:
  assumes "s_nMaxConnection c = 50" and "s_nServerMEMG c = 2"
  shows "CheckLimite (env_stack wit_env) (env_files wit_env) c"
proof -
  have "sint (ucast ((word_of_int (as_int (2 * 1024 * 1024)) :: u64) div (8 * 1024 * 1024 div 1024)) :: s32) = 256"
    "(word_of_int (as_int (50 * 3)) :: u64) = 150"
    by code_simp+
  with assms show ?thesis by (simp add: CheckLimite_def limiteLogin_def wit_env_def)
qed

lemma wit_alloc:
  assumes "s_nProtocol (cfg s) = 0"
  shows "\<exists>s' d'. alloc_all wit_api wit_env mem s wit_db = Inr (0, s', d')"
proof -
  let ?k = "cfg s"
  obtain s3 where s3: "alloc_clients wit_env s = (True, s3)" "cfg s3 = ?k"
    using alloc_buffers_total [of "replicate 65536 0" "replicate 65536 0" 0
      "replicate (nat (s_nMaxConnection ?k)) zero_client"]
    by (auto simp: alloc_clients_def wit_env_def)
  obtain s4 where s4: "alloc_rooms wit_env s3 = Inr s4" "cfg s4 = ?k"
    using s3 by (simp add: alloc_rooms_def wit_env_def)
  obtain d4 where d4: "alloc_sql wit_env ?k wit_db = (True, d4)"
    using alloc_commands_total [of "replicate 65536 NUL" 0 "nat (s_nDBMaxConnect ?k)"]
    by (auto simp: alloc_sql_def wit_env_def Let_def)
  obtain d5 n where d5: "STDB_Connect wit_api ?k d4 = Inr (d5, n)"
    using connect_total [OF alloc_sql_wf [OF d4], of "[0..<nat (s_nDBMaxConnect ?k)]" wit_api 0]
    by (auto simp: STDB_Connect_def pool_size_def)
  have srv: "\<exists>s' d'. CreateServer (env_os wit_env) s d = (0, s', d')" if "cfg s = ?k"
    for s and d :: "(unit, string option list list) db"
    using that assms by (simp add: CreateServer_def CreateTCPServer_def wit_env_def STSV_UDP_PROTOCOL_def STSV_TCP_PROTOCOL_def)
  have "\<exists>s' d'. finish_init wit_api wit_env mem s4 d4 = Inr (0, s', d')"
    using srv [of "s4\<lparr>s_nMemoryUse := unat (of_nat (s_nMemoryUse s4) + mem),
        s_Client_t := map (\<lambda>c. c\<lparr>online := False, thread := False\<rparr>) (s_Client_t s4)\<rparr>" d5] d5 s4
    by (auto simp: finish_init_def Let_def)
  then show ?thesis using s3 s4 d4 by (force simp: alloc_all_def)
qed

text \<open>The start without a configuration file, which can be written, up to the point where the two modes part.\<close>

abbreviation no_config :: "server \<Rightarrow> bool" where
  "no_config s \<equiv> files s ''config.sv2'' = None \<and> \<not> no_create s ''config.sv2''"

lemma wit_config:
  assumes "no_config s" and "cfg s = fresh_config\<lparr>s_bDebugVersion := True\<rparr>"
  shows "\<exists>s2. read_config wit_env s = Inr s2 \<and> s_nMaxStackSize s2 = s_nMaxStackSize s \<and>
    s_nMaxConnection (cfg s2) = 50 \<and> s_nServerMEMG (cfg s2) = 2 \<and> s_nProtocol (cfg s2) = 0 \<and> s_nDataBuffer (cfg s2) = 65536"
  using assms default_config_limits [of True] by (auto simp: read_config_def ReadConfigFile_def)

definition wit_begin :: "server \<Rightarrow> server" where
  "wit_begin s = (default_callbacks (s\<lparr>cfg := (cfg s)\<lparr>s_bDebugVersion := True\<rparr>,
      crcTable := STOS_InitCRCTable (crcTable s), s_nMemoryUse := 0\<rparr>))
    \<lparr>s_nMaxStackSize := sint (ucast (env_stack wit_env) :: s32), s_nMaxFile := sint (ucast (env_files wit_env) :: s32)\<rparr>"

lemma wit_bigdata:
  "\<exists>s1. initBigDataMemory (env_bigdata wit_env) (wit_begin s) = (0, s1) \<and> cfg s1 = (cfg s)\<lparr>s_bDebugVersion := True\<rparr> \<and>
     files s1 = files s \<and> no_create s1 = no_create s \<and> s_bUnlimit s1 = s_bUnlimit s \<and>
     s_nMaxStackSize s1 = sint (ucast (env_stack wit_env) :: s32)"
  by (simp add: initBigDataMemory_def STSV_BIGDATA_POOL_BLOCK_def wit_env_def default_callbacks_def wit_begin_def)

lemma wit_Init:
  assumes "initBigDataMemory (env_bigdata wit_env) (wit_begin s) = (0, s1)" and "s_bUnlimit s1 = s_bUnlimit s"
    and "(if s_bUnlimit s then InitServerUnlimit wit_api wit_env s1 wit_db else InitServerLimit wit_api wit_env s1 wit_db) =
      Inr (0, s2, d2)"
  shows "\<exists>s'. STSV_Init wit_api wit_env s wit_db = Inr (0, s', d2) \<and> cfg s' = cfg s2"
  using assms by (simp add: STSV_Init_def Let_def wit_begin_def)

lemma wit_started_limit:
  "\<exists>s' d'. STSV_Init wit_api wit_env (fresh_server []) wit_db = Inr (0, s', d') \<and> s_nMaxConnection (cfg s') = 50 \<and>
     s_nProtocol (cfg s') = 0 \<and> s_nDataBuffer (cfg s') = 65536"
proof -
  have fresh: "no_config (fresh_server [])" "cfg (fresh_server []) = fresh_config" "\<not> s_bUnlimit (fresh_server [])"
    by (simp_all add: fresh_server_def)
  from wit_bigdata [of "fresh_server []"] fresh obtain s1 where
    s1: "initBigDataMemory (env_bigdata wit_env) (wit_begin (fresh_server [])) = (0, s1)"
      "cfg s1 = fresh_config\<lparr>s_bDebugVersion := True\<rparr>" "no_config s1"
      "s_bUnlimit s1 = s_bUnlimit (fresh_server [])" by auto
  from wit_config [OF s1(3,2)] obtain s2 where s2: "read_config wit_env s1 = Inr s2" "s_nMaxConnection (cfg s2) = 50"
    "s_nServerMEMG (cfg s2) = 2" "s_nProtocol (cfg s2) = 0" "s_nDataBuffer (cfg s2) = 65536" by blast
  obtain s3 d3 where al: "alloc_all wit_api wit_env (limit_memory wit_env (cfg s2)) s2 wit_db = Inr (0, s3, d3)"
    using wit_alloc [OF s2(4)] by blast
  then have "InitServerLimit wit_api wit_env s1 wit_db = Inr (0, s3, d3)"
    using s2(1) wit_limits [OF s2(2,3)] by (simp add: InitServerLimit_def)
  with wit_Init [OF s1(1,4)] fresh(3) alloc_all_cfg [OF al] s2 show ?thesis by fastforce
qed

text \<open>The start with the default configuration and its surroundings, which the later witnesses begin with.\<close>

lemma wit_started:
  obtains s1 d1 where "STSV_Init wit_api wit_env (fresh_server []) wit_db = Inr (0, s1, d1)"
    "sane_env wit_env (cfg s1)" "s_nProtocol (cfg s1) \<in> {STSV_TCP_PROTOCOL, STSV_UDP_PROTOCOL}"
    "length (s_BigDataUse (fresh_server [])) = STSV_BIGDATA_POOL_BLOCK"
    "s_nProtocol (cfg s1) = STSV_TCP_PROTOCOL" "s_nMaxConnection (cfg s1) = 50"
proof -
  obtain s1 d1 where init: "STSV_Init wit_api wit_env (fresh_server []) wit_db = Inr (0, s1, d1)"
    and k: "s_nMaxConnection (cfg s1) = 50" "s_nProtocol (cfg s1) = 0" "s_nDataBuffer (cfg s1) = 65536"
    using wit_started_limit by blast
  have "length (s_BigDataUse (fresh_server [])) = STSV_BIGDATA_POOL_BLOCK"
    by (simp add: fresh_server_def STSV_BIGDATA_POOL_BLOCK_def)
  with that [OF init] k show ?thesis by (simp add: sane_env_def wit_env_def STSV_TCP_PROTOCOL_def)
qed

theorem Init_establishes_witness:
  "\<exists>s' d'. STSV_Init wit_api wit_env (fresh_server []) wit_db = Inr (0, s', d') \<and>
     length (s_Client_t s') = 50 \<and> wf_db (cfg s') d' \<and> pool_inv s'"
proof (rule wit_started)
  fix s' d' assume run: "STSV_Init wit_api wit_env (fresh_server []) wit_db = Inr (0, s', d')"
    and env: "sane_env wit_env (cfg s')" "s_nProtocol (cfg s') \<in> {STSV_TCP_PROTOCOL, STSV_UDP_PROTOCOL}"
      "length (s_BigDataUse (fresh_server [])) = STSV_BIGDATA_POOL_BLOCK"
    and "s_nMaxConnection (cfg s') = 50"
  with Init_establishes [OF run env] show ?thesis by (auto simp: wf_hosts_def)
qed

text \<open>In the unlimited mode, with 2 gigabytes for stacks of 8 megabytes, there is room for 251 clients.\<close>

lemma wit_room_for:
  assumes "s_nServerMEMG k = 2" and "s_nDataBuffer k = 65536"
  shows "sint (ucast (memoryHave k div memPerUser wit_env 8388608 k) :: s32) = 251"
proof -
  have mem: "memPerUser wit_env 8388608 k = 3000 + word_of_int (as_int (2 * 65536)) + 8388608 + 300"
    "memoryHave k = 2 * 1024 * 1024 * 1024"
    using assms by (simp_all add: memPerUser_def memoryHave_def wit_env_def)
  show ?thesis unfolding mem by code_simp
qed

lemma wit_stack: "sint (ucast (env_stack wit_env) :: s32) = 8388608"
proof -
  have "sint (ucast (8 * 1024 * 1024 :: u64) :: s32) = 8388608" by code_simp
  then show ?thesis by (simp add: wit_env_def)
qed

lemma wit_started_unlimit:
  assumes "no_config s" and "cfg s = fresh_config" and "s_bUnlimit s"
  shows "\<exists>s' d'. STSV_Init wit_api wit_env s wit_db = Inr (0, s', d') \<and> s_nMaxConnection (cfg s') = 251 \<and>
     s_nProtocol (cfg s') = 0 \<and> s_nDataBuffer (cfg s') = 65536"
proof -
  from wit_bigdata [of s] obtain s1 where
    s1: "initBigDataMemory (env_bigdata wit_env) (wit_begin s) = (0, s1)"
      "cfg s1 = (cfg s)\<lparr>s_bDebugVersion := True\<rparr>" "files s1 = files s" "no_create s1 = no_create s"
      "s_bUnlimit s1 = s_bUnlimit s" "s_nMaxStackSize s1 = sint (ucast (env_stack wit_env) :: s32)" by blast
  have start: "no_config s1" "cfg s1 = fresh_config\<lparr>s_bDebugVersion := True\<rparr>"
    using s1(2-4) assms(1,2) by simp_all
  from wit_config [OF start] obtain s2 where s2: "read_config wit_env s1 = Inr s2"
    "s_nServerMEMG (cfg s2) = 2" "s_nProtocol (cfg s2) = 0" "s_nDataBuffer (cfg s2) = 65536"
    "s_nMaxStackSize s2 = s_nMaxStackSize s1" by blast
  have st: "s_nMaxStackSize s1 = 8388608" unfolding s1(6) by (rule wit_stack)
  note n = wit_room_for [OF s2(2,4)]
  let ?s2 = "s2\<lparr>cfg := (cfg s2)\<lparr>s_nMaxConnection := 251, s_nMaxRoom := 125\<rparr>\<rparr>"
  obtain s3 d3 where al: "alloc_all wit_api wit_env (unlimit_memory wit_env (cfg ?s2)) ?s2 wit_db = Inr (0, s3, d3)"
    using wit_alloc [of ?s2 "unlimit_memory wit_env (cfg ?s2)"] s2(3) by auto
  then have "InitServerUnlimit wit_api wit_env s1 wit_db = Inr (0, s3, d3)"
    using s2(1,5) st n by (simp add: InitServerUnlimit_def Let_def)
  with wit_Init [OF s1(1,5)] assms(3) alloc_all_cfg [OF al] s2 show ?thesis by fastforce
qed

section \<open>What the limits give\<close>

lemma as_int_small: "- (2 ^ 31) \<le> n \<Longrightarrow> n < 2 ^ 31 \<Longrightarrow> as_int n = n"
  by (simp add: as_int_def sint_sbintrunc' signed_take_bit_int_eq_self)

lemma quotient_times: "(a :: int) > 0 \<Longrightarrow> b div a * a \<le> b"
  using minus_mod_eq_div_mult [of b a] pos_mod_sign [of a b] by linarith

lemma le_quotient_iff:
  assumes a: "(a :: int) > 0"
  shows "n \<le> b div a \<longleftrightarrow> n * a \<le> b"
proof (rule iffI)
  assume "n \<le> b div a"
  then have "n * a \<le> b div a * a" using a by (intro mult_right_mono) simp_all
  with quotient_times [OF a, of b] show "n * a \<le> b" by simp
next
  assume "n * a \<le> b"
  with zdiv_mono1 [of "n * a" b a] a show "n \<le> b div a" by simp
qed

lemma limiteLogin_eq:
  assumes "512 * 1024 \<le> stack" and "0 \<le> s_nServerMEMG k" and "s_nServerMEMG k < 2048"
  shows "limiteLogin stack k = s_nServerMEMG k * 1024 * 1024 div (uint stack div 1024)"
proof -
  let ?m = "s_nServerMEMG k * 1024 * 1024"
  have m: "0 \<le> ?m" "?m < 2 ^ 31" using assms(2,3) by simp_all
  have "as_int ?m = ?m" using m by (intro as_int_small) simp_all
  moreover have "uint (word_of_int ?m :: u64) = ?m"
    using m unfolding uint_word_of_int by (intro mod_pos_pos_trivial) simp_all
  moreover have st: "512 \<le> uint stack div 1024"
    using assms(1) by (simp add: word_le_def)
  ultimately have q: "uint ((word_of_int (as_int ?m) :: u64) div (stack div 1024)) = ?m div (uint stack div 1024)"
    by (simp add: uint_div)
  have "0 \<le> ?m div (uint stack div 1024)" using m st by (simp add: pos_imp_zdiv_nonneg_iff)
  moreover from this have "?m div (uint stack div 1024) \<le> ?m"
    using quotient_times [of "uint stack div 1024" ?m] st mult_left_mono [of 1 "uint stack div 1024" "?m div (uint stack div 1024)"]
    by simp
  ultimately have "0 \<le> ?m div (uint stack div 1024)" "?m div (uint stack div 1024) \<le> ?m" by simp_all
  then have small: "0 \<le> ?m div (uint stack div 1024)" "?m div (uint stack div 1024) < 2 ^ 31" using m(2) by linarith+
  show ?thesis
    unfolding limiteLogin_def using small q
    by (simp add: signed_ucast_eq signed_take_bit_int_eq_self)
qed

text \<open>
  C28: with less than 2048 gigabytes configured (the product of the megabytes is an \<open>int\<close>), \<open>CheckLimite\<close>
  lets a start through exactly when the stack has at least 512 kilobytes, the memory has room for a full stack of
  every connection, counted in kilobytes, and there are three open files for each of them.
\<close>

theorem CheckLimite_bounds:
  assumes "0 \<le> s_nServerMEMG k" and "s_nServerMEMG k < 2048" and "0 \<le> s_nMaxConnection k"
  shows "CheckLimite stack nofile k \<longleftrightarrow>
    512 * 1024 \<le> uint stack \<and> s_nMaxConnection k * (uint stack div 1024) \<le> s_nServerMEMG k * 1024 * 1024 \<and>
    3 * s_nMaxConnection k \<le> uint nofile"
proof (cases "512 * 1024 \<le> stack")
  case True
  then have q: "512 \<le> uint stack div 1024" "512 * 1024 \<le> uint stack" by (simp_all add: word_le_def)
  have lim: "s_nMaxConnection k \<le> limiteLogin stack k \<longleftrightarrow>
      s_nMaxConnection k * (uint stack div 1024) \<le> s_nServerMEMG k * 1024 * 1024"
    unfolding limiteLogin_eq [OF True assms(1,2)] by (rule le_quotient_iff) (use q in simp)
  show ?thesis
  proof (cases "s_nMaxConnection k \<le> limiteLogin stack k")
    case enough: True
    have "s_nMaxConnection k * 512 \<le> s_nMaxConnection k * (uint stack div 1024)"
      using q assms(3) by (intro mult_left_mono)
    with enough lim assms(2) have small: "s_nMaxConnection k * 3 < 2 ^ 31" by simp
    then have "as_int (s_nMaxConnection k * 3) = s_nMaxConnection k * 3"
      using assms(3) by (intro as_int_small) simp_all
    moreover have "uint (word_of_int (s_nMaxConnection k * 3) :: u64) = s_nMaxConnection k * 3"
      using small assms(3) unfolding uint_word_of_int by (intro mod_pos_pos_trivial) simp_all
    ultimately have "nofile < word_of_int (as_int (s_nMaxConnection k * 3)) \<longleftrightarrow> uint nofile < 3 * s_nMaxConnection k"
      by (simp add: word_less_def mult.commute)
    with lim q enough True show ?thesis by (auto simp: CheckLimite_def)
  qed (use lim in \<open>auto simp: CheckLimite_def\<close>)
next
  case False
  then have "stack < 512 * 1024" "\<not> 512 * 1024 \<le> uint stack" by (simp_all add: word_le_def not_le word_less_def)
  then show ?thesis by (simp add: CheckLimite_def)
qed

text \<open>Two gigabytes and the default stack are enough for 50 connections and not for 300.\<close>

definition wit_limit :: "int \<Rightarrow> config" where
  "wit_limit n = fresh_config\<lparr>s_nMaxConnection := n, s_nServerMEMG := 2\<rparr>"

theorem CheckLimite_bounds_witness:
  "CheckLimite (8 * 1024 * 1024) 1024 (wit_limit 50) \<and> \<not> CheckLimite (8 * 1024 * 1024) 1024 (wit_limit 300)"
proof -
  have "0 \<le> s_nServerMEMG (wit_limit n)" "s_nServerMEMG (wit_limit n) < 2048" for n by (simp_all add: wit_limit_def)
  moreover have "0 \<le> n \<Longrightarrow> 0 \<le> s_nMaxConnection (wit_limit n)" for n by (simp add: wit_limit_def)
  ultimately have "CheckLimite (8 * 1024 * 1024) 1024 (wit_limit n) \<longleftrightarrow>
      n * 8192 \<le> 2 * 1024 * 1024 \<and> 3 * n \<le> 1024" if "0 \<le> n" for n
    using that CheckLimite_bounds [of "wit_limit n" "8 * 1024 * 1024" 1024] by (simp add: wit_limit_def)
  from this [of 50] this [of 300] show ?thesis by simp
qed

end
