(* ===== verification/Star_Thread.thy ===== *)
theory Star_Thread
  imports Star_Server Star_BigData
begin

text \<open>
  The thread of one client: \<open>STSV_ClientThreadFuncAlway\<close>, with the callbacks it calls. A callback
  that the program sets is an argument of the model; the two callbacks of the library itself,
  \<open>STSV_TempClientConnectFunc\<close> and \<open>STSV_TempClientRequestFunc\<close>, are modelled. The results of
  \<open>poll\<close> are a list: a thread that finds none left waits.
\<close>

section \<open>Callbacks\<close>

record callbacks =
  on_connect :: "server \<Rightarrow> nat \<Rightarrow> server result"
  on_request :: "server \<Rightarrow> nat \<Rightarrow> server result"
  on_disconnect :: "server \<Rightarrow> nat \<Rightarrow> server result"

definition STSV_TempClientConnectFunc :: "server \<Rightarrow> nat \<Rightarrow> server result" where
  "STSV_TempClientConnectFunc s i = Inr s"

text \<open>
  The three words of a message that are printed, from an address in the receive buffer; the size of
  the message is not looked at.
\<close>

definition print_words :: "server \<Rightarrow> nat \<Rightarrow> nat option \<Rightarrow> unit result" where
  "print_words s i p =
     (case p of
        None \<Rightarrow> Inl NullDeref
      | Some a \<Rightarrow>
          bindR (client_at s i) (\<lambda>c.
          bindR (rd32 (recvBuffer c) (a + 4 * 256)) (\<lambda>_.
          bindR (rd32 (recvBuffer c) (a + 4 * 318)) (\<lambda>_.
          bindR (rd32 (recvBuffer c) (a + 4 * 128)) (\<lambda>_. Inr ())))))"

definition print_message :: "nat \<Rightarrow> server \<Rightarrow> nat \<Rightarrow> server result" where
  "print_message i s j =
     bindR (client_at s i) (\<lambda>c.
     bindR (STSV_GetData (s_Client_t s) (int (unat (idx c))) (int j)) (\<lambda>(buffer, size).
     bindR (print_words s (unat (idx c)) buffer) (\<lambda>_. Inr s)))"

definition STSV_TempClientRequestFunc :: "server \<Rightarrow> nat \<Rightarrow> server result" where
  "STSV_TempClientRequestFunc s i =
     bindR (client_at s i) (\<lambda>c.
     bindR (STSV_GetDataCount (s_Client_t s) (int (unat (idx c)))) (\<lambda>n.
       if n \<noteq> 0 then foldR (print_message i) s [0..<nat n] else Inr s))"

definition run_callback ::
  "callback \<Rightarrow> (server \<Rightarrow> nat \<Rightarrow> server result) \<Rightarrow> (server \<Rightarrow> nat \<Rightarrow> server result) \<Rightarrow> server \<Rightarrow> nat \<Rightarrow> server result" where
  "run_callback f temp user s i =
     (case f of NoCallback \<Rightarrow> Inl NullDeref | TempCallback \<Rightarrow> temp s i | UserCallback \<Rightarrow> user s i)"

definition call_connect :: "callbacks \<Rightarrow> server \<Rightarrow> nat \<Rightarrow> server result" where
  "call_connect cb s i = run_callback (processMSGClientConnect s) STSV_TempClientConnectFunc (on_connect cb) s i"

definition call_request :: "callbacks \<Rightarrow> server \<Rightarrow> nat \<Rightarrow> server result" where
  "call_request cb s i = run_callback (processMSGClientRequest s) STSV_TempClientRequestFunc (on_request cb) s i"

text \<open>The library has no disconnect callback of its own, and \<open>STSV_Init\<close> does not set one.\<close>

definition call_disconnect :: "callbacks \<Rightarrow> server \<Rightarrow> nat \<Rightarrow> server result" where
  "call_disconnect cb s i =
     (if processMSGClientDisconnect s = NoCallback then Inl NullDeref else on_disconnect cb s i)"

section \<open>The thread\<close>

definition thread_start :: "server \<Rightarrow> nat \<Rightarrow> server result" where
  "thread_start s i = on_client s i (\<lambda>c. Inr (c\<lparr>thread := True, recieveDone := False,
     recieveHeader := False, sendingData := False, sendDone := False, sendDataSize := 0\<rparr>))"

definition serve_client :: "callbacks \<Rightarrow> server \<Rightarrow> nat \<Rightarrow> server result" where
  "serve_client cb s i =
     bindR (processMessageBuffer s i) (\<lambda>(ret, s).
       if ret = 0 then
         bindR (StartPackSendData s i) (\<lambda>s.
         bindR (call_request cb s i) (\<lambda>s. EndPackSendData s i))
       else Inr s)"

fun client_loop :: "callbacks \<Rightarrow> int list \<Rightarrow> server \<Rightarrow> nat \<Rightarrow> server result" where
  "client_loop cb [] s i = bindR (client_at s i) (\<lambda>c. if online c then Inl Blocked else Inr s)"
| "client_loop cb (nready # polls) s i =
     bindR (client_at s i) (\<lambda>c.
       if online c then
         bindR (if 0 < nready then serve_client cb s i else go_offline s i) (\<lambda>s. client_loop cb polls s i)
       else Inr s)"

text \<open>The end of the thread: what it closes, and its last statement.\<close>

definition thread_close :: "callbacks \<Rightarrow> server \<Rightarrow> nat \<Rightarrow> server result" where
  "thread_close cb s i =
     bindR (call_disconnect cb s i) (\<lambda>s.
     bindR (client_at s i) (\<lambda>c.
     bindR (DestroyClientRoom (fst (DestroySocket s (socket c))) i) (\<lambda>(_, s). Inr s)))"

definition thread_end :: "callbacks \<Rightarrow> server \<Rightarrow> nat \<Rightarrow> server result" where
  "thread_end cb s i =
     bindR (thread_close cb s i) (\<lambda>s. Inr (s\<lparr>s_nCurLoginCount := s_nCurLoginCount s - 1\<rparr>))"

definition STSV_ClientThreadFuncAlway :: "callbacks \<Rightarrow> int list \<Rightarrow> server \<Rightarrow> nat \<Rightarrow> server result" where
  "STSV_ClientThreadFuncAlway cb polls s i =
     bindR (thread_start s i) (\<lambda>s.
     bindR (client_at s i) (\<lambda>c.
     bindR (if online c then call_connect cb s i else Inr s) (\<lambda>s.
     bindR (client_loop cb polls s i) (\<lambda>s. thread_end cb s i))))"

section \<open>What serving a client keeps\<close>

text \<open>
  The contract of everything a thread calls. The globals below stay; every client keeps its socket, its
  number and its room, does not come online, and stays well-formed.
\<close>

definition place :: "Client_t \<Rightarrow> int \<times> u16 \<times> int" where
  "place c = (socket c, idx c, roomIdx c)"

definition globals :: "server \<Rightarrow> config \<times> u32 \<times> SERVER_ROOM_DESC list \<times> callback \<times> callback \<times> callback" where
  "globals s = (cfg s, s_nCurLoginCount s, s_Room_t s, processMSGClientRequest s, processMSGClientConnect s,
     processMSGClientDisconnect s)"

definition serves :: "Client_t \<Rightarrow> Client_t \<Rightarrow> bool" where
  "serves c c' \<longleftrightarrow> place c' = place c \<and> (online c' \<longrightarrow> online c) \<and> (wf_client c \<longrightarrow> wf_client c')"

definition served :: "server \<Rightarrow> server \<Rightarrow> bool" where
  "served s s' \<longleftrightarrow> globals s' = globals s \<and> list_all2 serves (s_Client_t s) (s_Client_t s')"

lemma serves_refl [simp]: "serves c c"
  by (simp add: serves_def)

lemma serves_trans: "serves c1 c2 \<Longrightarrow> serves c2 c3 \<Longrightarrow> serves c1 c3"
  by (simp add: serves_def)

lemma served_refl [simp]: "served s s"
  by (simp add: served_def list_all2_refl)

lemma served_trans: "served s1 s2 \<Longrightarrow> served s2 s3 \<Longrightarrow> served s1 s3"
  using list_all2_trans [of serves serves serves] by (fastforce simp: served_def intro: serves_trans)

lemma served_length: "served s s' \<Longrightarrow> length (s_Client_t s') = length (s_Client_t s)"
  by (auto simp: served_def dest: list_all2_lengthD)

lemma served_client: "served s s' \<Longrightarrow> i < length (s_Client_t s) \<Longrightarrow> serves (s_Client_t s ! i) (s_Client_t s' ! i)"
  by (simp add: served_def list_all2_nthD)

lemma served_globals:
  assumes "served s s'"
  shows "cfg s' = cfg s" "s_nCurLoginCount s' = s_nCurLoginCount s" "s_Room_t s' = s_Room_t s"
    "processMSGClientRequest s' = processMSGClientRequest s" "processMSGClientConnect s' = processMSGClientConnect s"
    "processMSGClientDisconnect s' = processMSGClientDisconnect s"
  using assms by (simp_all add: served_def globals_def)

lemma served_same:
  "s_Client_t s' = s_Client_t s \<Longrightarrow> globals s' = globals s \<Longrightarrow> served s s'"
  by (simp add: served_def list_all2_refl)

lemma served_net [simp]: "served s s' \<Longrightarrow> served s (s'\<lparr>net := n\<rparr>)" "served s s' \<Longrightarrow> served s (s'\<lparr>files := f\<rparr>)"
  by (simp_all add: served_def globals_def)

lemma served_put:
  assumes "client_at s i = Inr c" and "serves c c'"
  shows "served s (put_client s i c')"
  using assms by (auto simp: served_def globals_def put_client_def client_at_Inr_iff list_all2_conv_all_nth nth_list_update)

lemma served_on_client:
  assumes "on_client s i f = Inr s'" and "\<And>c c'. f c = Inr c' \<Longrightarrow> serves c c'"
  shows "served s s'"
  using assms by (auto simp: on_client_def bindR_Inr_iff intro!: served_put)

lemma served_offline: "go_offline s i = Inr s' \<Longrightarrow> served s s'"
  unfolding go_offline_def by (erule served_on_client) (auto simp: serves_def place_def wf_client_def)

lemma served_WriteTo: "WriteTo_client s i b = Inr (r, s') \<Longrightarrow> served s s'"
  by (auto dest: WriteTo_client_frame)

lemma served_ReadFrom: "ReadFrom_client s i off n nb = Inr (r, s') \<Longrightarrow> served s s'"
proof -
  assume "ReadFrom_client s i off n nb = Inr (r, s')"
  then obtain c b k where c: "client_at s i = Inr c"
    and s': "s' = put_client (s\<lparr>net := (net s)(socket c := k)\<rparr>) i (c\<lparr>recvBuffer := b\<rparr>)"
    by (auto simp: ReadFrom_client_def bindR_Inr_iff)
  have "served s (put_client s i (c\<lparr>recvBuffer := b\<rparr>))"
    by (rule served_put [OF c]) (simp add: serves_def place_def wf_client_def)
  then show ?thesis by (simp add: s' put_client_def served_def globals_def)
qed

lemmas served_sockets = served_offline served_WriteTo served_ReadFrom

lemma served_send_header: "send_header s i ty no = Inr s' \<Longrightarrow> served s s'"
  by (auto simp: send_header_def bindR_Inr_iff split: if_splits dest!: served_sockets intro: served_trans)

lemma served_SendReTrasmit: "SendReTrasmit s i no = Inr s' \<Longrightarrow> served s s'"
  unfolding SendReTrasmit_def by (rule served_send_header)

section \<open>Receiving keeps the contract\<close>

interpretation stable: kept_view "\<lambda>c. (place c, online c, wf_client c)"
  by unfold_locales (simp_all add: place_def wf_client_def)

lemma served_views:
  assumes "views (\<lambda>c. (place c, online c, wf_client c)) s' = views (\<lambda>c. (place c, online c, wf_client c)) s"
    and "globals s' = globals s"
  shows "served s s'"
proof -
  have len: "length (s_Client_t s') = length (s_Client_t s)" using assms(1) by (rule views_length_eq)
  have "serves (s_Client_t s ! i) (s_Client_t s' ! i)" if "i < length (s_Client_t s)" for i
    using arg_cong [OF assms(1), of "\<lambda>v. v ! i"] that len by (simp add: views_def serves_def)
  with len assms(2) show ?thesis by (simp add: served_def list_all2_conv_all_nth)
qed

lemma globals_put [simp]: "globals (put_client s i c) = globals s"
  by (simp add: globals_def put_client_def)

lemma globals_files:
  "fopen_wb s name = Some s' \<Longrightarrow> globals s' = globals s" "fopen_ab s name = Some s' \<Longrightarrow> globals s' = globals s"
  "write_part s i c name a n = Inr (c', s') \<Longrightarrow> globals s' = globals s"
  by (auto simp: fopen_wb_def fopen_ab_def write_part_def fappend_def bindR_Inr_iff globals_def
      split: if_splits option.splits)

lemma served_BigData: "ProessMessageBigData s i = Inr (r, s') \<Longrightarrow> served s s'"
proof -
  have "ensures (ProessMessageBigData s i) (\<lambda>(r, s'). globals s' = globals s)"
    unfolding ProessMessageBigData_def Let_def by (intro ensures_rules) (auto dest!: globals_files)
  then show "ProessMessageBigData s i = Inr (r, s') \<Longrightarrow> served s s'"
    by (auto dest: ensuresD stable.kept_BigData intro: served_views)
qed

lemma served_FileData: "ProessMessageFileData s i = Inr (r, s') \<Longrightarrow> served s s'"
proof -
  have "ensures (ProessMessageFileData s i) (\<lambda>(r, s'). globals s' = globals s)"
    unfolding ProessMessageFileData_def Let_def by (intro ensures_rules) (auto dest!: globals_files)
  then show "ProessMessageFileData s i = Inr (r, s') \<Longrightarrow> served s s'"
    by (auto dest: ensuresD stable.kept_FileData intro: served_views)
qed

lemma served_packet: "on_client s i processMessagePacket = Inr s' \<Longrightarrow> served s s'"
  by (erule served_on_client) (auto simp: serves_def dest: stable.kept_processMessagePacket)

lemma served_packRef: "on_client s i (\<lambda>c. Inr (c\<lparr>packRef := n\<rparr>)) = Inr s' \<Longrightarrow> served s s'"
  by (erule served_on_client) (auto simp: serves_def place_def wf_client_def)

lemma served_acceptData: "ensures (acceptData s i ty no) (\<lambda>(r, s'). served s s')"
  unfolding acceptData_def
  by (intro ensures_rules)
    (auto split: if_splits dest!: served_packet served_BigData served_FileData served_packRef intro: served_trans)

lemma served_checkData: "ensures (checkData s i ty sz readSize) (\<lambda>(r, s'). served s s')"
  unfolding checkData_def
  by (intro ensures_rules) (auto dest!: served_offline served_SendReTrasmit intro: served_acceptData)

lemma ensures_served_from:
  "served s s1 \<Longrightarrow> ensures m (\<lambda>(r, s'). served s1 s') \<Longrightarrow> ensures m (\<lambda>(r, s'). served s s')"
  by (auto simp: ensures_def intro: served_trans)

lemma served_processData: "ensures (processData s i ty) (\<lambda>(r, s'). served s s')"
  unfolding processData_def
  by (intro ensures_rules) (auto dest!: served_offline intro!: ensures_served_from [OF served_ReadFrom served_checkData])

lemma served_processRegister: "ensures (processRegister s i) (\<lambda>(r, s'). served s s')"
proof -
  have put: "served s1 (put_client s1 i (c\<lparr>sendBuffer := b, sendDataSize := n\<rparr>))"
    if "client_at s1 i = Inr c" "wr16 (sendBuffer c) k v = Inr b1" "wr16 b1 k' v' = Inr b" for s1 c b n k v b1 k' v'
    using that(2,3) by (intro served_put [OF that(1)])
      (simp add: serves_def place_def wf_client_def wr16_def store_length)
  show ?thesis
    unfolding processRegister_def
    by (intro ensures_rules)
      (auto split: if_splits dest!: served_sockets put intro: served_trans)
qed

lemma served_processRetrasmit: "ensures (processRetrasmit s i) (\<lambda>(r, s'). served s s')"
  unfolding processRetrasmit_def
  by (intro ensures_rules) (auto split: if_splits dest!: served_sockets intro: served_trans)

lemma served_processMessageBuffer: "processMessageBuffer s i = Inr (r, s') \<Longrightarrow> served s s'"
proof -
  have reset: "on_client s i (\<lambda>c. Inr (c\<lparr>recvCount := 0\<rparr>)) = Inr s1 \<Longrightarrow> served s s1" for s1
    by (erule served_on_client) (auto simp: serves_def place_def wf_client_def)
  have all: "ensures (if ty = STSOCKMSG_REGISTER then processRegister s1 i
      else if ty = STSOCKMSG_RETRASMIT then processRetrasmit s1 i
      else if ty = STSOCKMSG_PING then Inr (-1, s1) else processData s1 i ty) (\<lambda>(r, s'). served s1 s')" for s1 ty
    by (simp add: served_processRegister served_processRetrasmit served_processData ensures_Inr)
  have "ensures (processMessageBuffer s i) (\<lambda>(r, s'). served s s')"
    unfolding processMessageBuffer_def
  proof (rule ensures_bind, rule ensures_bind, rule ensures_prod, rule ensures_if)
    fix s1 p readSize s2
    assume s1: "on_client s i (\<lambda>c. Inr (c\<lparr>recvCount := 0\<rparr>)) = Inr s1"
      and p: "ReadFrom_client s1 i 0 sizeof_DATASIZE False = Inr p" "p = (readSize, s2)"
    have r: "served s s2" using served_trans [OF reset [OF s1]] served_ReadFrom p by simp
    show "ensures (bindR (go_offline s2 i) (\<lambda>s. Inr (-1, s))) (\<lambda>(r, s'). served s s')"
      by (intro ensures_bind ensures_Inr) (auto dest!: served_offline intro: served_trans [OF r])
    show "ensures (bindR (client_at s2 i) (\<lambda>c. bindR (msg_type (recvBuffer c)) (\<lambda>ty.
        if ty = STSOCKMSG_REGISTER then processRegister s2 i
        else if ty = STSOCKMSG_RETRASMIT then processRetrasmit s2 i
        else if ty = STSOCKMSG_PING then Inr (-1, s2) else processData s2 i ty))) (\<lambda>(r, s'). served s s')"
      by (intro ensures_bind ensures_served_from [OF r all])
  qed
  then show "processMessageBuffer s i = Inr (r, s') \<Longrightarrow> served s s'" by (auto dest: ensuresD)
qed

section \<open>Sending keeps the contract\<close>

text \<open>Packing writes into the send buffer only, and never changes its size.\<close>

lemma serves_sendBuffer:
  "length b = length (sendBuffer c) \<Longrightarrow> serves c (c\<lparr>sendBuffer := b, sendDataSize := n\<rparr>) \<and> serves c (c\<lparr>sendBuffer := b\<rparr>)"
  by (simp add: serves_def place_def wf_client_def)

lemma pack_entry_length: "pack_entry c (b, k, p) i = Inr (b', k', p') \<Longrightarrow> length b' = length b"
  by (auto simp: pack_entry_def Let_def bindR_Inr_iff wr16_def dest: store_length)

lemma pack_copy_length: "pack_copy c (b, a) i = Inr (b', a') \<Longrightarrow> length b' = length b"
  by (auto simp: pack_copy_def memcpy_within_def bindR_Inr_iff dest: store_length split: option.splits if_splits)

lemma serves_PackDataWithPacket: "PackDataWithPacket c = Inr c' \<Longrightarrow> serves c c'"
proof -
  have e: "foldR (pack_entry c) x js = Inr (b', k', p') \<Longrightarrow> length b' = length (fst x)" for x b' k' p' js
    by (induction js arbitrary: x) (auto simp: bindR_Inr_iff dest!: pack_entry_length)
  have k: "foldR (pack_copy c) x js = Inr (b', a') \<Longrightarrow> length b' = length (fst x)" for x b' a' js
    by (induction js arbitrary: x) (auto simp: bindR_Inr_iff dest!: pack_copy_length)
  have "ensures (PackDataWithPacket c) (serves c)"
    unfolding PackDataWithPacket_def Let_def
    by (intro ensures_rules conjunct2 [OF serves_sendBuffer])
      (auto simp: wr16_def wr32_def dest!: store_length e k)
  then show "PackDataWithPacket c = Inr c' \<Longrightarrow> serves c c'" by (rule ensuresD)
qed

lemma serves_PackDataWithBigData: "PackDataWithBigData s c = Inr c' \<Longrightarrow> serves c c'"
proof -
  have upd: "length b = length (sendBuffer c) \<Longrightarrow>
      serves c (c\<lparr>sendBuffer := b, bigDataSendSizeDone := d, fileDataSending := f\<rparr>)" for b d f
    by (simp add: serves_def place_def wf_client_def)
  have cond: "(if p then wr16 b k v else Inr b) = Inr b' \<Longrightarrow> length b' = length b"
    "(if p then store b k x else Inr b) = Inr b' \<Longrightarrow> length b' = length b"
    "wr32 b k w = Inr b' \<Longrightarrow> length b' = length b" for p b k v x w b'
    by (auto simp: wr16_def wr32_def dest: store_length split: if_splits)
  have "ensures (PackDataWithBigData s c) (serves c)"
    unfolding PackDataWithBigData_def Let_def
    by (intro ensures_rules upd serves_refl; (drule cond store_length)+; simp)
  then show "PackDataWithBigData s c = Inr c' \<Longrightarrow> serves c c'" by (rule ensuresD)
qed

lemma serves_packForSending: "packForSending s c = Inr c' \<Longrightarrow> serves c c'"
proof -
  assume "packForSending s c = Inr c'"
  then obtain c1 c2 c3 sz b where c1: "PackDataWithPacket c = Inr c1"
    and c2: "(if fileDataSending c1 then PackDataWithBigData s c1 else Inr c1) = Inr c2"
    and c3: "PackDataWithCRC16 (crcTable s) c2 = Inr c3" and b: "wr32 (sendBuffer c3) 4 (packRef c3) = Inr b"
    and c': "Inr (c3\<lparr>sendBuffer := b, sendDataSize := nat ((sint (sz :: s32) + 12) mod 2 ^ 64)\<rparr>) = (Inr c' :: Client_t result)"
    unfolding packForSending_def bindR_Inr_iff by blast
  have s2: "serves c1 c2" using c2 by (auto split: if_splits dest: serves_PackDataWithBigData)
  have s3: "serves c2 c3"
    using c3 by (auto simp: PackDataWithCRC16_def bindR_Inr_iff wr16_def serves_sendBuffer dest!: store_length)
  have "length b = length (sendBuffer c3)" using b by (auto simp: wr32_def dest: store_length)
  then have "serves c3 c'" using c' serves_sendBuffer [of b c3] by auto
  with serves_PackDataWithPacket [OF c1] s2 s3 show ?thesis by (blast intro: serves_trans)
qed

lemma served_EndPackSendData: "EndPackSendData s i = Inr s' \<Longrightarrow> served s s'"
proof -
  have lock: "on_client s1 i lock_client = Inr s2 \<Longrightarrow> served s1 s2" for s1 s2
    by (erule served_on_client) (auto simp: lock_client_def serves_def place_def wf_client_def split: if_splits)
  have unlock: "on_client s1 i (\<lambda>c. Inr (unlock_client (c\<lparr>recvCount := 0, sendCount := 0, curPacketNo := 0\<rparr>))) = Inr s2 \<Longrightarrow>
      served s1 s2" for s1 s2
    by (erule served_on_client) (auto simp: unlock_client_def serves_def place_def wf_client_def)
  have sent: "on_client s1 i (\<lambda>c. Inr (c\<lparr>sendDone := True\<rparr>)) = Inr s2 \<Longrightarrow> served s1 s2" for s1 s2
    by (erule served_on_client) (auto simp: serves_def place_def wf_client_def)
  show "EndPackSendData s i = Inr s' \<Longrightarrow> served s s'"
  proof -
    assume e: "EndPackSendData s i = Inr s'"
    then obtain c where c: "client_at s i = Inr c" by (auto simp: EndPackSendData_def bindR_Inr_iff)
    show ?thesis
    proof (cases "0 < sendCount c \<or> fileDataSending c")
      case False
      with e c show ?thesis
        by (auto simp: EndPackSendData_def SendConfirmMessage_def bindR_Inr_iff split: if_splits
            dest!: served_send_header sent intro: served_trans)
    next
      case True
      with e c obtain s1 c1 c2 msg x s4 where s1: "on_client s i lock_client = Inr s1"
        and c1: "client_at s1 i = Inr c1" "packForSending s1 c1 = Inr c2"
        and w: "WriteTo_client (put_client s1 i c2) i msg = Inr x"
        and r: "(if fst x = 0 then go_offline (snd x) i else Inr (snd x)) = Inr s4"
        and u: "on_client s4 i (\<lambda>c. Inr (unlock_client (c\<lparr>recvCount := 0, sendCount := 0, curPacketNo := 0\<rparr>))) = Inr s'"
        by (auto simp: EndPackSendData_def bindR_Inr_iff split_beta)
      have "served (put_client s1 i c2) (snd x)" using served_WriteTo [of _ i msg "fst x" "snd x"] w by simp
      moreover have "served (snd x) s4" using r by (auto split: if_splits dest: served_offline)
      ultimately show ?thesis
        using lock [OF s1] served_put [OF c1(1) serves_packForSending [OF c1(2)]] unlock [OF u]
        by (blast intro: served_trans)
    qed
  qed
qed

lemma served_StartPack: "StartPackSendData s i = Inr s' \<Longrightarrow> served s s'"
  unfolding StartPackSendData_def by (erule served_on_client) (auto simp: serves_def place_def wf_client_def)

lemma served_thread_start: "thread_start s i = Inr s' \<Longrightarrow> served s s'"
  unfolding thread_start_def by (erule served_on_client) (auto simp: serves_def place_def wf_client_def)

lemma TempClientRequest_same: "STSV_TempClientRequestFunc s i = Inr s' \<Longrightarrow> s' = s"
proof -
  have one: "print_message i s1 j = Inr s2 \<Longrightarrow> s2 = s1" for s1 s2 j
    by (auto simp: print_message_def bindR_Inr_iff)
  have "foldR (print_message i) s1 js = Inr s2 \<Longrightarrow> s2 = s1" for s1 s2 js
    by (induction js arbitrary: s1) (auto simp: bindR_Inr_iff dest: one)
  then show "STSV_TempClientRequestFunc s i = Inr s' \<Longrightarrow> s' = s"
    by (auto simp: STSV_TempClientRequestFunc_def bindR_Inr_iff split: if_splits)
qed

section \<open>The contract of the callbacks\<close>

text \<open>
  What the thread relies on: a callback keeps the same contract as the handlers, so it leaves the
  sockets, the numbers, the rooms and the count of the logins alone, brings no client online and keeps
  the clients well-formed.
\<close>

locale client_callbacks =
  fixes cb :: callbacks
  assumes connect_served: "on_connect cb s i = Inr s' \<Longrightarrow> served s s'"
    and request_served: "on_request cb s i = Inr s' \<Longrightarrow> served s s'"
    and disconnect_served: "on_disconnect cb s i = Inr s' \<Longrightarrow> served s s'"
begin

lemma connect_keeps: "call_connect cb s i = Inr s' \<Longrightarrow> served s s'"
  by (auto simp: call_connect_def run_callback_def STSV_TempClientConnectFunc_def connect_served split: callback.splits)

lemma request_keeps: "call_request cb s i = Inr s' \<Longrightarrow> served s s'"
  by (auto simp: call_request_def run_callback_def request_served dest: TempClientRequest_same split: callback.splits)

lemma disconnect_keeps: "call_disconnect cb s i = Inr s' \<Longrightarrow> served s s'"
  by (auto simp: call_disconnect_def disconnect_served split: if_splits)

lemma serve_keeps: "serve_client cb s i = Inr s' \<Longrightarrow> served s s'"
  by (auto simp: serve_client_def bindR_Inr_iff split: if_splits intro: served_trans
      dest!: served_processMessageBuffer served_StartPack request_keeps served_EndPackSendData)

lemma loop_keeps: "client_loop cb polls s i = Inr s' \<Longrightarrow> served s s'"
proof (induction polls arbitrary: s)
  case Nil
  then show ?case by (auto simp: bindR_Inr_iff split: if_splits)
next
  case (Cons n polls)
  show ?case
  proof (cases "\<exists>c. client_at s i = Inr c \<and> online c")
    case True
    with Cons.prems obtain s1 where s1: "(if 0 < n then serve_client cb s i else go_offline s i) = Inr s1"
      "client_loop cb polls s1 i = Inr s'" by (auto simp: bindR_Inr_iff)
    from s1(1) have "served s s1" by (auto split: if_splits dest: serve_keeps served_offline)
    then show ?thesis using Cons.IH [OF s1(2)] by (rule served_trans)
  next
    case False
    with Cons.prems show ?thesis by (auto simp: bindR_Inr_iff split: if_splits)
  qed
qed

lemma thread_served:
  assumes "thread_start s i = Inr s1" and "client_at s1 i = Inr c1"
    and "(if online c1 then call_connect cb s1 i else Inr s1) = Inr s2" and "client_loop cb polls s2 i = Inr s3"
  shows "served s s3"
proof -
  have "served s1 s2" using assms(3) by (auto split: if_splits dest: connect_keeps)
  with served_thread_start [OF assms(1)] loop_keeps [OF assms(4)] show ?thesis by (blast intro: served_trans)
qed

lemma loop_offline: "client_loop cb polls s i = Inr s' \<Longrightarrow> \<exists>c. client_at s' i = Inr c \<and> \<not> online c"
  by (induction polls arbitrary: s) (auto simp: bindR_Inr_iff split: if_splits)

lemma thread_close_result:
  assumes "thread_close cb s i = Inr s'"
  obtains s1 c where "served s s1" "client_at s1 i = Inr c" "s_Client_t s' = s_Client_t s1"
    "net s' = net (fst (DestroySocket s1 (socket c)))" "s_nCurLoginCount s' = s_nCurLoginCount s1" "cfg s' = cfg s1"
proof -
  from assms obtain s1 c r where s1: "call_disconnect cb s i = Inr s1" "client_at s1 i = Inr c"
    and s': "DestroyClientRoom (fst (DestroySocket s1 (socket c))) i = Inr (r, s')"
    by (auto simp: thread_close_def bindR_Inr_iff)
  have "s_Client_t s' = s_Client_t s1 \<and> net s' = net (fst (DestroySocket s1 (socket c))) \<and>
      s_nCurLoginCount s' = s_nCurLoginCount s1 \<and> cfg s' = cfg s1"
    using s' by (auto simp: DestroyClientRoom_def bindR_Inr_iff put_room_def split: if_splits)
  with that [OF disconnect_keeps [OF s1(1)] s1(2)] show ?thesis by simp
qed

lemma thread_end_result:
  assumes "thread_end cb s i = Inr s'"
  obtains s1 c where "served s s1" "client_at s1 i = Inr c" "s_Client_t s' = s_Client_t s1"
    "net s' = net (fst (DestroySocket s1 (socket c)))" "s_nCurLoginCount s' = s_nCurLoginCount s1 - 1" "cfg s' = cfg s1"
proof -
  from assms obtain s2 where s2: "thread_close cb s i = Inr s2" "s' = s2\<lparr>s_nCurLoginCount := s_nCurLoginCount s2 - 1\<rparr>"
    by (auto simp: thread_end_def bindR_Inr_iff)
  from s2(1) show ?thesis by (cases rule: thread_close_result) (use s2(2) that in simp)
qed

lemma thread_result:
  assumes "STSV_ClientThreadFuncAlway cb polls s i = Inr s'"
  shows "\<exists>c c'. client_at s i = Inr c \<and> client_at s' i = Inr c' \<and> \<not> online c' \<and> socket c' = socket c \<and>
    closed (net s' (socket c)) \<and> s_nCurLoginCount s' = s_nCurLoginCount s - 1 \<and> cfg s' = cfg s"
proof -
  from assms obtain s1 c1 s2 s3 where s1: "thread_start s i = Inr s1" "client_at s1 i = Inr c1"
    and s2: "(if online c1 then call_connect cb s1 i else Inr s1) = Inr s2"
    and s3: "client_loop cb polls s2 i = Inr s3" and e: "thread_end cb s3 i = Inr s'"
    unfolding STSV_ClientThreadFuncAlway_def bindR_Inr_iff by blast
  from loop_offline [OF s3] obtain c3 where c3: "client_at s3 i = Inr c3" "\<not> online c3" by blast
  from e show ?thesis
  proof (cases rule: thread_end_result)
    case (1 s4 c4)
    then have all: "served s s4" using thread_served [OF s1 s2 s3] by (blast intro: served_trans)
    have i: "i < length (s_Client_t s4)" "c4 = s_Client_t s4 ! i" using 1(2) by (simp_all add: client_at_Inr_iff)
    have i0: "i < length (s_Client_t s)" using i served_length [OF all] by simp
    have "\<not> online c4" using served_client [OF 1(1), of i] c3 i by (auto simp: client_at_Inr_iff serves_def)
    moreover have "socket c4 = socket (s_Client_t s ! i)"
      using served_client [OF all i0] i by (simp add: serves_def place_def)
    ultimately show ?thesis
      using i i0 1 served_globals [OF all] by (intro exI [of _ "s_Client_t s ! i"] exI [of _ c4])
        (auto simp: client_at_Inr_iff DestroySocket_net)
  qed
qed

end

section \<open>Without a disconnect callback\<close>

text \<open>
  C36: a server whose program sets no disconnect callback (as \<open>STSV_Init\<close> allows) does not survive its
  first client: the thread never comes to its end, and a client that is silent for the time-out leads
  to a call through the null pointer.
\<close>

theorem no_disconnect_callback:
  assumes "client_callbacks cb" and "processMSGClientDisconnect s = NoCallback"
  shows "(\<forall>s'. STSV_ClientThreadFuncAlway cb polls s i \<noteq> Inr s') \<and>
    (\<forall>c n. client_at s i = Inr c \<and> n \<le> 0 \<and> processMSGClientConnect s = TempCallback \<longrightarrow>
      STSV_ClientThreadFuncAlway cb (n # polls) s i = Inl NullDeref)"
proof (intro conjI allI impI notI)
  fix s' assume "STSV_ClientThreadFuncAlway cb polls s i = Inr s'"
  then obtain s1 c1 s2 s3 where s1: "thread_start s i = Inr s1" "client_at s1 i = Inr c1"
    and s2: "(if online c1 then call_connect cb s1 i else Inr s1) = Inr s2"
    and s3: "client_loop cb polls s2 i = Inr s3" and e: "thread_end cb s3 i = Inr s'"
    unfolding STSV_ClientThreadFuncAlway_def bindR_Inr_iff by blast
  have "served s s3" by (rule client_callbacks.thread_served [OF assms(1) s1 s2 s3])
  then have "processMSGClientDisconnect s3 = NoCallback" using assms(2) by (simp add: served_globals)
  with e show False by (simp add: thread_end_def thread_close_def call_disconnect_def)
next
  fix c and n :: int assume a: "client_at s i = Inr c \<and> n \<le> 0 \<and> processMSGClientConnect s = TempCallback"
  then have i: "i < length (s_Client_t s)" by (simp add: client_at_Inr_iff)
  let ?c = "c\<lparr>thread := True, recieveDone := False, recieveHeader := False, sendingData := False,
    sendDone := False, sendDataSize := 0\<rparr>"
  have st: "thread_start s i = Inr (put_client s i ?c)" using a by (simp add: thread_start_def on_client_def)
  have cb: "processMSGClientConnect (put_client s i c') = TempCallback"
    "processMSGClientDisconnect (put_client s i c') = NoCallback" for c'
    using a assms(2) by (simp_all add: put_client_def)
  show "STSV_ClientThreadFuncAlway cb (n # polls) s i = Inl NullDeref"
  proof (cases "online c")
    case True
    have "client_loop cb (n # polls) (put_client s i ?c) i = Inr (put_client s i (?c\<lparr>online := False\<rparr>))"
      using i True a by (cases polls) (simp_all add: go_offline_def on_client_def)
    then show ?thesis using st i True cb
      by (simp add: STSV_ClientThreadFuncAlway_def call_connect_def run_callback_def STSV_TempClientConnectFunc_def
          thread_end_def thread_close_def call_disconnect_def)
  next
    case False
    then show ?thesis using st i cb
      by (simp add: STSV_ClientThreadFuncAlway_def thread_end_def thread_close_def call_disconnect_def)
  qed
qed

definition idle_callbacks :: callbacks where
  "idle_callbacks = \<lparr>on_connect = \<lambda>s i. Inr s, on_request = \<lambda>s i. Inr s, on_disconnect = \<lambda>s i. Inr s\<rparr>"

interpretation idle: client_callbacks idle_callbacks
  by unfold_locales (auto simp: idle_callbacks_def)

definition wit_thread_server :: "callback \<Rightarrow> server" where
  "wit_thread_server f = (fresh_server [(fresh_client 65536)\<lparr>online := True, roomIdx := -1\<rparr>])\<lparr>
     s_nCurLoginCount := 1, processMSGClientConnect := TempCallback, processMSGClientRequest := TempCallback,
     processMSGClientDisconnect := f\<rparr>"

lemma wit_thread_client:
  "client_at (wit_thread_server f) 0 = Inr ((fresh_client 65536)\<lparr>online := True, roomIdx := -1\<rparr>)"
  by (simp add: wit_thread_server_def fresh_server_def client_at_def get_at_def)

theorem no_disconnect_callback_witness:
  "STSV_ClientThreadFuncAlway idle_callbacks [0] (wit_thread_server NoCallback) 0 = Inl NullDeref"
proof -
  have "processMSGClientDisconnect (wit_thread_server NoCallback) = NoCallback"
    "processMSGClientConnect (wit_thread_server NoCallback) = TempCallback"
    by (simp_all add: wit_thread_server_def)
  with no_disconnect_callback [OF idle.client_callbacks_axioms, of "wit_thread_server NoCallback" "[]" 0]
    wit_thread_client [of NoCallback] show ?thesis by simp
qed

end
