(* ===== verification/Star_Steps.thy ===== *)
theory Star_Steps
  imports Star_Thread Star_Init
begin

text \<open>
  The running server as a state machine: the accepting thread, one thread per client and the program
  that uses the library take turns, one operation of the library at a time. The relation allows every
  order of the operations, so it has more runs than the threads have; what interleaves inside an
  operation is not part of it. The invariant is the shape of the table of clients.
\<close>

section \<open>Steps\<close>

inductive server_step :: "callbacks \<Rightarrow> server \<Rightarrow> server \<Rightarrow> bool" for cb :: callbacks where
  step_accept: "AcceptConnection a s = Inr s' \<Longrightarrow> server_step cb s s'"
| step_knock: "AcceptConnectionUDP u s = Inr s' \<Longrightarrow> server_step cb s s'"
| step_start: "thread_start s i = Inr s' \<Longrightarrow> server_step cb s s'"
| step_connect: "client_at s i = Inr c \<Longrightarrow> online c \<Longrightarrow> call_connect cb s i = Inr s' \<Longrightarrow> server_step cb s s'"
| step_serve: "client_at s i = Inr c \<Longrightarrow> online c \<Longrightarrow> serve_client cb s i = Inr s' \<Longrightarrow> server_step cb s s'"
| step_timeout: "client_at s i = Inr c \<Longrightarrow> online c \<Longrightarrow> go_offline s i = Inr s' \<Longrightarrow> server_step cb s s'"
| step_end: "client_at s i = Inr c \<Longrightarrow> \<not> online c \<Longrightarrow> thread_end cb s i = Inr s' \<Longrightarrow> server_step cb s s'"
| step_send: "unat sz \<le> length buf \<Longrightarrow> on_client s i (\<lambda>c. STSV_SendData c k buf sz) = Inr s' \<Longrightarrow> server_step cb s s'"
| step_file: "STSV_SendDBFile s i name = Inr s' \<Longrightarrow> server_step cb s s'"
| step_refuse: "STSV_SendDuplicateLogin s i no = Inr s' \<Longrightarrow> server_step cb s s'"
| step_full: "STSV_SendServerFULL s i no = Inr s' \<Longrightarrow> server_step cb s s'"
| step_all: "WriteAll s buf = Inr s' \<Longrightarrow> server_step cb s s'"
| step_get: "STSV_GetBigData s i = Inr (p, s') \<Longrightarrow> server_step cb s s'"
| step_free: "STSV_FreeBigData s i = Inr s' \<Longrightarrow> server_step cb s s'"
| step_free_file: "STSV_FreeFileData s i = Inr s' \<Longrightarrow> server_step cb s s'"
| step_create: "STSV_CreateRoom s i = Inr (r, s') \<Longrightarrow> server_step cb s s'"
| step_join: "STSV_JoinFreeRoom s i = Inr (r, s') \<Longrightarrow> server_step cb s s'"
| step_exit: "STSV_ExitRoom s i = Inr (r, s') \<Longrightarrow> server_step cb s s'"
| step_clear: "STSV_ClearRoom s k = Inr (r, s') \<Longrightarrow> server_step cb s s'"

inductive server_run :: "callbacks \<Rightarrow> server \<Rightarrow> server \<Rightarrow> bool" for cb :: callbacks where
  run_start: "server_run cb s s"
| run_step: "server_run cb s s1 \<Longrightarrow> server_step cb s1 s2 \<Longrightarrow> server_run cb s s2"

section \<open>The invariant\<close>

text \<open>
  The table has a slot for every connection of the configuration, every client is well-formed, and a
  client that is online carries the number of its slot, by which the accessors find it.
\<close>

definition wf_slot :: "nat \<Rightarrow> Client_t \<Rightarrow> bool" where
  "wf_slot i c \<longleftrightarrow> wf_client c \<and> (online c \<longrightarrow> idx c = of_nat i)"

definition wf_server :: "server \<Rightarrow> bool" where
  "wf_server s \<longleftrightarrow> wf_hosts s \<and> (\<forall>i < length (s_Client_t s). wf_slot i (s_Client_t s ! i))"

lemma wf_serverD: "wf_server s \<Longrightarrow> client_at s i = Inr c \<Longrightarrow> wf_slot i c"
  by (simp add: wf_server_def client_at_Inr_iff)

lemma wf_server_same:
  "wf_server s \<Longrightarrow> s_Client_t s' = s_Client_t s \<Longrightarrow> s_nMaxConnection (cfg s') = s_nMaxConnection (cfg s) \<Longrightarrow> wf_server s'"
  by (simp add: wf_server_def wf_hosts_def)

lemma wf_server_put:
  assumes "wf_server s" and "wf_slot i c'"
  shows "wf_server (put_client s i c')"
proof -
  have "wf_slot j ((s_Client_t s)[i := c'] ! j)" if "j < length (s_Client_t s)" for j
    using that assms by (cases "j = i") (simp_all add: wf_server_def)
  then show ?thesis using assms(1) by (simp add: wf_server_def wf_hosts_def put_client_def)
qed

lemma wf_server_served:
  assumes "wf_server s" and "served s s'"
  shows "wf_server s'"
  unfolding wf_server_def
proof (intro conjI allI impI)
  show "wf_hosts s'"
    using assms served_length [OF assms(2)] served_globals(1) [OF assms(2)] by (simp add: wf_server_def wf_hosts_def)
  fix i assume "i < length (s_Client_t s')"
  then have i: "i < length (s_Client_t s)" by (simp add: served_length [OF assms(2)])
  then have "wf_slot i (s_Client_t s ! i)" using assms(1) by (simp add: wf_server_def)
  then show "wf_slot i (s_Client_t s' ! i)"
    using served_client [OF assms(2) i] by (auto simp: wf_slot_def serves_def place_def)
qed

lemma wf_server_on_client:
  assumes "wf_server s" and "on_client s i f = Inr s'" and "\<And>c c'. wf_slot i c \<Longrightarrow> f c = Inr c' \<Longrightarrow> wf_slot i c'"
  shows "wf_server s'"
  using assms wf_serverD [OF assms(1)] by (auto simp: on_client_def bindR_Inr_iff intro!: wf_server_put)

section \<open>Every step keeps it\<close>

lemma wf_put_room [simp]: "wf_server (put_room s r x) = wf_server s"
  by (simp add: wf_server_def wf_hosts_def put_room_def)

lemma wf_server_net [simp]:
  "wf_server (s\<lparr>net := n\<rparr>) = wf_server s" "wf_server (fst (DestroySocket s k)) = wf_server s"
  "wf_server (s\<lparr>s_nCurLoginCount := m\<rparr>) = wf_server s" "wf_server (s\<lparr>s_ServerDesc := x\<rparr>) = wf_server s"
  "wf_server (s\<lparr>s_BigDataUse := us\<rparr>) = wf_server s" "wf_server (s\<lparr>s_BigDataBuffer := bs\<rparr>) = wf_server s"
  by (simp_all add: wf_server_def wf_hosts_def)

lemma wf_take_slot:
  "wf_client c \<Longrightarrow> wf_slot i ((take_slot a k i c)\<lparr>NonBlocking := True\<rparr>) \<and>
    wf_slot i ((take_slot a k i c)\<lparr>NonBlocking := True, online := False\<rparr>)"
  by (simp add: wf_slot_def wf_client_def take_slot_def)

lemma wf_accept:
  assumes "wf_server s" and "AcceptConnection a s = Inr s'"
  shows "wf_server s'"
proof -
  have "wf_hosts s" using assms(1) by (simp add: wf_server_def)
  then show ?thesis using assms(2)
  proof (cases rule: AcceptConnection_cases)
    case (1 k)
    then show ?thesis using assms(1) by simp
  next
    case (2 k i n s1)
    then have "wf_client (s_Client_t s ! i)" using assms(1) by (simp add: wf_server_def wf_slot_def)
    with 2 assms(1) show ?thesis by (auto simp: wf_take_slot intro!: wf_server_put)
  qed
qed

lemma wf_offline: "wf_server s \<Longrightarrow> go_offline s i = Inr s' \<Longrightarrow> wf_server s'"
  by (rule wf_server_served [OF _ served_offline])

lemma wf_knock:
  assumes "wf_server s" and "AcceptConnectionUDP u s = Inr s'"
  shows "wf_server s'"
proof -
  have read: "read_knock s b = Inr (d, s1) \<Longrightarrow> wf_server s1" for b d s1
    using assms(1) by (auto simp: read_knock_def Let_def bindR_Inr_iff)
  have put: "wf_server (put_client (fst (DestroySocket s1 l)) (nat k)
      (c\<lparr>addrLen := n, online := True, packRef := 0, socket := m, idx := of_nat (nat k)\<rparr>))"
    if "wf_server s1" "get_at (s_Client_t s1) k = Inr c" for s1 k c l n m
  proof -
    have "wf_slot (nat k) c" using that by (auto simp: get_at_Inr_iff wf_server_def)
    then show ?thesis using that(1) by (intro wf_server_put) (auto simp: wf_slot_def wf_client_def)
  qed
  have "ensures (AcceptConnectionUDP u s) wf_server"
    unfolding AcceptConnectionUDP_def Let_def
    by (intro ensures_rules) (auto simp: bindR_Inr_iff split: if_splits dest!: read intro: wf_offline [OF put] put)
  then show ?thesis using assms(2) by (rule ensuresD)
qed

lemma wf_send:
  assumes "wf_server s" and "unat sz \<le> length buf" and "on_client s i (\<lambda>c. STSV_SendData c k buf sz) = Inr s'"
  shows "wf_server s'"
proof (rule wf_server_on_client [OF assms(1,3)])
  fix c c' assume c: "wf_slot i c" "STSV_SendData c k buf sz = Inr c'"
  then have "\<not> m_Mutex c" by (auto simp: STSV_SendData_def lock_client_def)
  from SendData_queues [OF _ this assms(2), of k] c have "wf_client c'" "send_frame (c\<lparr>curPacketNo := curPacketNo c'\<rparr>) c'"
    by (auto simp: wf_slot_def)
  moreover from this(2) have "online c' = online c \<and> idx c' = idx c"
    unfolding send_frame_def by (elim exE) (erule ssubst, simp)
  ultimately show "wf_slot i c'" using c by (simp add: wf_slot_def)
qed

lemma wf_refuse: "wf_server s \<Longrightarrow> refuse_client s i ty no = Inr s' \<Longrightarrow> wf_server s'"
proof -
  assume wf: "wf_server s" and r: "refuse_client s i ty no = Inr s'"
  have lock: "wf_server s1 \<Longrightarrow> on_client s1 i lock_client = Inr s2 \<Longrightarrow> wf_server s2" for s1 s2
    by (rule wf_server_on_client) (auto simp: lock_client_def wf_slot_def wf_client_def split: if_splits)
  have unlock: "wf_server s1 \<Longrightarrow> on_client s1 i (\<lambda>c. Inr (unlock_client c)) = Inr s2 \<Longrightarrow> wf_server s2" for s1 s2
    by (rule wf_server_on_client) (auto simp: unlock_client_def wf_slot_def wf_client_def)
  from r obtain s1 x s3 where "on_client s i lock_client = Inr s1" "WriteTo_client s1 i (header_message ty no) = Inr x"
    "go_offline (snd x) i = Inr s3" "on_client s3 i (\<lambda>c. Inr (unlock_client c)) = Inr s'"
    by (auto simp: refuse_client_def bindR_Inr_iff split_beta)
  moreover from this(2) have "served s1 (snd x)" using served_WriteTo [of s1 i _ "fst x" "snd x"] by simp
  ultimately show ?thesis using wf lock unlock wf_offline wf_server_served by blast
qed

lemma wf_file: "wf_server s \<Longrightarrow> STSV_SendDBFile s i name = Inr s' \<Longrightarrow> wf_server s'"
proof -
  assume wf: "wf_server s" and f: "STSV_SendDBFile s i name = Inr s'"
  have put: "client_at s i = Inr c \<Longrightarrow> wf_server (put_client s i (c\<lparr>fileSendName := nm, fileDataSending := f\<rparr>))"
    "client_at s i = Inr c \<Longrightarrow> wf_server (put_client s i (c\<lparr>bigDataSendSize := n, bigDataSendSizeDone := 0,
       fileDataSending := f, fileSendName := nm\<rparr>))" for c n nm f
    using wf_serverD [OF wf, of i c] by (auto intro!: wf_server_put [OF wf] simp: wf_slot_def wf_client_def)
  have "ensures (STSV_SendDBFile s i name) wf_server"
    unfolding STSV_SendDBFile_def by (intro ensures_rules) (auto simp: wf put)
  then show ?thesis using f by (rule ensuresD)
qed

lemma wf_all: "wf_server s \<Longrightarrow> WriteAll s buf = Inr s' \<Longrightarrow> wf_server s'"
  unfolding WriteAll_def
  by (rule foldR_invariant) (auto simp: write_client_def bindR_Inr_iff split: if_splits)

lemma wf_big_data: "wf_server s \<Longrightarrow> STSV_GetBigData s i = Inr (p, s') \<Longrightarrow> wf_server s'"
proof -
  assume wf: "wf_server s" and g: "STSV_GetBigData s i = Inr (p, s')"
  have block: "GetBigDataBufferIdx s = Inr (r, s1) \<Longrightarrow> wf_server s1" for r s1
    using wf by (auto simp: GetBigDataBufferIdx_def split: if_splits)
  have put: "client_at s i = Inr c \<Longrightarrow> wf_server s1 \<Longrightarrow> wf_server (put_client s1 i (c\<lparr>bigDataBuffer := b\<rparr>))" for c b s1
    using wf_serverD [OF wf, of i c] by (auto intro!: wf_server_put simp: wf_slot_def wf_client_def)
  have "ensures (STSV_GetBigData s i) (\<lambda>(p, s'). wf_server s')"
    unfolding STSV_GetBigData_def Let_def by (intro ensures_rules) (auto simp: wf dest!: block intro: put)
  then show ?thesis using g by (auto dest: ensuresD)
qed

lemma wf_free_data: "wf_server s \<Longrightarrow> STSV_FreeBigData s i = Inr s' \<Longrightarrow> wf_server s'"
proof -
  assume wf: "wf_server s" and g: "STSV_FreeBigData s i = Inr s'"
  have free: "FreeBigDataBuffer s k = Inr s1 \<Longrightarrow> wf_server s1" for k s1
    using wf by (auto simp: FreeBigDataBuffer_def bindR_Inr_iff split: if_splits)
  have put: "client_at s i = Inr c \<Longrightarrow> wf_server s1 \<Longrightarrow>
      wf_server (put_client s1 i (c\<lparr>bigDataBuffer := b, bigDataReady := r\<rparr>))" for c b r s1
    using wf_serverD [OF wf, of i c] by (auto intro!: wf_server_put simp: wf_slot_def wf_client_def)
  show ?thesis
    using g by (auto simp: STSV_FreeBigData_def bindR_Inr_iff split: option.splits if_splits dest: free intro: put wf)
qed

lemma wf_room_ops:
  "wf_server s \<Longrightarrow> STSV_CreateRoom s i = Inr (r, s') \<Longrightarrow> wf_server s'"
  "wf_server s \<Longrightarrow> STSV_JoinFreeRoom s i = Inr (r, s') \<Longrightarrow> wf_server s'"
  "wf_server s \<Longrightarrow> DestroyClientRoom s i = Inr (r, s') \<Longrightarrow> wf_server s'"
  "wf_server s \<Longrightarrow> STSV_ClearRoom s k = Inr (r, s') \<Longrightarrow> wf_server s'"
proof -
  assume wf: "wf_server s"
  have put: "client_at s i = Inr c \<Longrightarrow> wf_server (put_client (put_room s k x) i (c\<lparr>roomIdx := m\<rparr>))" for c k x m
    using wf_serverD [OF wf, of i c] wf by (auto intro!: wf_server_put simp: wf_slot_def wf_client_def)
  have count: "s_nMaxConnection k = s_nMaxConnection (cfg s1) \<Longrightarrow> wf_server (s1\<lparr>cfg := k\<rparr>) = wf_server s1"
    for s1 and k :: config by (simp add: wf_server_def wf_hosts_def)
  have "ensures (STSV_CreateRoom s i) (\<lambda>(r, s'). wf_server s')"
    unfolding STSV_CreateRoom_def Let_def by (intro ensures_rules) (simp_all add: wf put count)
  then show "STSV_CreateRoom s i = Inr (r, s') \<Longrightarrow> wf_server s'" by (auto dest: ensuresD)
  show "STSV_JoinFreeRoom s i = Inr (r, s') \<Longrightarrow> wf_server s'" "STSV_ClearRoom s k = Inr (r, s') \<Longrightarrow> wf_server s'"
    "DestroyClientRoom s i = Inr (r, s') \<Longrightarrow> wf_server s'"
    using wf by (auto simp: STSV_JoinFreeRoom_def STSV_ClearRoom_def DestroyClientRoom_def bindR_Inr_iff split: if_splits)
qed

lemma wf_exit: "wf_server s \<Longrightarrow> STSV_ExitRoom s i = Inr (r, s') \<Longrightarrow> wf_server s'"
  by (auto simp: STSV_ExitRoom_def bindR_Inr_iff split: if_splits intro: wf_room_ops(3))

lemmas wf_ops = wf_accept wf_knock wf_offline wf_send wf_refuse wf_file wf_all wf_big_data wf_free_data
  wf_room_ops wf_exit

context client_callbacks
begin

lemma wf_thread_end:
  assumes "wf_server s" and "thread_end cb s i = Inr s'"
  shows "wf_server s'"
  using assms(2)
proof (cases rule: thread_end_result)
  case (1 s1 c)
  from wf_server_served [OF assms(1) 1(1)] 1 show ?thesis by (auto intro: wf_server_same)
qed

lemma step_wf: "server_step cb s s' \<Longrightarrow> wf_server s \<Longrightarrow> wf_server s'"
proof (induction rule: server_step.induct)
  case (step_free_file s i s')
  then show ?case unfolding STSV_FreeFileData_def
    by (elim wf_server_on_client) (auto simp: wf_slot_def wf_client_def)
qed (auto intro: wf_ops wf_thread_end wf_server_served served_thread_start connect_keeps serve_keeps
    simp: STSV_SendDuplicateLogin_def STSV_SendServerFULL_def)

lemma run_wf: "server_run cb s s' \<Longrightarrow> wf_server s \<Longrightarrow> wf_server s'"
  by (induction rule: server_run.induct) (auto intro: step_wf)

end

section \<open>From the start on\<close>

lemma started_wf:
  assumes "STSV_Init my env s d = Inr (0, s', d')" and "sane_env env (cfg s')"
    and "s_nProtocol (cfg s') \<in> {STSV_TCP_PROTOCOL, STSV_UDP_PROTOCOL}"
    and "length (s_BigDataUse s) = STSV_BIGDATA_POOL_BLOCK"
  shows "wf_server s'"
  using Init_ready [OF assms] by (auto simp: wf_server_def wf_slot_def started_client_def)

text \<open>
  C14: after a good start, whatever the accepting thread, the threads of the clients and the program do
  in whatever order, the table of clients keeps its shape: a slot for every configured connection, every
  buffer and array at its size, the blocks of every send queue in their places with at most 62 queued,
  and every client that is online found under its own number, up to the 65536 slots a number can tell apart.
\<close>

theorem running_server_wellformed:
  assumes "STSV_Init my env s0 d0 = Inr (0, s1, d1)" and "sane_env env (cfg s1)"
    and "s_nProtocol (cfg s1) \<in> {STSV_TCP_PROTOCOL, STSV_UDP_PROTOCOL}"
    and "length (s_BigDataUse s0) = STSV_BIGDATA_POOL_BLOCK"
    and "client_callbacks cb" and "server_run cb s1 s2"
  shows "wf_server s2 \<and> (s_nMaxConnection (cfg s2) \<le> 65536 \<longrightarrow>
    (\<forall>i c. client_at s2 i = Inr c \<longrightarrow> online c \<longrightarrow> client_at s2 (unat (idx c)) = Inr c))"
proof (intro conjI impI allI)
  show wf: "wf_server s2" by (rule client_callbacks.run_wf [OF assms(5,6) started_wf [OF assms(1-4)]])
  fix i c assume n: "s_nMaxConnection (cfg s2) \<le> 65536" and c: "client_at s2 i = Inr c" "online c"
  have "int (length (s_Client_t s2)) \<le> 65536" using wf n by (simp add: wf_server_def wf_hosts_def)
  then have i: "i < 65536" using c(1) by (simp add: client_at_Inr_iff)
  have "idx c = of_nat i" using wf_serverD [OF wf c(1)] c(2) by (simp add: wf_slot_def)
  then have "unat (idx c) = i" using i by (simp add: unat_of_nat take_bit_nat_eq_self)
  then show "client_at s2 (unat (idx c)) = Inr c" using c(1) by simp
qed

theorem running_server_wellformed_witness:
  "\<exists>s1 d1 s2. STSV_Init wit_api wit_env (fresh_server []) wit_db = Inr (0, s1, d1) \<and>
     AcceptConnection wit_accept s1 = Inr s2 \<and> wf_server s2"
proof (rule wit_started)
  fix s1 d1 assume init: "STSV_Init wit_api wit_env (fresh_server []) wit_db = Inr (0, s1, d1)"
    and env: "sane_env wit_env (cfg s1)" "s_nProtocol (cfg s1) \<in> {STSV_TCP_PROTOCOL, STSV_UDP_PROTOCOL}"
      "length (s_BigDataUse (fresh_server [])) = STSV_BIGDATA_POOL_BLOCK"
    and tcp: "s_nProtocol (cfg s1) = STSV_TCP_PROTOCOL"
  have "wf_hosts s1" using started_wf [OF init env] by (simp add: wf_server_def)
  from AcceptConnection_returns [OF this wit_accept_facts(6) tcp wit_accept_facts(8,9)]
  obtain s2 where s2: "AcceptConnection wit_accept s1 = Inr s2" by blast
  have "server_run idle_callbacks s1 s2" by (rule run_step [OF run_start step_accept [OF s2]])
  from running_server_wellformed [OF init env idle.client_callbacks_axioms this] init s2
  show ?thesis by blast
qed

end
