(* ===== verification/Star_Logins.thy ===== *)
theory Star_Logins
  imports Star_Steps "HOL-Library.Multiset"
begin

text \<open>
  The accepting thread and the threads of the clients, with the updates of \<open>s_nCurLoginCount\<close> as the code has
  them: \<open>++\<close> and \<open>--\<close> on a volatile are a load and a store, no lock is held, and other threads can come in
  between. The threads that serve clients are a multiset of slots, since a slot can be given away while the thread
  of the client before is at its end. What \<open>AcceptConnection\<close> does before and after \<open>pthread_create\<close>, one round of a
  client's thread and what it closes at its end are one step each; none of them touches the count.
\<close>

section \<open>The steps of the threads\<close>

text \<open>
  Where the accepting thread is: before \<open>accept\<close>, with a slot taken and no thread yet, with the thread created and
  not counted, or with the count loaded and the store still to come.
\<close>

datatype accept_at = Accepting | Taken nat | Uncounted | Counting u32

text \<open>
  \<open>serving\<close>: the slots of the client threads from \<open>pthread_create\<close> until their socket and room are given up;
  \<open>closing\<close>: the threads that have still to load the count, \<open>lowering\<close>: what those have loaded that have still to
  store. \<open>stores\<close> is no part of the program: the value each store of the count was computed from, and the one it
  found and overwrote.
\<close>

record host =
  host_server :: server
  host_accept :: accept_at
  serving :: "nat multiset"
  closing :: nat
  lowering :: "u32 multiset"
  stores :: "(u32 \<times> u32) list"

definition started_host :: "server \<Rightarrow> host" where
  "started_host s = \<lparr>host_server = s, host_accept = Accepting, serving = {#}, closing = 0, lowering = {#}, stores = []\<rparr>"

definition store_count :: "host \<Rightarrow> u32 \<Rightarrow> u32 \<Rightarrow> host" where
  "store_count h v w = h\<lparr>host_server := (host_server h)\<lparr>s_nCurLoginCount := w\<rparr>,
     stores := (v, s_nCurLoginCount (host_server h)) # stores h\<rparr>"

inductive host_step :: "callbacks \<Rightarrow> host \<Rightarrow> host \<Rightarrow> bool" for cb :: callbacks where
  host_take: "host_accept h = Accepting \<Longrightarrow> accept_client a (host_server h) = Inr (Some i, s') \<Longrightarrow>
     host_step cb h (h\<lparr>host_server := s', host_accept := Taken i\<rparr>)"
| host_full: "host_accept h = Accepting \<Longrightarrow> accept_client a (host_server h) = Inr (None, s') \<Longrightarrow>
     host_step cb h (h\<lparr>host_server := s'\<rparr>)"
| host_no_thread: "host_accept h = Taken i \<Longrightarrow> give_up_slot (host_server h) i = Inr s' \<Longrightarrow>
     host_step cb h (h\<lparr>host_server := s', host_accept := Accepting\<rparr>)"
| host_create: "host_accept h = Taken i \<Longrightarrow>
     host_step cb h (h\<lparr>host_accept := Uncounted, serving := add_mset i (serving h)\<rparr>)"
| host_load_inc: "host_accept h = Uncounted \<Longrightarrow>
     host_step cb h (h\<lparr>host_accept := Counting (s_nCurLoginCount (host_server h))\<rparr>)"
| host_store_inc: "host_accept h = Counting v \<Longrightarrow>
     host_step cb h ((store_count h v (v + 1))\<lparr>host_accept := Accepting\<rparr>)"
| host_begin: "i \<in># serving h \<Longrightarrow> thread_start (host_server h) i = Inr s1 \<Longrightarrow> client_at s1 i = Inr c \<Longrightarrow>
     (if online c then call_connect cb s1 i else Inr s1) = Inr s' \<Longrightarrow> host_step cb h (h\<lparr>host_server := s'\<rparr>)"
| host_serve: "i \<in># serving h \<Longrightarrow> client_at (host_server h) i = Inr c \<Longrightarrow> online c \<Longrightarrow>
     serve_client cb (host_server h) i = Inr s' \<Longrightarrow> host_step cb h (h\<lparr>host_server := s'\<rparr>)"
| host_timeout: "i \<in># serving h \<Longrightarrow> client_at (host_server h) i = Inr c \<Longrightarrow> online c \<Longrightarrow>
     go_offline (host_server h) i = Inr s' \<Longrightarrow> host_step cb h (h\<lparr>host_server := s'\<rparr>)"
| host_close: "i \<in># serving h \<Longrightarrow> client_at (host_server h) i = Inr c \<Longrightarrow> \<not> online c \<Longrightarrow>
     thread_close cb (host_server h) i = Inr s' \<Longrightarrow>
     host_step cb h (h\<lparr>host_server := s', serving := serving h - {#i#}, closing := closing h + 1\<rparr>)"
| host_load_dec: "closing h = Suc n \<Longrightarrow>
     host_step cb h (h\<lparr>closing := n, lowering := add_mset (s_nCurLoginCount (host_server h)) (lowering h)\<rparr>)"
| host_store_dec: "v \<in># lowering h \<Longrightarrow>
     host_step cb h ((store_count h v (v - 1))\<lparr>lowering := lowering h - {#v#}\<rparr>)"

text \<open>When no other thread comes in between, the steps are \<open>AcceptConnection\<close> and the end of the thread.\<close>

lemma host_accepts:
  assumes "host_accept h = Accepting" and "accept_client a (host_server h) = Inr (Some i, s1)" and "ac_thread a = 0"
  shows "\<exists>h' s'. AcceptConnection a (host_server h) = Inr s' \<and> (host_step cb)\<^sup>*\<^sup>* h h' \<and>
    h' = h\<lparr>host_server := s', serving := add_mset i (serving h),
      stores := (s_nCurLoginCount s1, s_nCurLoginCount s1) # stores h\<rparr>"
proof -
  let ?h1 = "h\<lparr>host_server := s1, host_accept := Taken i\<rparr>"
  let ?h2 = "?h1\<lparr>host_accept := Uncounted, serving := add_mset i (serving ?h1)\<rparr>"
  let ?v = "s_nCurLoginCount s1"
  let ?h3 = "?h2\<lparr>host_accept := Counting ?v\<rparr>"
  have "host_step cb h ?h1" using assms(1,2) by (rule host_take)
  moreover have "host_step cb ?h1 ?h2" by (rule host_create) simp
  moreover have "host_step cb ?h2 ?h3" using host_load_inc [of ?h2 cb] by simp
  moreover have "host_step cb ?h3 ((store_count ?h3 ?v (?v + 1))\<lparr>host_accept := Accepting\<rparr>)" by (rule host_store_inc) simp
  ultimately have "(host_step cb)\<^sup>*\<^sup>* h ((store_count ?h3 ?v (?v + 1))\<lparr>host_accept := Accepting\<rparr>)"
    by (meson converse_rtranclp_into_rtranclp r_into_rtranclp)
  with assms show ?thesis by (cases h) (simp add: AcceptConnection_def store_count_def)
qed

lemma host_ends:
  assumes "i \<in># serving h" and "client_at (host_server h) i = Inr c" and "\<not> online c"
    and "thread_end cb (host_server h) i = Inr s'"
  shows "\<exists>v. (host_step cb)\<^sup>*\<^sup>* h (h\<lparr>host_server := s', serving := serving h - {#i#}, stores := (v, v) # stores h\<rparr>)"
proof -
  from assms(4) obtain s1 where s1: "thread_close cb (host_server h) i = Inr s1"
    and s': "s' = s1\<lparr>s_nCurLoginCount := s_nCurLoginCount s1 - 1\<rparr>"
    by (auto simp: thread_end_def bindR_Inr_iff)
  let ?v = "s_nCurLoginCount s1"
  let ?h1 = "h\<lparr>host_server := s1, serving := serving h - {#i#}, closing := closing h + 1\<rparr>"
  let ?h2 = "?h1\<lparr>closing := closing h, lowering := add_mset ?v (lowering h)\<rparr>"
  have "host_step cb h ?h1" using assms(1-3) s1 by (rule host_close)
  moreover have "host_step cb ?h1 ?h2" using host_load_dec [of ?h1 "closing h" cb] by simp
  moreover have "host_step cb ?h2 ((store_count ?h2 ?v (?v - 1))\<lparr>lowering := lowering ?h2 - {#?v#}\<rparr>)"
    by (rule host_store_dec) simp
  ultimately have "(host_step cb)\<^sup>*\<^sup>* h ((store_count ?h2 ?v (?v - 1))\<lparr>lowering := lowering ?h2 - {#?v#}\<rparr>)"
    by (meson converse_rtranclp_into_rtranclp r_into_rtranclp)
  then show ?thesis by (intro exI [of _ ?v]) (cases h, simp add: store_count_def s')
qed

section \<open>What the count says\<close>

definition threads :: "host \<Rightarrow> nat" where
  "threads h = size (serving h) + closing h + size (lowering h)"

definition uncounted :: "host \<Rightarrow> nat" where
  "uncounted h = (case host_accept h of Uncounted \<Rightarrow> 1 | Counting _ \<Rightarrow> 1 | _ \<Rightarrow> 0)"

text \<open>What the stores have lost or gained by overwriting the store of another thread.\<close>

definition drift :: "host \<Rightarrow> u32" where
  "drift h = (\<Sum>(v, w) \<leftarrow> stores h. v - w)"

definition counted :: "host \<Rightarrow> bool" where
  "counted h \<longleftrightarrow> s_nCurLoginCount (host_server h) + of_nat (uncounted h) = of_nat (threads h) + drift h"

text \<open>A slot that is online is served, or the accepting thread has just taken it.\<close>

definition has_threads :: "host \<Rightarrow> bool" where
  "has_threads h \<longleftrightarrow> (\<forall>i < length (s_Client_t (host_server h)). online (s_Client_t (host_server h) ! i) \<longrightarrow>
     i \<in># serving h \<or> host_accept h = Taken i)"

lemma drift_exact: "\<forall>(v, w) \<in> set (stores h). v = w \<Longrightarrow> drift h = 0"
proof -
  have "\<forall>(v, w) \<in> set ss. v = w \<Longrightarrow> (\<Sum>(v, w) \<leftarrow> ss. v - w) = 0" for ss :: "(u32 \<times> u32) list"
    by (induction ss) auto
  then show "\<forall>(v, w) \<in> set (stores h). v = w \<Longrightarrow> drift h = 0" by (simp add: drift_def)
qed

lemma has_threads_served:
  assumes "has_threads h" and "served (host_server h) s'" and "serving h' = serving h" and "host_server h' = s'"
    and "host_accept h' = host_accept h"
  shows "has_threads h'"
  using assms(1) served_length [OF assms(2)] served_client [OF assms(2)]
  by (auto simp: has_threads_def serves_def assms(3-5))

lemma counted_same:
  assumes "counted h" and "s_nCurLoginCount (host_server h') = s_nCurLoginCount (host_server h)"
    and "uncounted h' = uncounted h" and "threads h' = threads h" and "stores h' = stores h"
  shows "counted h'"
  using assms by (simp add: counted_def drift_def)

lemma accept_client_keeps:
  assumes "wf_server s" and "accept_client a s = Inr (slot, s')"
  shows "wf_server s' \<and> s_nCurLoginCount s' = s_nCurLoginCount s \<and> length (s_Client_t s') = length (s_Client_t s) \<and>
    (\<forall>j < length (s_Client_t s). slot \<noteq> Some j \<longrightarrow> online (s_Client_t s' ! j) = online (s_Client_t s ! j))"
proof -
  have "wf_hosts s" using assms(1) by (simp add: wf_server_def)
  then show ?thesis using assms(2)
  proof (cases rule: accept_client_cases)
    case (1 k)
    then show ?thesis using assms(1) by simp
  next
    case (2 k i n)
    then have "wf_client (s_Client_t s ! i)" using assms(1) by (simp add: wf_server_def wf_slot_def)
    then have "wf_server s'" using assms(1) by (auto simp: 2(5) wf_take_slot intro!: wf_server_put)
    then show ?thesis using 2 by (auto simp: put_client_def nth_list_update)
  qed
qed

lemma give_up_offline: "give_up_slot s i = Inr s' \<Longrightarrow> \<not> online (s_Client_t s' ! i)"
  by (auto simp: give_up_slot_def go_offline_def on_client_def bindR_Inr_iff client_at_Inr_iff put_client_def)

lemma served_give_up: "give_up_slot s i = Inr s' \<Longrightarrow> served s s'"
  by (auto simp: give_up_slot_def bindR_Inr_iff DestroySocket_def dest: served_offline)

lemma in_remove1_mset: "j \<in># T \<Longrightarrow> j \<noteq> i \<Longrightarrow> j \<in># T - {#i#}"
  by (simp add: in_diff_count flip: count_greater_zero_iff)

lemma size_remove1_mset: "i \<in># T \<Longrightarrow> size T = Suc (size (T - {#i#}))"
  by (metis insert_DiffM size_add_mset)

lemma online_bound:
  assumes "has_threads h" and "host_accept h = Accepting"
  shows "card {i. i < length (s_Client_t (host_server h)) \<and> online (s_Client_t (host_server h) ! i)} \<le> size (serving h)"
proof -
  have "card {i. i < length (s_Client_t (host_server h)) \<and> online (s_Client_t (host_server h) ! i)} \<le> card (set_mset (serving h))"
    using assms by (intro card_mono) (auto simp: has_threads_def)
  also have "card (set_mset T) \<le> size T" for T :: "nat multiset"
    by (induction T) (auto intro: order_trans [OF card_insert_le_m1] simp: card_insert_if)
  finally show ?thesis .
qed

context client_callbacks
begin

lemma thread_close_keeps:
  assumes "thread_close cb s i = Inr s'" and "wf_server s"
  shows "wf_server s' \<and> s_nCurLoginCount s' = s_nCurLoginCount s \<and> length (s_Client_t s') = length (s_Client_t s) \<and>
    (\<forall>j < length (s_Client_t s). online (s_Client_t s' ! j) \<longrightarrow> online (s_Client_t s ! j))"
  using assms(1)
proof (cases rule: thread_close_result)
  case (1 s1 c)
  have "wf_server s'" using wf_server_served [OF assms(2) 1(1)] 1 by (auto intro: wf_server_same)
  then show ?thesis
    using 1 served_length [OF 1(1)] served_client [OF 1(1)] served_globals(2) [OF 1(1)] by (auto simp: serves_def)
qed

lemma round_served:
  assumes "(if online c then call_connect cb s1 i else Inr s1) = Inr s'" and "thread_start s i = Inr s1"
  shows "served s s'"
proof -
  have "served s1 s'" using assms(1) by (auto split: if_splits dest: connect_keeps)
  with served_thread_start [OF assms(2)] show ?thesis by (rule served_trans)
qed

lemmas host_served = served_give_up round_served serve_keeps served_offline

lemma host_step_wf: "host_step cb h h' \<Longrightarrow> wf_server (host_server h) \<Longrightarrow> wf_server (host_server h')"
  by (induction rule: host_step.induct)
    (auto simp: store_count_def dest: accept_client_keeps thread_close_keeps intro: wf_server_served host_served)

lemma host_step_threads:
  assumes "host_step cb h h'" and "wf_server (host_server h)" and "has_threads h"
  shows "has_threads h'"
  using assms
proof (induction rule: host_step.induct)
  case (host_take h a i s')
  from accept_client_keeps [OF host_take.prems(1) host_take.hyps(2)] host_take.hyps(1) host_take.prems(2) show ?case
    by (auto simp: has_threads_def)
next
  case (host_full h a s')
  from accept_client_keeps [OF host_full.prems(1) host_full.hyps(2)] host_full.hyps(1) host_full.prems(2) show ?case
    by (auto simp: has_threads_def)
next
  case (host_no_thread h i s')
  have same: "served (host_server h) s'" by (rule served_give_up [OF host_no_thread.hyps(2)])
  show ?case
    using served_length [OF same] served_client [OF same] give_up_offline [OF host_no_thread.hyps(2)]
      host_no_thread.hyps(1) host_no_thread.prems(2)
    by (fastforce simp: has_threads_def serves_def)
next
  case (host_close i h c s')
  from thread_close_keeps [OF host_close.hyps(4) host_close.prems(1)] host_close.hyps host_close.prems(2) show ?case
    by (auto simp: has_threads_def client_at_Inr_iff intro!: in_remove1_mset)
next
  case (host_begin i h s1 c s')
  from has_threads_served [OF host_begin.prems(2) round_served [OF host_begin.hyps(4,2)]] show ?case by simp
next
  case (host_serve i h c s')
  from has_threads_served [OF host_serve.prems(2) serve_keeps [OF host_serve.hyps(4)]] show ?case by simp
next
  case (host_timeout i h c s')
  from has_threads_served [OF host_timeout.prems(2) served_offline [OF host_timeout.hyps(4)]] show ?case by simp
qed (auto simp: has_threads_def store_count_def)

lemma host_step_counted:
  assumes "host_step cb h h'" and "wf_server (host_server h)" and "counted h"
  shows "counted h'"
  using assms
proof (induction rule: host_step.induct)
  case (host_take h a i s')
  from accept_client_keeps [OF host_take.prems(1) host_take.hyps(2)] host_take show ?case
    by (auto intro: counted_same simp: uncounted_def threads_def)
next
  case (host_full h a s')
  from accept_client_keeps [OF host_full.prems(1) host_full.hyps(2)] host_full show ?case
    by (auto intro: counted_same simp: uncounted_def threads_def)
next
  case (host_close i h c s')
  from thread_close_keeps [OF host_close.hyps(4) host_close.prems(1)] size_remove1_mset [OF host_close.hyps(1)] host_close.prems(2)
  show ?case by (auto intro: counted_same simp: uncounted_def threads_def)
next
  case (host_store_dec v h)
  from size_remove1_mset [OF host_store_dec.hyps(1)] host_store_dec.prems(2) show ?case
    by (simp add: counted_def store_count_def uncounted_def threads_def drift_def algebra_simps)
qed (auto simp: counted_def store_count_def uncounted_def threads_def drift_def algebra_simps
    dest: host_served [THEN served_globals(2)])

lemma host_run_inv:
  assumes "(host_step cb)\<^sup>*\<^sup>* h h'" and "wf_server (host_server h)" and "has_threads h" and "counted h"
  shows "has_threads h' \<and> counted h'"
proof -
  from assms(1) have "wf_server (host_server h') \<and> has_threads h' \<and> counted h'"
    by (induction rule: rtranclp_induct) (use assms(2-4) host_step_wf host_step_threads host_step_counted in blast)+
  then show ?thesis by simp
qed

end

text \<open>
  C16: after a good start of a TCP server, in every order of accepting and serving, down to the loads and stores of
  the count: \<open>s_nCurLoginCount\<close>, with the thread that is created and not counted yet, is the number of the client
  threads, off by what stores have overwritten of each other. So it is exact as long as every store finds the value it
  was computed from; C35 shows what happens otherwise. A client that is online has a thread that serves it, or
  its thread is about to be created, so between two clients never more are online than threads serve.
\<close>

theorem login_count_is_threads:
  assumes "STSV_Init my env s0 d0 = Inr (0, s1, d1)" and "sane_env env (cfg s1)"
    and "s_nProtocol (cfg s1) = STSV_TCP_PROTOCOL" and "length (s_BigDataUse s0) = STSV_BIGDATA_POOL_BLOCK"
    and "client_callbacks cb" and "(host_step cb)\<^sup>*\<^sup>* (started_host s1) h"
  shows "s_nCurLoginCount (host_server h) + of_nat (uncounted h) = of_nat (threads h) + drift h \<and>
    ((\<forall>(v, w) \<in> set (stores h). v = w) \<longrightarrow>
      s_nCurLoginCount (host_server h) + of_nat (uncounted h) = of_nat (threads h)) \<and>
    (\<forall>i c. client_at (host_server h) i = Inr c \<longrightarrow> online c \<longrightarrow> i \<in># serving h \<or> host_accept h = Taken i) \<and>
    (host_accept h = Accepting \<longrightarrow>
      card {i. i < length (s_Client_t (host_server h)) \<and> online (s_Client_t (host_server h) ! i)} \<le> size (serving h))"
proof -
  have tcp: "s_nProtocol (cfg s1) \<in> {STSV_TCP_PROTOCOL, STSV_UDP_PROTOCOL}" using assms(3) by simp
  note start = Init_ready [OF assms(1,2) tcp assms(4)] started_wf [OF assms(1,2) tcp assms(4)]
  have "has_threads (started_host s1)" "counted (started_host s1)"
    using start(1) by (auto simp: has_threads_def counted_def started_host_def uncounted_def threads_def drift_def)
  moreover have "wf_server (host_server (started_host s1))" using start(2) by (simp add: started_host_def)
  ultimately have inv: "has_threads h" "counted h"
    using client_callbacks.host_run_inv [OF assms(5,6)] by blast+
  show ?thesis
    using inv drift_exact [of h] online_bound [OF inv(1)]
    by (auto simp: counted_def has_threads_def client_at_Inr_iff)
qed

theorem login_count_is_threads_witness:
  "\<exists>s1 d1 s2 h. STSV_Init wit_api wit_env (fresh_server []) wit_db = Inr (0, s1, d1) \<and>
     AcceptConnection wit_accept s1 = Inr s2 \<and> (host_step idle_callbacks)\<^sup>*\<^sup>* (started_host s1) h \<and>
     host_server h = s2 \<and> size (serving h) = 1 \<and> s_nCurLoginCount s2 = 1"
proof (rule wit_started)
  fix s1 d1 assume init: "STSV_Init wit_api wit_env (fresh_server []) wit_db = Inr (0, s1, d1)"
    and env: "sane_env wit_env (cfg s1)" "s_nProtocol (cfg s1) \<in> {STSV_TCP_PROTOCOL, STSV_UDP_PROTOCOL}"
      "length (s_BigDataUse (fresh_server [])) = STSV_BIGDATA_POOL_BLOCK"
    and tcp: "s_nProtocol (cfg s1) = STSV_TCP_PROTOCOL" and n: "s_nMaxConnection (cfg s1) = 50"
  from Init_ready [OF init env] n
  have hosts: "wf_hosts s1" "0 < length (s_Client_t s1)" "\<not> online (s_Client_t s1 ! 0)"
    by (auto simp: wf_hosts_def)
  from AcceptConnection_returns [OF hosts(1) wit_accept_facts(6) tcp wit_accept_facts(8,9)]
  obtain s2 slot s3 where s2: "AcceptConnection wit_accept s1 = Inr s2" and s3: "accept_client wit_accept s1 = Inr (slot, s3)"
    by (auto simp: AcceptConnection_def bindR_Inr_iff)
  from hosts(1) s3 obtain i where "slot = Some i"
    using hosts(2,3) by (cases rule: accept_client_cases) auto
  with s3 have "accept_client wit_accept (host_server (started_host s1)) = Inr (Some i, s3)"
    by (simp add: started_host_def)
  from host_accepts [OF _ this wit_accept_facts(7), of idle_callbacks] s2
  have run: "(host_step idle_callbacks)\<^sup>*\<^sup>* (started_host s1) \<lparr>host_server = s2, host_accept = Accepting, serving = {#i#},
      closing = 0, lowering = {#}, stores = [(s_nCurLoginCount s3, s_nCurLoginCount s3)]\<rparr>"
    by (simp add: started_host_def)
  from login_count_is_threads [OF init env(1) tcp env(3) idle.client_callbacks_axioms run]
  have "s_nCurLoginCount s2 = 1" by (simp add: threads_def uncounted_def drift_def)
  moreover have "\<exists>h. (host_step idle_callbacks)\<^sup>*\<^sup>* (started_host s1) h \<and> host_server h = s2 \<and> size (serving h) = 1"
    by (intro exI conjI, rule run) simp_all
  ultimately show ?thesis using init s2 by blast
qed

end
