(* ===== verification/Star_Race.thy ===== *)
theory Star_Race
  imports Star_Steps
begin

text \<open>
  \<open>s_nCurLoginCount\<close> is raised by the thread that accepts, after \<open>pthread_create\<close>, and lowered by each client's
  thread in its last statement. Neither holds a lock, and \<open>++\<close> and \<open>--\<close> on a volatile are a load and a store: two
  steps each, so threads can come in between. Star_Logins says of every order by how much the count is off; here the
  rest of the server is left out and the executions that lose an update are followed, to what they do to the server.
\<close>

text \<open>\<open>logins\<close> is no part of the program: the number of clients accepted so far.\<close>

datatype accept_pc = Listening | Created | Raising u32
datatype client_pc = Away | Serving | Lowering u32

record login_threads =
  acceptor :: accept_pc
  clients :: "nat \<Rightarrow> client_pc"
  login_count :: u32
  logins :: nat

definition client_goto :: "login_threads \<Rightarrow> nat \<Rightarrow> client_pc \<Rightarrow> login_threads" where
  "client_goto p t c = p\<lparr>clients := (clients p)(t := c)\<rparr>"

inductive login_step :: "login_threads \<Rightarrow> login_threads \<Rightarrow> bool" where
  login_create: "acceptor p = Listening \<Longrightarrow> clients p t = Away \<Longrightarrow>
     login_step p (client_goto (p\<lparr>acceptor := Created, logins := Suc (logins p)\<rparr>) t Serving)"
| login_read_inc: "acceptor p = Created \<Longrightarrow> login_step p (p\<lparr>acceptor := Raising (login_count p)\<rparr>)"
| login_write_inc: "acceptor p = Raising v \<Longrightarrow> login_step p (p\<lparr>acceptor := Listening, login_count := v + 1\<rparr>)"
| login_read_dec: "clients p t = Serving \<Longrightarrow> login_step p (client_goto p t (Lowering (login_count p)))"
| login_write_dec: "clients p t = Lowering v \<Longrightarrow> login_step p (client_goto (p\<lparr>login_count := v - 1\<rparr>) t Away)"

definition no_logins :: login_threads where
  "no_logins = \<lparr>acceptor = Listening, clients = (\<lambda>_. Away), login_count = 0, logins = 0\<rparr>"

text \<open>The thread that moves, and what it does next; the number of the thread that is created is given.\<close>

datatype login_turn = Acceptor nat | Client nat

definition login_move :: "login_turn \<Rightarrow> login_threads \<Rightarrow> login_threads" where
  "login_move turn p = (case turn of
     Acceptor t \<Rightarrow> (case acceptor p of
         Listening \<Rightarrow> (if clients p t = Away then client_goto (p\<lparr>acceptor := Created, logins := Suc (logins p)\<rparr>) t Serving else p)
       | Created \<Rightarrow> p\<lparr>acceptor := Raising (login_count p)\<rparr>
       | Raising v \<Rightarrow> p\<lparr>acceptor := Listening, login_count := v + 1\<rparr>)
   | Client t \<Rightarrow> (case clients p t of
         Away \<Rightarrow> p
       | Serving \<Rightarrow> client_goto p t (Lowering (login_count p))
       | Lowering v \<Rightarrow> client_goto (p\<lparr>login_count := v - 1\<rparr>) t Away))"

lemma login_move_step: "login_move turn p = p \<or> login_step p (login_move turn p)"
  by (auto simp: login_move_def split: login_turn.split accept_pc.split client_pc.split intro: login_step.intros)

lemma login_moves: "login_step\<^sup>*\<^sup>* p (fold login_move turns p)"
proof (induction turns arbitrary: p)
  case (Cons turn turns)
  have "login_step\<^sup>*\<^sup>* p (login_move turn p)" using login_move_step [of turn p] by auto
  then show ?case using Cons.IH [of "login_move turn p"] by simp
qed simp

text \<open>When one thread at a time updates the count, it is the number of the clients that are served.\<close>

lemma login_turns_alone:
  assumes "acceptor p = Listening" and "clients p t = Away"
  shows "fold login_move [Acceptor t, Acceptor t, Acceptor t] p =
      (client_goto p t Serving)\<lparr>acceptor := Listening, login_count := login_count p + 1, logins := Suc (logins p)\<rparr>"
    and "fold login_move [Client t, Client t] (client_goto p t Serving) =
      client_goto (p\<lparr>login_count := login_count p - 1\<rparr>) t Away"
  using assms by (simp_all add: login_move_def client_goto_def)

text \<open>
  A client that leaves while the next is accepted: the store of the one overwrites that of the other, and when
  both have left the count is one too high or one too low.
\<close>

definition lost_dec :: "login_turn list" where
  "lost_dec = [Acceptor 0, Acceptor 0, Acceptor 0, Acceptor 1, Acceptor 1, Client 0, Client 0, Acceptor 1, Client 1, Client 1]"

definition lost_inc :: "login_turn list" where
  "lost_inc = [Acceptor 0, Acceptor 0, Acceptor 0, Acceptor 1, Acceptor 1, Client 0, Acceptor 1, Client 0, Client 1, Client 1]"

lemma count_drifts:
  "fold login_move lost_dec (no_logins\<lparr>login_count := v, logins := n\<rparr>) = no_logins\<lparr>login_count := v + 1, logins := n + 2\<rparr>"
  "fold login_move lost_inc (no_logins\<lparr>login_count := v, logins := n\<rparr>) = no_logins\<lparr>login_count := v - 1, logins := n + 2\<rparr>"
  by (simp_all add: lost_dec_def lost_inc_def login_move_def client_goto_def no_logins_def fun_eq_iff)

lemma count_drifts_anywhere: "login_step\<^sup>*\<^sup>* no_logins (no_logins\<lparr>login_count := of_nat n, logins := 2 * n\<rparr>)"
proof (induction n)
  case 0
  then show ?case by (simp add: no_logins_def)
next
  case (Suc n)
  then show ?case
    using login_moves [of "no_logins\<lparr>login_count := of_nat n, logins := 2 * n\<rparr>" lost_dec]
    by (simp add: count_drifts add.commute)
qed

lemma count_wraps: "login_step\<^sup>*\<^sup>* (no_logins\<lparr>login_count := v, logins := n\<rparr>) (no_logins\<lparr>login_count := v - 1, logins := n + 2\<rparr>)"
  using login_moves [of "no_logins\<lparr>login_count := v, logins := n\<rparr>" lost_inc] by (simp only: count_drifts)

lemma full_when_wrapped: "register_reply (s\<lparr>s_nCurLoginCount := -1\<rparr>) engineVersion clientVersion = STSOCKMSG_SERVER_FULL"
  by (simp add: register_reply_def server_full_def Let_def)

text \<open>Nobody is served and the accepting thread waits.\<close>

definition nobody_served :: "login_threads \<Rightarrow> bool" where
  "nobody_served p \<longleftrightarrow> acceptor p = Listening \<and> (\<forall>t. clients p t = Away)"

lemma nobody_served_no_logins [simp]: "nobody_served (no_logins\<lparr>login_count := v, logins := n\<rparr>)"
  by (simp add: nobody_served_def no_logins_def)

text \<open>
  C35: the number of logins is not reliable when clients come and go at the same time. Two clients, of which one
  comes while the other leaves, are enough to make it wrap: both are gone and it is the largest number. When that
  has happened twice, the fifth client is alone on the server and is told that it is full, whatever
  is configured. With more clients the count can have any value while nobody is served.
\<close>

theorem login_count_race:
  "(\<exists>p. login_step\<^sup>*\<^sup>* no_logins p \<and> logins p = 2 \<and> nobody_served p \<and> login_count p = 2 ^ 32 - 1) \<and>
   (\<exists>p t. login_step\<^sup>*\<^sup>* no_logins p \<and> logins p = 5 \<and> acceptor p = Listening \<and> clients p = (\<lambda>_. Away)(t := Serving) \<and>
     (\<forall>s engineVersion clientVersion.
       register_reply (s\<lparr>s_nCurLoginCount := login_count p\<rparr>) engineVersion clientVersion = STSOCKMSG_SERVER_FULL)) \<and>
   (\<exists>p. login_step\<^sup>*\<^sup>* no_logins p \<and> nobody_served p \<and> login_count p = w)"
proof (intro conjI)
  let ?p = "\<lambda>v n. no_logins\<lparr>login_count := v, logins := n\<rparr>"
  have start: "no_logins = ?p 0 0" by (simp add: no_logins_def)
  have two: "login_step\<^sup>*\<^sup>* no_logins (?p (-1) 2)"
    using count_wraps [of 0 0] unfolding start [symmetric] by (simp add: numeral_2_eq_2)
  then show "\<exists>p. login_step\<^sup>*\<^sup>* no_logins p \<and> logins p = 2 \<and> nobody_served p \<and> login_count p = 2 ^ 32 - 1"
    by (intro exI [of _ "?p (-1) 2"]) simp
  note two
  also have "login_step\<^sup>*\<^sup>* (?p (-1) 2) (?p (-2) 4)" using count_wraps [where v = "-1" and n = 2] by simp
  also have "login_step\<^sup>*\<^sup>* (?p (-2) 4) (fold login_move [Acceptor 0, Acceptor 0, Acceptor 0] (?p (-2) 4))"
    by (rule login_moves)
  also have "fold login_move [Acceptor 0, Acceptor 0, Acceptor 0] (?p (-2) 4) =
      (client_goto (?p (-2) 4) 0 Serving)\<lparr>acceptor := Listening, login_count := -1, logins := 5\<rparr>"
    by (subst login_turns_alone(1)) (simp_all add: no_logins_def)
  finally show "\<exists>p t. login_step\<^sup>*\<^sup>* no_logins p \<and> logins p = 5 \<and> acceptor p = Listening \<and> clients p = (\<lambda>_. Away)(t := Serving) \<and>
     (\<forall>s engineVersion clientVersion.
       register_reply (s\<lparr>s_nCurLoginCount := login_count p\<rparr>) engineVersion clientVersion = STSOCKMSG_SERVER_FULL)"
    by (intro exI conjI, assumption) (simp_all add: client_goto_def no_logins_def full_when_wrapped)
  show "\<exists>p. login_step\<^sup>*\<^sup>* no_logins p \<and> nobody_served p \<and> login_count p = w"
    using count_drifts_anywhere [of "unat w"] by (intro exI conjI) (assumption, simp_all)
qed

end
