(* ===== verification/Star_Channel.thy ===== *)
theory Star_Channel
  imports Star_Thread Star_Answer
begin

text \<open>
  The channel from the program to one client. Any thread may queue messages for a client with
  \<open>STSV_SendData\<close>; the thread of the client sends the queue with \<open>EndPackSendData\<close>. Both hold the mutex of the
  client, so what the threads do is some order of whole operations (Star_Interleaved shows this of their
  statements). The abstract channel is a list of
  messages and the packets sent; the operations of the code refine it, whatever their order.
\<close>

section \<open>Operations and their specification\<close>

datatype channel_op = Queue "u8 list" | Flush

definition channel_do :: "nat \<Rightarrow> server \<Rightarrow> channel_op \<Rightarrow> server result" where
  "channel_do i s x = (case x of
     Queue m \<Rightarrow> on_client s i (\<lambda>c. STSV_SendData c 0 m (of_nat (length m)))
   | Flush \<Rightarrow> EndPackSendData s i)"

text \<open>The groups of messages that the flushes send, and the messages that are still queued.\<close>

fun channel_spec :: "u8 list list \<Rightarrow> channel_op list \<Rightarrow> u8 list list list \<times> u8 list list" where
  "channel_spec q [] = ([], q)"
| "channel_spec q (Queue m # ops) = channel_spec (q @ [m]) ops"
| "channel_spec q (Flush # ops) = (let (groups, rest) = channel_spec [] ops in (q # groups, rest))"

text \<open>No message is empty and none comes when the queue has no room for it.\<close>

fun channel_room :: "u8 list list \<Rightarrow> channel_op list \<Rightarrow> bool" where
  "channel_room q [] = True"
| "channel_room q (Queue m # ops) = (m \<noteq> [] \<and> block_count (q @ [m]) \<le> 62 \<and> channel_room (q @ [m]) ops)"
| "channel_room q (Flush # ops) = channel_room [] ops"

text \<open>What a flush sends: one packet with all messages, or the confirmation when there is none.\<close>

definition answer :: "u32 \<Rightarrow> u8 list list \<Rightarrow> u8 list" where
  "answer ref ms = (if ms = [] then header_message STSOCKMSG_CONFIRM ref else packet ref (flat 0 ms))"

fun messages :: "channel_op list \<Rightarrow> u8 list list" where
  "messages [] = []"
| "messages (Queue m # ops) = m # messages ops"
| "messages (Flush # ops) = messages ops"

text \<open>The abstract channel neither loses, nor repeats, nor reorders a message.\<close>

lemma channel_spec_fifo:
  "channel_spec q ops = (groups, rest) \<Longrightarrow> concat groups @ rest = q @ messages ops"
proof (induction q ops arbitrary: groups rest rule: channel_spec.induct)
  case (3 q ops)
  obtain gs r where gr: "channel_spec [] ops = (gs, r)" by fastforce
  from "3.IH" [OF this] "3.prems" gr show ?case by auto
qed auto

lemma flat_snoc: "flat p (ms @ [m]) = flat p ms @ map (Pair (of_nat (p + length ms))) (chunks m)"
  by (induction ms arbitrary: p) simp_all

lemma flat_empty: "[] \<notin> set ms \<Longrightarrow> flat p ms = [] \<longleftrightarrow> ms = []"
  by (cases ms) (auto simp: chunks_ne)

text \<open>Queueing writes behind the first two kilobytes of the send buffer, which hold the last packet.\<close>

lemma SendData_block_front:
  assumes "SendData_block c data off n = Inr c'" and "\<forall>j < 62. sendBufferMSG c ! j = Some (block_at j)"
    and "0 \<le> sendCount c" "sendCount c < 62"
  shows "load (sendBuffer c') 0 2048 = load (sendBuffer c) 0 2048 \<and> sendBufferMSG c' = sendBufferMSG c \<and>
    sendCount c' = sendCount c + 1 \<and> sendDataSize c' = sendDataSize c"
proof -
  obtain j where j: "sendCount c = int j" "j < 62" using assms(3,4) by (metis nat_0_le of_nat_less_iff of_nat_numeral)
  with assms obtain bs sb where sb: "store (sendBuffer c) (block_at j) bs = Inr sb" "sendBuffer c' = sb"
    "sendBufferMSG c' = sendBufferMSG c" "sendCount c' = sendCount c + 1" "sendDataSize c' = sendDataSize c"
    by (auto simp: SendData_block_def bindR_Inr_iff get_at_Inr_iff)
  have "load sb 0 2048 = load (sendBuffer c) 0 2048"
    by (rule load_store_other [OF sb(1)]) (simp add: block_at_def block_defs)
  with sb show ?thesis by simp
qed

lemma SendData_loop_front:
  assumes "SendData_loop c data off fill = Inr c'" and "\<forall>j < 62. sendBufferMSG c ! j = Some (block_at j)"
    and "0 \<le> sendCount c" "sendCount c < 62"
  shows "load (sendBuffer c') 0 2048 = load (sendBuffer c) 0 2048 \<and> sendDataSize c' = sendDataSize c"
  using assms
proof (induction c data off fill rule: SendData_loop.induct)
  case (1 c data off fill)
  show ?case
  proof (cases "fill = 0")
    case True
    with "1.prems"(1) show ?thesis by (simp add: SendData_loop.simps)
  next
    case False
    define n where "n = (if fill \<le> STAR_CLIENT_DEFAULT_BUFFER then fill else STAR_CLIENT_DEFAULT_BUFFER)"
    from "1.prems"(1) False obtain c1 where c1: "SendData_block c data off n = Inr c1"
      and r: "(if int (STAR_CLIENT_DEFAULT_MAX_BLOCK - 2) \<le> sendCount c1 then Inr c1
        else SendData_loop c1 data (off + n) (fill - n)) = Inr c'"
      unfolding SendData_loop_step [OF False n_def] bindR_Inr_iff by blast
    note b = SendData_block_front [OF c1 "1.prems"(2-4)]
    show ?thesis
    proof (cases "int (STAR_CLIENT_DEFAULT_MAX_BLOCK - 2) \<le> sendCount c1")
      case True
      with r b show ?thesis by simp
    next
      case False
      with r have "SendData_loop c1 data (off + n) (fill - n) = Inr c'" by simp
      with "1.IH" [OF \<open>fill \<noteq> 0\<close> n_def c1 False] False b "1.prems"(2,3) show ?thesis by (simp add: block_defs)
    qed
  qed
qed

lemma SendData_front:
  assumes "STSV_SendData c k data n = Inr c'" and "wf_client c"
  shows "load (sendBuffer c') 0 2048 = load (sendBuffer c) 0 2048 \<and> sendDataSize c' = sendDataSize c"
proof (cases "sendCount c < 62")
  case False
  with assms(1) show ?thesis
    by (auto simp: STSV_SendData_def lock_client_def unlock_client_def block_defs split: if_splits)
next
  case True
  with assms(1) obtain c1 where c1: "SendData_loop (c\<lparr>m_Mutex := True\<rparr>) data 0 (unat n) = Inr c1"
    "c' = unlock_client (c1\<lparr>curPacketNo := curPacketNo c1 + 1\<rparr>)"
    by (auto simp: STSV_SendData_def lock_client_def bindR_Inr_iff block_defs split: if_splits)
  from SendData_loop_front [OF c1(1)] assms(2) True show ?thesis
    by (simp add: c1(2) unlock_client_def wf_client_def)
qed

section \<open>The refinement\<close>

text \<open>The client holds the messages \<open>q\<close> in its queue; the rest of what the channel needs of it.\<close>

definition holds_queue :: "server \<Rightarrow> nat \<Rightarrow> Client_t \<Rightarrow> u8 list list \<Rightarrow> bool" where
  "holds_queue s i c q \<longleftrightarrow> client_at s i = Inr c \<and> wf_client c \<and> \<not> m_Mutex c \<and> unat (idx c) = i \<and>
     \<not> fileDataSending c \<and> queued c = flat 0 q \<and> curPacketNo c = of_nat (length q) \<and> [] \<notin> set q"

definition open_channel :: "server \<Rightarrow> bool" where
  "open_channel s \<longleftrightarrow> s_nProtocol (cfg s) = STSV_TCP_PROTOCOL \<and> s_nServerType (cfg s) \<noteq> STSV_ONETIME_CONNECTION \<and>
     (\<exists>t. crcTable s = STOS_InitCRCTable t)"

lemma holds_queueD:
  assumes "holds_queue s i c q"
  shows "client_at s i = Inr c" "wf_client c" "\<not> m_Mutex c" "unat (idx c) = i" "\<not> fileDataSending c"
    "queued c = flat 0 q" "curPacketNo c = of_nat (length q)" "[] \<notin> set q" "i < length (s_Client_t s)"
proof -
  show at: "client_at s i = Inr c" using assms by (simp add: holds_queue_def)
  then show "i < length (s_Client_t s)" by (simp add: client_at_Inr_iff)
qed (use assms in \<open>simp_all add: holds_queue_def\<close>)

lemma open_channelD:
  assumes "open_channel s"
  shows "s_nProtocol (cfg s) = STSV_TCP_PROTOCOL" "s_nServerType (cfg s) \<noteq> STSV_ONETIME_CONNECTION"
    "\<exists>t. crcTable s = STOS_InitCRCTable t"
  using assms by (simp_all add: open_channel_def)

lemma open_channel_frame [simp]:
  "open_channel (s\<lparr>net := n\<rparr>) = open_channel s" "open_channel (put_client s i c) = open_channel s"
  by (simp_all add: open_channel_def)

text \<open>What the operations of the channel leave alone.\<close>

definition channel_frame :: "server \<Rightarrow> Client_t \<Rightarrow> server \<Rightarrow> Client_t \<Rightarrow> bool" where
  "channel_frame s c s' c' \<longleftrightarrow> globals s' = globals s \<and> crcTable s' = crcTable s \<and>
     rx (net s' (socket c)) = rx (net s (socket c)) \<and> socket c' = socket c \<and> packRef c' = packRef c \<and>
     recvBuffer c' = recvBuffer c \<and> online c' = online c \<and> roomIdx c' = roomIdx c"

lemma globals_net [simp]: "globals (s\<lparr>net := n\<rparr>) = globals s"
  by (simp add: globals_def)

lemma channel_frame_refl [simp]: "channel_frame s c s c"
  by (simp add: channel_frame_def)

lemma channel_frame_trans: "channel_frame s c s1 c1 \<Longrightarrow> channel_frame s1 c1 s2 c2 \<Longrightarrow> channel_frame s c s2 c2"
  by (simp add: channel_frame_def)

lemma channel_frameD:
  assumes "channel_frame s c s' c'"
  shows "socket c' = socket c" "packRef c' = packRef c" "open_channel s' = open_channel s"
    "rx (net s' (socket c)) = rx (net s (socket c))" "recvBuffer c' = recvBuffer c" "online c' = online c"
    "globals s' = globals s" "crcTable s' = crcTable s" "roomIdx c' = roomIdx c"
  using assms by (simp_all add: channel_frame_def open_channel_def globals_def)

lemma queue_step:
  assumes h: "holds_queue s i c q" and room: "m \<noteq> []" "block_count (q @ [m]) \<le> 62"
  shows "\<exists>s' c'. channel_do i s (Queue m) = Inr s' \<and> holds_queue s' i c' (q @ [m]) \<and> s' = put_client s i c' \<and>
    channel_frame s c s' c' \<and> sendDataSize c' = sendDataSize c \<and>
    load (sendBuffer c') 0 2048 = load (sendBuffer c) 0 2048"
proof -
  note H = holds_queueD [OF h]
  have "length (queued c) + length (chunks m) \<le> 62"
    using room(2) by (simp add: H(6) block_count_def)
  from SendData_message [OF H(2,3,7) this room(1)] obtain c' where
    c': "STSV_SendData c 0 m (of_nat (length m)) = Inr c'" "wf_client c'" "\<not> m_Mutex c'"
      "queued c' = flat 0 (q @ [m])" "curPacketNo c' = of_nat (length (q @ [m]))"
      "send_frame (c\<lparr>curPacketNo := curPacketNo c'\<rparr>) c'"
    by (auto simp: H(6) flat_snoc)
  have f: "idx c' = idx c \<and> socket c' = socket c \<and> packRef c' = packRef c \<and> fileDataSending c' = fileDataSending c \<and>
      recvBuffer c' = recvBuffer c \<and> online c' = online c \<and> roomIdx c' = roomIdx c"
    using c'(6) unfolding send_frame_def by (elim exE) (erule ssubst, simp)
  have "channel_do i s (Queue m) = Inr (put_client s i c')"
    using H(1) c'(1) by (simp add: channel_do_def on_client_def)
  then show ?thesis
    using f c' H room(1) SendData_front [OF c'(1) H(2)] by (intro exI [of _ "put_client s i c'"] exI [of _ c'])
      (simp add: holds_queue_def channel_frame_def)
qed

lemma flush_step:
  assumes h: "holds_queue s i c q" and o: "open_channel s"
    and k: "0 \<notin> set (tx (net s (socket c)))" "length (answer (packRef c) q) \<le> progress (tx (net s (socket c)))"
  shows "\<exists>s' c' k'. channel_do i s Flush = Inr s' \<and> holds_queue s' i c' [] \<and>
    s' = put_client (s\<lparr>net := (net s)(socket c := k')\<rparr>) i c' \<and> channel_frame s c s' c' \<and>
    sent k' = sent (net s (socket c)) @ answer (packRef c) q \<and> 0 \<notin> set (tx k') \<and>
    progress (tx (net s (socket c))) \<le> progress (tx k') + length (answer (packRef c) q) \<and>
    (q \<noteq> [] \<longrightarrow> sendDataSize c' = length (answer (packRef c) q) \<and>
       load (sendBuffer c') 0 (length (answer (packRef c) q)) = Inr (answer (packRef c) q))"
proof (cases "q = []")
  case True
  note H = holds_queueD [OF h]
  have none: "sendCount c = 0" using queued_length [OF H(2)] H(6) True by simp
  have "12 \<le> progress (tx (net s (socket c)))" using k(2) True by (simp add: answer_def)
  from SendConfirm_sends [OF H(1) open_channelD(1) [OF o] k(1) this] obtain k' where
    k': "SendConfirmMessage s i (packRef c) = Inr (s\<lparr>net := (net s)(socket c := k')\<rparr>)"
      "sent k' = sent (net s (socket c)) @ header_message STSOCKMSG_CONFIRM (packRef c)"
      "0 \<notin> set (tx k')" "progress (tx (net s (socket c))) \<le> progress (tx k') + 12" "rx k' = rx (net s (socket c))" by blast
  have "channel_do i s Flush = Inr (s\<lparr>net := (net s)(socket c := k')\<rparr>)"
    using H none k'(1) open_channelD(2) [OF o] by (simp add: channel_do_def EndPackSendData_def)
  moreover have "put_client (s\<lparr>net := (net s)(socket c := k')\<rparr>) i c = s\<lparr>net := (net s)(socket c := k')\<rparr>"
    using H(1) by (simp add: put_client_def client_at_Inr_iff)
  ultimately show ?thesis
    using k' h True by (intro exI [of _ "s\<lparr>net := (net s)(socket c := k')\<rparr>"] exI [of _ c] exI [of _ k'])
      (simp add: answer_def holds_queue_def channel_frame_def)
next
  case False
  note H = holds_queueD [OF h]
  have some: "0 < sendCount c"
    using queued_length [OF H(2)] H(6,8) False flat_empty [of q 0] by (cases "flat 0 q") auto
  obtain t where t: "crcTable s = STOS_InitCRCTable t" using open_channelD(3) [OF o] by blast
  have ans: "answer (packRef c) q = packet (packRef c) (queued c)" using False by (simp add: answer_def H(6))
  from EndPackSendData_sends [OF H(1-3) some H(5) open_channelD(1) [OF o] t ans refl k]
  obtain s' b k' where e: "EndPackSendData s i = Inr s'"
    "s' = put_client (s\<lparr>net := (net s)(socket c := k')\<rparr>) i
      (c\<lparr>sendBuffer := b, sendDataSize := length (answer (packRef c) q), recvCount := 0, sendCount := 0, curPacketNo := 0\<rparr>)"
    "sent k' = sent (net s (socket c)) @ answer (packRef c) q" "length b = length (sendBuffer c)"
    "load b 0 (length (answer (packRef c) q)) = Inr (answer (packRef c) q)" "0 \<notin> set (tx k')" "progress (tx (net s (socket c))) \<le> progress (tx k') + length (answer (packRef c) q)"
    "rx k' = rx (net s (socket c))"
    by blast
  let ?c = "c\<lparr>sendBuffer := b, sendDataSize := length (answer (packRef c) q), recvCount := 0, sendCount := 0, curPacketNo := 0\<rparr>"
  have "wf_client ?c" using H(2) e(4) by (simp add: wf_client_def)
  then have "holds_queue s' i ?c []" using H by (simp add: holds_queue_def e(2) queued_def)
  with e show ?thesis
    by (intro exI [of _ s'] exI [of _ ?c] exI [of _ k'])
      (simp add: channel_do_def channel_frame_def)
qed

lemma channel_run:
  assumes "holds_queue s i c q" and "open_channel s" and "channel_room q ops"
    and "channel_spec q ops = (groups, rest)" and "wire = concat (map (answer (packRef c)) groups)"
    and "0 \<notin> set (tx (net s (socket c)))" and "length wire \<le> progress (tx (net s (socket c)))"
  shows "\<exists>s' c'. foldR (channel_do i) s ops = Inr s' \<and> holds_queue s' i c' rest \<and>
    sent (net s' (socket c)) = sent (net s (socket c)) @ wire \<and> channel_frame s c s' c' \<and>
    0 \<notin> set (tx (net s' (socket c))) \<and>
    progress (tx (net s (socket c))) \<le> progress (tx (net s' (socket c))) + length wire"
  using assms
proof (induction q ops arbitrary: s c groups rest wire rule: channel_spec.induct)
  case (1 q)
  then show ?case using channel_frame_refl by auto
next
  case (2 q m ops)
  then have room: "m \<noteq> []" "block_count (q @ [m]) \<le> 62" by simp_all
  from queue_step [OF "2.prems"(1) room] obtain s1 c1 where
    s1: "channel_do i s (Queue m) = Inr s1" "holds_queue s1 i c1 (q @ [m])" "s1 = put_client s i c1"
      "channel_frame s c s1 c1" by blast
  note f = channel_frameD [OF s1(4)]
  have n: "net s1 = net s" by (simp add: s1(3))
  have "\<exists>s' c'. foldR (channel_do i) s1 ops = Inr s' \<and> holds_queue s' i c' rest \<and>
      sent (net s' (socket c1)) = sent (net s1 (socket c1)) @ wire \<and> channel_frame s1 c1 s' c' \<and>
      0 \<notin> set (tx (net s' (socket c1))) \<and>
      progress (tx (net s1 (socket c1))) \<le> progress (tx (net s' (socket c1))) + length wire"
    using "2.prems" f n by (intro "2.IH" [OF s1(2)]) simp_all
  then show ?case using s1(1) f n channel_frame_trans [OF s1(4)] by auto
next
  case (3 q ops)
  obtain gs r where gr: "channel_spec [] ops = (gs, r)" by fastforce
  let ?a = "answer (packRef c) q" and ?w = "concat (map (answer (packRef c)) gs)"
  have g: "groups = q # gs" "rest = r" using "3.prems"(4) gr by simp_all
  have wire: "wire = ?a @ ?w" using "3.prems"(5) by (simp add: g)
  have len: "length ?a \<le> progress (tx (net s (socket c)))" using "3.prems"(7) wire by simp
  from flush_step [OF "3.prems"(1,2,6) len] obtain s1 c1 k1 where
    s1: "channel_do i s Flush = Inr s1" "holds_queue s1 i c1 []"
      "s1 = put_client (s\<lparr>net := (net s)(socket c := k1)\<rparr>) i c1" "channel_frame s c s1 c1"
      "sent k1 = sent (net s (socket c)) @ ?a" "0 \<notin> set (tx k1)"
      "progress (tx (net s (socket c))) \<le> progress (tx k1) + length ?a" by blast
  note f = channel_frameD [OF s1(4)]
  have n: "net s1 (socket c) = k1" by (simp add: s1(3))
  have "length ?w \<le> progress (tx k1)" using "3.prems"(7) wire s1(7) by simp
  then have "\<exists>s' c'. foldR (channel_do i) s1 ops = Inr s' \<and> holds_queue s' i c' r \<and>
      sent (net s' (socket c1)) = sent (net s1 (socket c1)) @ ?w \<and> channel_frame s1 c1 s' c' \<and>
      0 \<notin> set (tx (net s' (socket c1))) \<and>
      progress (tx (net s1 (socket c1))) \<le> progress (tx (net s' (socket c1))) + length ?w"
    using "3.prems"(2,3) gr f n s1(6) by (intro "3.IH" [OF s1(2)]) simp_all
  then obtain s' c' where e: "foldR (channel_do i) s1 ops = Inr s'" "holds_queue s' i c' r"
    "sent (net s' (socket c)) = sent k1 @ ?w" "channel_frame s1 c1 s' c'" "0 \<notin> set (tx (net s' (socket c)))"
    "progress (tx k1) \<le> progress (tx (net s' (socket c))) + length ?w"
    using f n by auto
  show ?case
    using e s1(1,5,7) g wire channel_frame_trans [OF s1(4) e(4)]
    by (intro exI [of _ s'] exI [of _ c']) simp
qed

text \<open>
  C3: whatever threads queue messages for a client and whenever its own thread sends, the client gets all of
  them, once and in order: over a TCP connection that takes the data every operation returns, what is sent is
  one packet per flush with the messages queued since the last one (the confirmation when there is none), and
  these messages followed by those still queued are the messages given, as long as each found room.
\<close>

theorem channel_delivers:
  assumes "holds_queue s i c q" and "open_channel s" and "channel_room q ops"
    and "channel_spec q ops = (groups, rest)" and "wire = concat (map (answer (packRef c)) groups)"
    and "0 \<notin> set (tx (net s (socket c)))" and "length wire \<le> progress (tx (net s (socket c)))"
  shows "\<exists>s' c'. foldR (channel_do i) s ops = Inr s' \<and> holds_queue s' i c' rest \<and>
    sent (net s' (socket c)) = sent (net s (socket c)) @ wire \<and> concat groups @ rest = q @ messages ops"
  using channel_run [OF assms] channel_spec_fifo [OF assms(4)] by blast

definition wit_channel :: "nat \<Rightarrow> server" where
  "wit_channel n = wit_answer_server\<lparr>s_Client_t := [fresh_client 65536],
     net := (\<lambda>_. \<lparr>rx = [], tx = replicate n 1, sent = [], closed = False\<rparr>)\<rparr>"

lemma wit_channel_facts:
  "holds_queue (wit_channel n) 0 (fresh_client 65536) []" "open_channel (wit_channel n)"
  "0 \<notin> set (tx (net (wit_channel n) k))" "progress (tx (net (wit_channel n) k)) = n"
  "sent (net (wit_channel n) k) = []"
proof -
  have "wf_client (fresh_client 65536)" by (rule wf_fresh_client) simp
  then show "holds_queue (wit_channel n) 0 (fresh_client 65536) []"
    by (simp add: holds_queue_def wit_channel_def client_at_def get_at_def queued_def)
      (simp add: fresh_client_def init_sendBufferMSG_def)
  show "open_channel (wit_channel n)"
    by (auto simp: open_channel_def wit_channel_def wit_answer_server_def fresh_config_def STSV_ONETIME_CONNECTION_def)
qed (simp_all add: wit_channel_def progress_def)

theorem channel_delivers_witness:
  "\<exists>s'. foldR (channel_do 0) (wit_channel 35) [Queue [1, 2], Queue [3], Flush, Flush, Queue [4]] = Inr s' \<and>
     sent (net s' (socket (fresh_client 65536))) =
       packet 0 (flat 0 [[1, 2], [3]]) @ header_message STSOCKMSG_CONFIRM 0"
proof -
  let ?ops = "[Queue [1, 2], Queue [3], Flush, Flush, Queue [4]]"
  let ?w = "packet 0 (flat 0 [[1, 2], [3]]) @ header_message STSOCKMSG_CONFIRM 0"
  have ref: "packRef (fresh_client 65536) = 0" by (simp add: fresh_client_def init_sendBufferMSG_def)
  have room: "channel_room [] ?ops" by simp
  have spec: "channel_spec [] ?ops = ([[[1, 2], [3]], []], [[4]])" by simp
  have wire: "?w = concat (map (answer (packRef (fresh_client 65536))) [[[1, 2], [3]], []])"
    by (simp add: answer_def ref)
  have len: "length ?w \<le> progress (tx (net (wit_channel 35) (socket (fresh_client 65536))))"
    by (simp add: wit_channel_facts packet_length packet_body_length payload_def)
  from channel_delivers [OF wit_channel_facts(1,2) room spec wire wit_channel_facts(3) len]
  show ?thesis by (auto simp: wit_channel_facts)
qed

section \<open>Retransmission\<close>

lemma queues_run:
  assumes "holds_queue s i c q" and "channel_room q (map Queue ms)"
  shows "\<exists>s' c'. foldR (channel_do i) s (map Queue ms) = Inr s' \<and> holds_queue s' i c' (q @ ms) \<and>
    channel_frame s c s' c' \<and> net s' = net s \<and> sendDataSize c' = sendDataSize c \<and>
    load (sendBuffer c') 0 2048 = load (sendBuffer c) 0 2048"
  using assms
proof (induction ms arbitrary: s c q)
  case Nil
  then show ?case using channel_frame_refl by auto
next
  case (Cons m ms)
  then have room: "m \<noteq> []" "block_count (q @ [m]) \<le> 62" "channel_room (q @ [m]) (map Queue ms)" by simp_all
  from queue_step [OF Cons.prems(1) room(1,2)] obtain s1 c1 where
    s1: "channel_do i s (Queue m) = Inr s1" "holds_queue s1 i c1 (q @ [m])" "s1 = put_client s i c1"
      "channel_frame s c s1 c1" "sendDataSize c1 = sendDataSize c"
      "load (sendBuffer c1) 0 2048 = load (sendBuffer c) 0 2048" by blast
  from Cons.IH [OF s1(2) room(3)] obtain s' c' where
    "foldR (channel_do i) s1 (map Queue ms) = Inr s'" "holds_queue s' i c' ((q @ [m]) @ ms)"
    "channel_frame s1 c1 s' c'" "net s' = net s1" "sendDataSize c' = sendDataSize c1"
    "load (sendBuffer c') 0 2048 = load (sendBuffer c1) 0 2048" by blast
  then show ?case using s1 channel_frame_trans [OF s1(4)] by auto
qed

text \<open>The peer asks again: what the send buffer holds under the size of the last packet goes out.\<close>

definition sends_again :: "server \<Rightarrow> nat \<Rightarrow> Client_t \<Rightarrow> u8 list \<Rightarrow> bool" where
  "sends_again s i c P \<longleftrightarrow> (\<forall>ws. 0 \<notin> set ws \<longrightarrow> length P \<le> progress ws \<longrightarrow>
     (\<exists>s'. processRetrasmit (s\<lparr>net := (net s)(socket c := (net s (socket c))\<lparr>tx := ws\<rparr>)\<rparr>) i = Inr (-1, s') \<and>
       sent (net s' (socket c)) = sent (net s (socket c)) @ P))"

lemma buffer_sends_again:
  assumes "holds_queue s i c q" and "open_channel s" and "load (sendBuffer c) 0 (sendDataSize c) = Inr P" and "P \<noteq> []"
  shows "sends_again s i c P"
  unfolding sends_again_def
proof (intro allI impI)
  fix ws :: "int list" assume ws: "0 \<notin> set ws" "length P \<le> progress ws"
  let ?s = "s\<lparr>net := (net s)(socket c := (net s (socket c))\<lparr>tx := ws\<rparr>)\<rparr>"
  have "client_at ?s i = Inr c" "s_nProtocol (cfg ?s) = STSV_TCP_PROTOCOL"
    using holds_queueD(1) [OF assms(1)] open_channelD(1) [OF assms(2)] by simp_all
  from processRetrasmit_sends [OF this(1) assms(3,4) this(2)] ws
  show "\<exists>s'. processRetrasmit ?s i = Inr (-1, s') \<and> sent (net s' (socket c)) = sent (net s (socket c)) @ P"
    by auto
qed

lemma answer_ne: "answer ref q \<noteq> []"
proof -
  have "12 \<le> length (answer ref q)" by (simp add: answer_def packet_length)
  then show ?thesis by auto
qed

text \<open>
  C10: a packet of at most two kilobytes can be sent again at any time before the next one: messages
  queued in between do not touch it.
\<close>

theorem retransmission_intact:
  assumes "holds_queue s i c q" and "open_channel s" and "q \<noteq> []" and "length (answer (packRef c) q) \<le> 2048"
    and "channel_room [] (map Queue ms)"
    and "0 \<notin> set (tx (net s (socket c)))" and "length (answer (packRef c) q) \<le> progress (tx (net s (socket c)))"
  shows "\<exists>s' c'. foldR (channel_do i) s (Flush # map Queue ms) = Inr s' \<and> holds_queue s' i c' ms \<and>
    sent (net s' (socket c)) = sent (net s (socket c)) @ answer (packRef c) q \<and>
    sends_again s' i c' (answer (packRef c) q)"
proof -
  let ?P = "answer (packRef c) q"
  from flush_step [OF assms(1,2,6,7)] assms(3) obtain s1 c1 k1 where
    s1: "channel_do i s Flush = Inr s1" "holds_queue s1 i c1 []" "channel_frame s c s1 c1"
      "s1 = put_client (s\<lparr>net := (net s)(socket c := k1)\<rparr>) i c1" "sent k1 = sent (net s (socket c)) @ ?P"
      "sendDataSize c1 = length ?P" "load (sendBuffer c1) 0 (length ?P) = Inr ?P" by blast
  from queues_run [OF s1(2) assms(5)] obtain s2 c2 where
    s2: "foldR (channel_do i) s1 (map Queue ms) = Inr s2" "holds_queue s2 i c2 ms" "channel_frame s1 c1 s2 c2"
      "net s2 = net s1" "sendDataSize c2 = length ?P" "load (sendBuffer c2) 0 2048 = load (sendBuffer c1) 0 2048"
    by (auto simp: s1(6))
  have "2048 \<le> length (sendBuffer c1)" using holds_queueD(2) [OF s1(2)] by (simp add: wf_client_def)
  then obtain front where f: "load (sendBuffer c1) 0 2048 = Inr front" by (auto simp: load_def)
  have "load (sendBuffer c2) 0 (length ?P) = load (sendBuffer c1) 0 (length ?P)"
    using load_prefix [OF f assms(4)] load_prefix [of "sendBuffer c2" 0 2048 front, OF _ assms(4)] s2(6) f by simp
  then have ld: "load (sendBuffer c2) 0 (sendDataSize c2) = Inr ?P" using s1(7) s2(5) by simp
  have o: "open_channel s2"
    using assms(2) channel_frameD(3) [OF s1(3)] channel_frameD(3) [OF s2(3)] by simp
  have "net s2 (socket c) = k1" by (simp add: s2(4) s1(4))
  with buffer_sends_again [OF s2(2) o ld answer_ne] s1 s2 show ?thesis
    by (intro exI [of _ s2] exI [of _ c2]) simp
qed

theorem retransmission_intact_witness:
  "\<exists>s' c'. foldR (channel_do 0) (wit_channel 40) [Queue [1, 2], Flush, Queue [4]] = Inr s' \<and>
     sends_again s' 0 c' (packet 0 (flat 0 [[1, 2]]))"
proof -
  let ?c = "fresh_client 65536"
  have ref: "packRef ?c = 0" by (simp add: fresh_client_def init_sendBufferMSG_def)
  have room: "[1, 2] \<noteq> ([] :: u8 list)" "block_count ([] @ [[1, 2 :: u8]]) \<le> 62" by simp_all
  from queue_step [OF wit_channel_facts(1) room, of 40] obtain s c where
    s: "channel_do 0 (wit_channel 40) (Queue [1, 2]) = Inr s" "holds_queue s 0 c ([] @ [[1, 2]])"
      "s = put_client (wit_channel 40) 0 c" "channel_frame (wit_channel 40) ?c s c" by blast
  note f = channel_frameD [OF s(4)]
  have q: "holds_queue s 0 c [[1, 2]]" "open_channel s" "[[1, 2 :: u8]] \<noteq> []"
    "channel_room [] (map Queue [[4 :: u8]])"
    using s(2) f wit_channel_facts(2) by simp_all
  have len: "length (answer (packRef c) [[1, 2]]) = 20"
    by (simp add: answer_def packet_length packet_body_length payload_def)
  then have small: "length (answer (packRef c) [[1, 2]]) \<le> 2048" by simp
  have tx: "0 \<notin> set (tx (net s (socket c)))" "length (answer (packRef c) [[1, 2]]) \<le> progress (tx (net s (socket c)))"
    unfolding len by (simp_all add: s(3) wit_channel_facts)
  have "answer (packRef c) [[1, 2]] = packet 0 (flat 0 [[1, 2]])" using f(2) ref by (simp add: answer_def)
  with retransmission_intact [OF q(1-3) small q(4) tx] s(1) show ?thesis by auto
qed

text \<open>A packet has the checksum of its bytes; with one byte changed it has not.\<close>

lemma load_own: "off + n \<le> length P \<Longrightarrow> load P off n = Inr (take n (drop off P))"
  by (simp add: load_def)

lemma packet_checks:
  assumes "length (packet_body q) < 2 ^ 16" and "load P 0 16 = load (packet ref q) 0 16"
    and "load P 16 (length (packet_body q)) = Inr ds"
  shows "checked (STOS_InitCRCTable t) P \<longleftrightarrow> crc_serial STAR_CRC16_STANDARD_POLY 0 (message_bits ds) = packet_crc q"
proof -
  have hd: "load P 0 16 = Inr (PACKDATASIZE_bytes (packet_header ref q (packet_crc q)))"
    unfolding assms(2) by (simp add: load_def packet_def)
  have sz: "msg_size P = Inr (of_nat (length (packet_body q) + 4))"
    using header_reads(4) [OF hd] by (simp add: packet_header_def)
  have crc: "rd16 P 12 = Inr (packet_crc q)" using header_reads(5) [OF hd] by (simp add: packet_header_def)
  have cut: "ucast (of_nat (length (packet_body q) + 4) - 4 :: s32) = (of_nat (length (packet_body q)) :: u16)"
    by (rule bit_word_eqI) (simp add: bit_ucast_iff bit_of_nat_iff)
  have "load P 16 (unat (of_nat (length (packet_body q)) :: u16)) = Inr ds"
    using assms(1,3) by (simp add: unat_of_nat)
  note val = crc16_value [OF this, of t]
  have run: "STOS_CRC16 (STOS_InitCRCTable t) P 16 (ucast (of_nat (length (packet_body q) + 4) - 4 :: s32)) =
      Inr (crc_serial STAR_CRC16_STANDARD_POLY 0 (message_bits ds))"
    unfolding cut by (rule val)
  show ?thesis by (simp only: checked_iff sz crc sum.inject simp_thms ex_simps run)
qed

lemma one_byte_crc:
  assumes "k < length ds" and "x \<noteq> ds ! k"
  shows "crc_serial STAR_CRC16_STANDARD_POLY 0 (message_bits (ds[k := x])) \<noteq>
    crc_serial STAR_CRC16_STANDARD_POLY 0 (message_bits ds)"
proof -
  have bits: "message_bits ds = message_bits (take k ds) @ byte_bits (ds ! k) @ message_bits (drop (Suc k) ds)"
    by (subst id_take_nth_drop [OF assms(1)]) (simp add: message_bits_def)
  have bits': "message_bits (ds[k := x]) = message_bits (take k ds) @ byte_bits x @ message_bits (drop (Suc k) ds)"
    by (subst upd_conv_take_nth_drop [OF assms(1)]) (simp add: message_bits_def)
  have "byte_bits x \<noteq> byte_bits (ds ! k)"
  proof
    assume e: "byte_bits x = byte_bits (ds ! k)"
    have "bit x i = bit (ds ! k) i" if "i < 8" for i
      using arg_cong [OF e, of "\<lambda>b. b ! (7 - i)"] that by (simp add: byte_bits_nth)
    then have "x = ds ! k" by (intro bit_word_eqI) simp
    with assms(2) show False by contradiction
  qed
  from crc16.burst_detected [OF bits' bits _ _ this] show ?thesis by (simp add: crc16.run_serial)
qed

lemma SendData_byte:
  assumes "STSV_SendData c k [x] 1 = Inr c'" and "wf_client c" and "sendCount c = 0"
  shows "store (sendBuffer c) 2048 [x] = Inr (sendBuffer c')"
proof -
  from assms(1,3) obtain c1 where c1: "SendData_loop (c\<lparr>m_Mutex := True\<rparr>) [x] 0 1 = Inr c1"
    "sendBuffer c' = sendBuffer c1"
    by (auto simp: STSV_SendData_def lock_client_def unlock_client_def bindR_Inr_iff block_defs split: if_splits)
  have one: "(1 :: nat) \<noteq> 0" "1 = (if 1 \<le> STAR_CLIENT_DEFAULT_BUFFER then 1 else STAR_CLIENT_DEFAULT_BUFFER)"
    by (simp_all add: block_defs)
  from c1(1) obtain c2 where c2: "SendData_block (c\<lparr>m_Mutex := True\<rparr>) [x] 0 1 = Inr c2" "sendBuffer c2 = sendBuffer c1"
    unfolding SendData_loop_step [OF one] bindR_Inr_iff by (auto simp: SendData_loop.simps split: if_splits)
  have "sendBufferMSG c ! 0 = Some 2048" using wf_client_block [OF assms(2), of 0] by simp
  with c2 assms(3) show ?thesis unfolding c1(2)
    by (auto simp: SendData_block_def bindR_Inr_iff get_at_Inr_iff load_def)
qed


lemma load_store_byte:
  assumes "store b k [x] = Inr b'" and "load b off n = Inr P" and "off \<le> k" and "k < off + n"
  shows "load b' off n = Inr (P[k - off := x])"
proof -
  have b': "b' = b[k := x]" "k < length b"
    using assms(1) by (auto simp: store_def upd_conv_take_nth_drop split: if_splits)
  have P: "P = take n (drop off b)" "off + n \<le> length b" using assms(2) by (auto simp: load_def split: if_splits)
  have "take n (drop off b') = P[k - off := x]"
    using assms(3,4) by (intro nth_equalityI) (auto simp: b' P nth_list_update)
  then show ?thesis using P(2) b' by (simp add: load_def)
qed

text \<open>The byte at offset 2048 of a long packet is data, so its checksum covers it.\<close>

lemma overwritten_checks:
  assumes "block_count ms \<le> 62" and "P = packet ref (flat 0 ms)" and "2048 < length P" and "x \<noteq> P ! 2048"
  shows "checked (STOS_InitCRCTable t) P" and "\<not> checked (STOS_InitCRCTable t) (P[2048 := x])"
proof -
  let ?q = "flat 0 ms" and ?body = "packet_body (flat 0 ms)"
  let ?h = "PACKDATASIZE_bytes (packet_header ref ?q (packet_crc ?q))"
  have bound: "length ?body < 2 ^ 16" using flat_body_bound [OF assms(1)] by simp
  have P: "P = ?h @ ?body" "length ?h = 16" by (simp_all add: assms(2) packet_def)
  have k: "2032 < length ?body" "x \<noteq> ?body ! 2032"
    using assms(3,4) P by (simp_all add: nth_append)
  have P': "P[2048 := x] = ?h @ ?body[2032 := x]" using P by (simp add: list_update_append)
  have "load P 16 (length ?body) = Inr ?body" by (simp add: load_own P)
  from packet_checks [OF bound _ this] show "checked (STOS_InitCRCTable t) P"
    by (simp add: assms(2) packet_crc_def)
  have h: "load (P[2048 := x]) 0 16 = load (packet ref ?q) 0 16" by (simp add: P' P packet_def load_def)
  have "load (P[2048 := x]) 16 (length ?body) = Inr (?body[2032 := x])"
    unfolding P' load_def using P(2) by simp
  from packet_checks [OF bound h this] one_byte_crc [OF k]
  show "\<not> checked (STOS_InitCRCTable t) (P[2048 := x])" by (simp add: packet_crc_def)
qed

text \<open>
  C34: a packet of more than two kilobytes reaches into the blocks of the queue: when the next message is
  queued before the peer asks for the packet again, the retransmission carries the byte of the new message
  at offset 2048 and fails the checksum that the packet itself passes.
\<close>

theorem retransmission_overwritten:
  assumes "holds_queue s i c q" and "open_channel s" and "block_count q \<le> 62"
    and "P = answer (packRef c) q" and "2048 < length P" and "x \<noteq> P ! 2048"
    and "0 \<notin> set (tx (net s (socket c)))" and "length P \<le> progress (tx (net s (socket c)))"
  shows "\<exists>s' c'. foldR (channel_do i) s [Flush, Queue [x]] = Inr s' \<and>
    sent (net s' (socket c)) = sent (net s (socket c)) @ P \<and> sends_again s' i c' (P[2048 := x]) \<and>
    checked (crcTable s') P \<and> \<not> checked (crcTable s') (P[2048 := x])"
proof -
  have ne: "q \<noteq> []" using assms(4,5) by (auto simp: answer_def)
  from flush_step [OF assms(1,2,7)] assms(4,8) ne obtain s1 c1 k1 where
    s1: "channel_do i s Flush = Inr s1" "holds_queue s1 i c1 []" "channel_frame s c s1 c1"
      "s1 = put_client (s\<lparr>net := (net s)(socket c := k1)\<rparr>) i c1" "sent k1 = sent (net s (socket c)) @ P"
      "sendDataSize c1 = length P" "load (sendBuffer c1) 0 (length P) = Inr P" by blast
  have room: "[x] \<noteq> []" "block_count ([] @ [[x]]) \<le> 62" by simp_all
  from queue_step [OF s1(2) room] obtain s2 c2 where
    s2: "channel_do i s1 (Queue [x]) = Inr s2" "holds_queue s2 i c2 ([] @ [[x]])" "s2 = put_client s1 i c2"
      "channel_frame s1 c1 s2 c2" "sendDataSize c2 = sendDataSize c1" by blast
  note H = holds_queueD [OF s1(2)]
  have "STSV_SendData c1 0 [x] 1 = Inr c2"
    using s2(1) H(1,9) holds_queueD(1) [OF s2(2)] by (auto simp: channel_do_def on_client_def bindR_Inr_iff client_at_Inr_iff put_client_def)
  moreover have "sendCount c1 = 0" using queued_length [OF H(2)] H(6) by simp
  ultimately have "store (sendBuffer c1) 2048 [x] = Inr (sendBuffer c2)" by (rule SendData_byte [OF _ H(2)])
  from load_store_byte [OF this s1(7)] assms(5)
  have ld: "load (sendBuffer c2) 0 (sendDataSize c2) = Inr (P[2048 := x])" by (simp add: s2(5) s1(6))
  have o: "open_channel s2" using assms(2) channel_frameD(3) [OF s1(3)] channel_frameD(3) [OF s2(4)] by simp
  have "P[2048 := x] \<noteq> []" using assms(5) by auto
  note again = buffer_sends_again [OF s2(2) o ld this]
  obtain t where t: "crcTable s2 = STOS_InitCRCTable t" using open_channelD(3) [OF o] by blast
  have "P = packet (packRef c) (flat 0 q)" using assms(4) ne by (simp add: answer_def)
  note checks = overwritten_checks [OF assms(3) this assms(5,6)]
  have "net s2 (socket c) = k1" by (simp add: s2(3) s1(4))
  with again checks s1(1,5) s2(1) show ?thesis unfolding t
    by (intro exI [of _ s2] exI [of _ c2]) (simp add: t)
qed

theorem retransmission_overwritten_witness:
  "\<exists>x s' c'. foldR (channel_do 0) (wit_channel 4000) [Queue (replicate 3000 0), Flush, Queue [x]] = Inr s' \<and>
     sends_again s' 0 c' ((packet 0 (flat 0 [replicate 3000 0]))[2048 := x]) \<and>
     \<not> checked (crcTable s') ((packet 0 (flat 0 [replicate 3000 0]))[2048 := x])"
proof -
  let ?c = "fresh_client 65536" and ?m = "replicate 3000 (0 :: u8)"
  let ?P = "packet 0 (flat 0 [?m])"
  have ref: "packRef ?c = 0" by (simp add: fresh_client_def init_sendBufferMSG_def)
  have room: "?m \<noteq> []" "block_count ([] @ [?m]) \<le> 62" by simp_all
  from queue_step [OF wit_channel_facts(1) room, of 4000] obtain s c where
    s: "channel_do 0 (wit_channel 4000) (Queue ?m) = Inr s" "holds_queue s 0 c ([] @ [?m])"
      "s = put_client (wit_channel 4000) 0 c" "channel_frame (wit_channel 4000) ?c s c" by blast
  note f = channel_frameD [OF s(4)]
  have q: "holds_queue s 0 c [?m]" "open_channel s" "block_count [?m] \<le> 62" "?P = answer (packRef c) [?m]"
    using s(2) f wit_channel_facts(2) room ref by (simp_all add: answer_def)
  have len: "length ?P = 3022"
    by (simp add: packet_length packet_body_length)
  then have big: "2048 < length ?P" "?P ! 2048 + 1 \<noteq> ?P ! 2048" by simp_all
  have tx: "0 \<notin> set (tx (net s (socket c)))" "length ?P \<le> progress (tx (net s (socket c)))"
    unfolding len by (simp_all add: s(3) wit_channel_facts)
  from retransmission_overwritten [OF q big tx] s(1) show ?thesis by auto
qed

end
