(* ===== verification/Star_Senders.thy ===== *)
theory Star_Senders
  imports Star_Channel
begin

text \<open>
  \<open>STSV_SendData\<close> and \<open>EndPackSendData\<close> of one client, statement by statement: any number of threads queue
  messages for the client while its own thread sends. Both lock \<open>m_Mutex\<close> of the client, but
  \<open>EndPackSendData\<close> looks at \<open>sendCount\<close> and \<open>fileDataSending\<close> before it locks, and sends the confirmation
  without the lock. Here are the steps, what is left of an operation after each of them, and why a
  confirmation and the queueing of a message do not depend on their order; Star_Interleaved has the interleavings.
\<close>

section \<open>The steps\<close>

text \<open>
  Where a thread is in \<open>STSV_SendData\<close> with the message \<open>m\<close>: it holds the mutex and has not yet looked at
  \<open>sendCount\<close>; it has \<open>fill\<close> bytes from \<open>off\<close> on to copy; it has left the loop; it is about to unlock.
\<close>

datatype send_pc = NotSending | Entered "u8 list" | Filling "u8 list" nat nat | Filled "u8 list" | Leaving "u8 list"

text \<open>
  Where the thread of the client is: outside \<open>EndPackSendData\<close>; waiting for the mutex after it saw something
  to send; packing; about to write; about to reset the counters; about to unlock; or, after it saw nothing
  to send, about to send the confirmation.
\<close>

datatype flush_pc = Outside | ToLock | ToPack | ToWrite | ToClear | ToUnlock | ToConfirm

text \<open>
  Ghosts: the operations in the order in which they take effect, each with its thread (\<open>None\<close> is that of the
  client), and the messages each thread has called \<open>STSV_SendData\<close> with.
\<close>

record senders =
  shared :: server
  send_at :: "nat \<Rightarrow> send_pc"
  flush_at :: flush_pc
  effects :: "(nat option \<times> channel_op) list"
  calls :: "nat \<Rightarrow> u8 list list"

definition send_goto :: "senders \<Rightarrow> nat \<Rightarrow> Client_t \<Rightarrow> nat \<Rightarrow> send_pc \<Rightarrow> senders" where
  "send_goto p i c t pc = p\<lparr>shared := put_client (shared p) i c, send_at := (send_at p)(t := pc)\<rparr>"

definition data_size :: "u8 list \<Rightarrow> nat" where
  "data_size m = unat (of_nat (length m) :: u32)"

text \<open>The two ends of \<open>EndPackSendData\<close> around the packing, and what it does when there is nothing to send.\<close>

definition write_packet :: "server \<Rightarrow> nat \<Rightarrow> server result" where
  "write_packet s i =
     bindR (client_at s i) (\<lambda>c.
     bindR (load (sendBuffer c) 0 (sendDataSize c)) (\<lambda>msg.
     bindR (WriteTo_client s i msg) (\<lambda>(sendsize, s).
       if sendsize = 0 then go_offline s i else Inr s)))"

definition clear_queue :: "Client_t \<Rightarrow> Client_t" where
  "clear_queue c = c\<lparr>recvCount := 0, sendCount := 0, curPacketNo := 0\<rparr>"

definition confirm :: "server \<Rightarrow> nat \<Rightarrow> server result" where
  "confirm s i =
     bindR (client_at s i) (\<lambda>c.
     bindR (SendConfirmMessage s (unat (idx c)) (packRef c)) (\<lambda>s.
       if s_nServerType (cfg s) = STSV_ONETIME_CONNECTION
       then on_client s i (\<lambda>c. Inr (c\<lparr>sendDone := True\<rparr>)) else Inr s))"

definition to_send :: "Client_t \<Rightarrow> bool" where
  "to_send c \<longleftrightarrow> 0 < sendCount c \<or> fileDataSending c"

text \<open>One statement of \<open>STSV_SendData\<close> in thread \<open>t\<close>.\<close>

inductive SendData_step :: "nat \<Rightarrow> senders \<Rightarrow> senders \<Rightarrow> bool" for i :: nat where
  send_lock: "send_at p t = NotSending \<Longrightarrow> client_at (shared p) i = Inr c \<Longrightarrow> lock_client c = Inr c' \<Longrightarrow>
     SendData_step i p ((send_goto p i c' t (Entered m))\<lparr>calls := (calls p)(t := calls p t @ [m])\<rparr>)"
| send_look: "send_at p t = Entered m \<Longrightarrow> client_at (shared p) i = Inr c \<Longrightarrow>
     SendData_step i p (send_goto p i c t
       (if sendCount c < int (STAR_CLIENT_DEFAULT_MAX_BLOCK - 2) then Filling m 0 (data_size m) else Leaving m))"
| send_block: "send_at p t = Filling m off fill \<Longrightarrow> fill \<noteq> 0 \<Longrightarrow> client_at (shared p) i = Inr c \<Longrightarrow>
     n = (if fill \<le> STAR_CLIENT_DEFAULT_BUFFER then fill else STAR_CLIENT_DEFAULT_BUFFER) \<Longrightarrow>
     SendData_block c m off n = Inr c' \<Longrightarrow>
     SendData_step i p (send_goto p i c' t
       (if int (STAR_CLIENT_DEFAULT_MAX_BLOCK - 2) \<le> sendCount c' then Filled m else Filling m (off + n) (fill - n)))"
| send_filled: "send_at p t = Filling m off 0 \<Longrightarrow> client_at (shared p) i = Inr c \<Longrightarrow>
     SendData_step i p (send_goto p i c t (Filled m))"
| send_count: "send_at p t = Filled m \<Longrightarrow> client_at (shared p) i = Inr c \<Longrightarrow>
     SendData_step i p (send_goto p i (c\<lparr>curPacketNo := curPacketNo c + 1\<rparr>) t (Leaving m))"
| send_unlock: "send_at p t = Leaving m \<Longrightarrow> client_at (shared p) i = Inr c \<Longrightarrow>
     SendData_step i p ((send_goto p i (unlock_client c) t NotSending)\<lparr>effects := effects p @ [(Some t, Queue m)]\<rparr>)"

text \<open>One statement of \<open>EndPackSendData\<close>.\<close>

inductive EndPack_step :: "nat \<Rightarrow> senders \<Rightarrow> senders \<Rightarrow> bool" for i :: nat where
  flush_look: "flush_at p = Outside \<Longrightarrow> client_at (shared p) i = Inr c \<Longrightarrow> to_send c \<Longrightarrow>
     EndPack_step i p (p\<lparr>flush_at := ToLock\<rparr>)"
| flush_nothing: "flush_at p = Outside \<Longrightarrow> client_at (shared p) i = Inr c \<Longrightarrow> \<not> to_send c \<Longrightarrow>
     EndPack_step i p (p\<lparr>flush_at := ToConfirm, effects := effects p @ [(None, Flush)]\<rparr>)"
| flush_confirm: "flush_at p = ToConfirm \<Longrightarrow> confirm (shared p) i = Inr s \<Longrightarrow>
     EndPack_step i p (p\<lparr>flush_at := Outside, shared := s\<rparr>)"
| flush_lock: "flush_at p = ToLock \<Longrightarrow> on_client (shared p) i lock_client = Inr s \<Longrightarrow>
     EndPack_step i p (p\<lparr>flush_at := ToPack, shared := s\<rparr>)"
| flush_pack: "flush_at p = ToPack \<Longrightarrow> on_client (shared p) i (packForSending (shared p)) = Inr s \<Longrightarrow>
     EndPack_step i p (p\<lparr>flush_at := ToWrite, shared := s\<rparr>)"
| flush_write: "flush_at p = ToWrite \<Longrightarrow> write_packet (shared p) i = Inr s \<Longrightarrow>
     EndPack_step i p (p\<lparr>flush_at := ToClear, shared := s\<rparr>)"
| flush_clear: "flush_at p = ToClear \<Longrightarrow> on_client (shared p) i (\<lambda>c. Inr (clear_queue c)) = Inr s \<Longrightarrow>
     EndPack_step i p (p\<lparr>flush_at := ToUnlock, shared := s\<rparr>)"
| flush_unlock: "flush_at p = ToUnlock \<Longrightarrow> on_client (shared p) i (\<lambda>c. Inr (unlock_client c)) = Inr s \<Longrightarrow>
     EndPack_step i p (p\<lparr>flush_at := Outside, shared := s, effects := effects p @ [(None, Flush)]\<rparr>)"

definition send_step :: "nat \<Rightarrow> senders \<Rightarrow> senders \<Rightarrow> bool" where
  "send_step i p p' \<longleftrightarrow> SendData_step i p p' \<or> EndPack_step i p p'"

lemma send_stepI: "SendData_step i p p' \<Longrightarrow> send_step i p p'" "EndPack_step i p p' \<Longrightarrow> send_step i p p'"
  by (simp_all add: send_step_def)

definition no_senders :: "server \<Rightarrow> senders" where
  "no_senders s = \<lparr>shared = s, send_at = (\<lambda>_. NotSending), flush_at = Outside, effects = [], calls = (\<lambda>_. [])\<rparr>"

text \<open>Nobody is inside an operation.\<close>

definition at_rest :: "senders \<Rightarrow> bool" where
  "at_rest p \<longleftrightarrow> (\<forall>t. send_at p t = NotSending) \<and> flush_at p = Outside"

section \<open>What is left of an operation\<close>

definition count_and_unlock :: "Client_t \<Rightarrow> Client_t" where
  "count_and_unlock c = unlock_client (c\<lparr>curPacketNo := curPacketNo c + 1\<rparr>)"

primrec send_rest :: "send_pc \<Rightarrow> Client_t \<Rightarrow> Client_t result" where
  "send_rest NotSending c = Inr c"
| "send_rest (Entered m) c = (if sendCount c < int (STAR_CLIENT_DEFAULT_MAX_BLOCK - 2)
     then bindR (SendData_loop c m 0 (data_size m)) (\<lambda>c'. Inr (count_and_unlock c')) else Inr (unlock_client c))"
| "send_rest (Filling m off fill) c = bindR (SendData_loop c m off fill) (\<lambda>c'. Inr (count_and_unlock c'))"
| "send_rest (Filled m) c = Inr (count_and_unlock c)"
| "send_rest (Leaving m) c = Inr (unlock_client c)"

definition unlock_rest :: "nat \<Rightarrow> server \<Rightarrow> server result" where
  "unlock_rest i s = on_client s i (\<lambda>c. Inr (unlock_client c))"

definition clear_rest :: "nat \<Rightarrow> server \<Rightarrow> server result" where
  "clear_rest i s = bindR (on_client s i (\<lambda>c. Inr (clear_queue c))) (unlock_rest i)"

definition write_rest :: "nat \<Rightarrow> server \<Rightarrow> server result" where
  "write_rest i s = bindR (write_packet s i) (clear_rest i)"

definition pack_rest :: "nat \<Rightarrow> server \<Rightarrow> server result" where
  "pack_rest i s = bindR (on_client s i (packForSending s)) (write_rest i)"

definition flush_rest :: "flush_pc \<Rightarrow> nat \<Rightarrow> server \<Rightarrow> server result" where
  "flush_rest pc i s = (case pc of
     ToPack \<Rightarrow> pack_rest i s
   | ToWrite \<Rightarrow> write_rest i s
   | ToClear \<Rightarrow> clear_rest i s
   | ToUnlock \<Rightarrow> unlock_rest i s
   | _ \<Rightarrow> Inr s)"

lemmas flush_rests = unlock_rest_def clear_rest_def write_rest_def pack_rest_def

text \<open>The whole operations are what is left of them at their start.\<close>

lemma STSV_SendData_rest:
  "\<not> m_Mutex c \<Longrightarrow> STSV_SendData c k m (of_nat (length m)) = send_rest (Entered m) (c\<lparr>m_Mutex := True\<rparr>)"
  by (simp add: STSV_SendData_def lock_client_def count_and_unlock_def data_size_def)

lemma on_client_twice: "bindR (on_client s i f) (\<lambda>s. on_client s i g) = on_client s i (\<lambda>c. bindR (f c) g)"
proof (cases "client_at s i")
  case (Inr c)
  then have i: "i < length (s_Client_t s)" by (simp add: client_at_Inr_iff)
  show ?thesis by (cases "f c") (simp_all add: on_client_def Inr put_client_at [OF i] bindR_assoc)
qed (simp add: on_client_def)

lemma pack_rest_unfold:
  assumes "client_at s i = Inr c"
  shows "pack_rest i s = bindR (packForSending s c) (\<lambda>c. bindR (load (sendBuffer c) 0 (sendDataSize c)) (\<lambda>msg.
    bindR (WriteTo_client (put_client s i c) i msg) (\<lambda>(sendsize, s).
      bindR (if sendsize = 0 then go_offline s i else Inr s) (clear_rest i))))"
proof -
  have "i < length (s_Client_t s)" using assms by (simp add: client_at_Inr_iff)
  then show ?thesis
    by (simp add: pack_rest_def write_rest_def write_packet_def on_client_def assms bindR_assoc put_client_at case_prod_unfold)
qed

lemma EndPackSendData_rest:
  assumes "client_at s i = Inr c"
  shows "EndPackSendData s i = (if to_send c then bindR (on_client s i lock_client) (pack_rest i) else confirm s i)"
proof -
  have clear: "on_client s1 i (\<lambda>c. Inr (unlock_client (c\<lparr>recvCount := 0, sendCount := 0, curPacketNo := 0\<rparr>))) = clear_rest i s1" for s1
    using on_client_twice [of s1 i "\<lambda>c. Inr (clear_queue c)"] by (simp add: clear_rest_def unlock_rest_def clear_queue_def cong: bindR_cong)
  have i: "i < length (s_Client_t s)" using assms by (simp add: client_at_Inr_iff)
  have lock: "bindR (on_client s i lock_client) (\<lambda>s. bindR (client_at s i) (\<lambda>c. bindR (packForSending s c) (\<lambda>c.
      bindR (load (sendBuffer c) 0 (sendDataSize c)) (\<lambda>msg. bindR (WriteTo_client (put_client s i c) i msg) (\<lambda>(sendsize, s).
      bindR (if sendsize = 0 then go_offline s i else Inr s) (clear_rest i)))))) =
      bindR (on_client s i lock_client) (pack_rest i)"
  proof (rule bindR_cong [OF refl])
    fix s1 assume "on_client s i lock_client = Inr s1"
    then obtain c1 where "client_at s1 i = Inr c1" using i by (auto simp: on_client_def bindR_Inr_iff put_client_at)
    from pack_rest_unfold [OF this] this show "bindR (client_at s1 i) (\<lambda>c. bindR (packForSending s1 c) (\<lambda>c.
      bindR (load (sendBuffer c) 0 (sendDataSize c)) (\<lambda>msg. bindR (WriteTo_client (put_client s1 i c) i msg) (\<lambda>(sendsize, s).
      bindR (if sendsize = 0 then go_offline s i else Inr s) (clear_rest i))))) = pack_rest i s1" by simp
  qed
  show ?thesis using assms lock by (simp add: EndPackSendData_def clear to_send_def confirm_def)
qed

section \<open>Queueing and the confirmation do not meddle with each other\<close>

text \<open>What a confirmation changes of the client, and what queueing keeps.\<close>

definition marked :: "bool \<Rightarrow> bool \<Rightarrow> Client_t \<Rightarrow> Client_t" where
  "marked reached once c = c\<lparr>online := (reached \<and> online c), sendDone := (once \<or> sendDone c)\<rparr>"

definition queue_keeps :: "Client_t \<Rightarrow> Client_t \<Rightarrow> bool" where
  "queue_keeps c c' \<longleftrightarrow> place c' = place c \<and> packRef c' = packRef c \<and> (to_send c \<longrightarrow> to_send c')"

lemma queue_keeps_refl [simp]: "queue_keeps c c"
  by (simp add: queue_keeps_def)

lemma queue_keeps_trans: "queue_keeps a b \<Longrightarrow> queue_keeps b c \<Longrightarrow> queue_keeps a c"
  by (simp add: queue_keeps_def)

lemma marked_fields [simp]:
  "place (marked r d c) = place c" "packRef (marked r d c) = packRef c" "m_Mutex (marked r d c) = m_Mutex c"
  "sendCount (marked r d c) = sendCount c" "to_send (marked r d c) = to_send c" "idx (marked r d c) = idx c"
  "marked r d (c\<lparr>m_Mutex := b\<rparr>) = (marked r d c)\<lparr>m_Mutex := b\<rparr>"
  "marked r d (count_and_unlock c) = count_and_unlock (marked r d c)" "marked r d (unlock_client c) = unlock_client (marked r d c)"
  by (simp_all add: marked_def place_def to_send_def count_and_unlock_def unlock_client_def)

lemma SendData_block_marked:
  "SendData_block (marked r d c) m off n = bindR (SendData_block c m off n) (\<lambda>c'. Inr (marked r d c'))"
  by (auto simp: SendData_block_def marked_def bindR_assoc split: option.split intro!: bindR_cong)

lemma SendData_block_keeps:
  assumes "SendData_block c m off n = Inr c'"
  shows "queue_keeps c c' \<and> m_Mutex c' = m_Mutex c"
  using assms by (auto simp: SendData_block_def bindR_Inr_iff queue_keeps_def place_def to_send_def split: option.splits)

lemma SendData_loop_0 [simp]: "SendData_loop c m off 0 = Inr c"
  by (simp add: SendData_loop.simps)

lemma SendData_loop_marked:
  "SendData_loop (marked r d c) m off fill = bindR (SendData_loop c m off fill) (\<lambda>c'. Inr (marked r d c'))"
proof (induction c m off fill rule: SendData_loop.induct)
  case (1 c m off fill)
  show ?case
  proof (cases "fill = 0")
    case False
    define n where "n = (if fill \<le> STAR_CLIENT_DEFAULT_BUFFER then fill else STAR_CLIENT_DEFAULT_BUFFER)"
    show ?thesis
      unfolding SendData_loop_step [OF False n_def] SendData_block_marked bindR_assoc
    proof (rule bindR_cong [OF refl])
      fix c' assume "SendData_block c m off n = Inr c'"
      from "1.IH" [OF False n_def this]
      show "bindR (Inr (marked r d c')) (\<lambda>c'. if int (STAR_CLIENT_DEFAULT_MAX_BLOCK - 2) \<le> sendCount c' then Inr c'
            else SendData_loop c' m (off + n) (fill - n)) =
          bindR (if int (STAR_CLIENT_DEFAULT_MAX_BLOCK - 2) \<le> sendCount c' then Inr c'
            else SendData_loop c' m (off + n) (fill - n)) (\<lambda>c'. Inr (marked r d c'))"
        by simp
    qed
  qed simp
qed

lemma SendData_loop_keeps:
  assumes "SendData_loop c m off fill = Inr c'"
  shows "queue_keeps c c'"
  using assms
proof (induction c m off fill rule: SendData_loop.induct)
  case (1 c m off fill)
  show ?case
  proof (cases "fill = 0")
    case True
    with "1.prems" show ?thesis by simp
  next
    case False
    define n where "n = (if fill \<le> STAR_CLIENT_DEFAULT_BUFFER then fill else STAR_CLIENT_DEFAULT_BUFFER)"
    from "1.prems" obtain c1 where c1: "SendData_block c m off n = Inr c1"
      and r: "(if int (STAR_CLIENT_DEFAULT_MAX_BLOCK - 2) \<le> sendCount c1 then Inr c1
        else SendData_loop c1 m (off + n) (fill - n)) = Inr c'"
      unfolding SendData_loop_step [OF False n_def] bindR_Inr_iff by blast
    note k = SendData_block_keeps [OF c1]
    show ?thesis
      using r k "1.IH" [OF False n_def c1] by (auto split: if_splits intro: queue_keeps_trans)
  qed
qed

lemma send_rest_marked: "send_rest pc (marked r d c) = bindR (send_rest pc c) (\<lambda>c'. Inr (marked r d c'))"
  by (cases pc) (simp_all add: SendData_loop_marked bindR_assoc)

lemma queue_keeps_unlock [simp]:
  "queue_keeps c (unlock_client c') = queue_keeps c c'" "queue_keeps c (count_and_unlock c') = queue_keeps c c'"
  "queue_keeps c (c'\<lparr>curPacketNo := k\<rparr>) = queue_keeps c c'" "queue_keeps c (c'\<lparr>m_Mutex := b\<rparr>) = queue_keeps c c'"
  by (simp_all add: queue_keeps_def unlock_client_def count_and_unlock_def place_def to_send_def)

lemma unlocked [simp]: "\<not> m_Mutex (unlock_client c)" "\<not> m_Mutex (count_and_unlock c)"
  by (simp_all add: unlock_client_def count_and_unlock_def)

lemma send_rest_keeps:
  assumes "send_rest pc c = Inr c'"
  shows "queue_keeps c c' \<and> (pc \<noteq> NotSending \<longrightarrow> \<not> m_Mutex c')"
  using assms by (cases pc) (auto simp: bindR_Inr_iff split: if_splits dest: SendData_loop_keeps)

text \<open>The client's part of a queue operation.\<close>

definition queue_one :: "u8 list \<Rightarrow> Client_t \<Rightarrow> Client_t result" where
  "queue_one m c = STSV_SendData c 0 m (of_nat (length m))"

lemma queue_one_locked: "m_Mutex c \<Longrightarrow> queue_one m c = Inl Deadlock"
  by (simp add: queue_one_def STSV_SendData_def lock_client_def)

lemma queue_one_rest: "\<not> m_Mutex c \<Longrightarrow> queue_one m c = send_rest (Entered m) (c\<lparr>m_Mutex := True\<rparr>)"
  by (simp add: queue_one_def STSV_SendData_rest)

lemma queue_one_marked: "queue_one m (marked r d c) = bindR (queue_one m c) (\<lambda>c'. Inr (marked r d c'))"
proof (cases "m_Mutex c")
  case False
  then show ?thesis
    using send_rest_marked [of "Entered m" r d "c\<lparr>m_Mutex := True\<rparr>"] by (simp add: queue_one_rest del: send_rest.simps)
qed (simp add: queue_one_locked)

lemma queue_one_keeps:
  assumes "queue_one m c = Inr c'"
  shows "queue_keeps c c' \<and> \<not> m_Mutex c'"
proof (cases "m_Mutex c")
  case False
  with assms have "send_rest (Entered m) (c\<lparr>m_Mutex := True\<rparr>) = Inr c'" by (simp add: queue_one_rest del: send_rest.simps)
  from send_rest_keeps [OF this] show ?thesis by (simp add: queue_keeps_def place_def to_send_def)
next
  case True
  with assms show ?thesis by (simp add: queue_one_locked)
qed

lemma do_queue: "channel_do i s (Queue m) = on_client s i (queue_one m)"
  by (simp add: channel_do_def queue_one_def [abs_def])

lemma do_queue_Inr_iff:
  "channel_do i s (Queue m) = Inr s' \<longleftrightarrow> (\<exists>c c'. client_at s i = Inr c \<and> queue_one m c = Inr c' \<and> s' = put_client s i c')"
  by (auto simp: do_queue on_client_def bindR_Inr_iff)

lemma put_client_id: "client_at s i = Inr c \<Longrightarrow> put_client s i c = s"
  by (cases s) (auto simp: put_client_def client_at_Inr_iff)

lemma put_client_net: "(put_client s i c)\<lparr>net := n\<rparr> = put_client (s\<lparr>net := n\<rparr>) i c"
  by (simp add: put_client_def)

text \<open>A confirmation on the wire and in the flags of the client.\<close>

lemma confirm_eq:
  assumes "client_at s i = Inr c" and "unat (idx c) = i"
  shows "confirm s i = bindR (WriteTo (s_nProtocol (cfg s)) (net s (socket c)) (header_message STSOCKMSG_CONFIRM (packRef c)))
    (\<lambda>(r, k). Inr (put_client (s\<lparr>net := (net s)(socket c := k)\<rparr>) i
      (marked (r \<noteq> 0) (s_nServerType (cfg s) = STSV_ONETIME_CONNECTION) c)))"
proof -
  have i: "i < length (s_Client_t s)" "s_Client_t s ! i = c" using assms(1) by (simp_all add: client_at_Inr_iff)
  have same: "put_client (s\<lparr>net := n\<rparr>) i c = s\<lparr>net := n\<rparr>" for n
    by (rule put_client_id) (simp add: assms(1))
  have j: "i < length (s_Client_t (s\<lparr>net := n\<rparr>))" for n using i by simp
  show ?thesis
    unfolding confirm_def SendConfirmMessage_def send_header_def WriteTo_client_def assms bindR.simps bindR_assoc
    by (rule bindR_cong [OF refl])
      (auto simp: go_offline_def on_client_def assms(1) put_client_at [OF j] marked_def same split: prod.split)
qed

lemma confirm_Inr:
  assumes "client_at s i = Inr c" and "unat (idx c) = i" and "confirm s i = Inr s'"
  obtains k r d where "s' = put_client (s\<lparr>net := (net s)(socket c := k)\<rparr>) i (marked r d c)"
    and "\<And>c'. queue_keeps c c' \<Longrightarrow>
      confirm (put_client s i c') i = Inr (put_client (s\<lparr>net := (net s)(socket c := k)\<rparr>) i (marked r d c'))"
    and "\<And>t c'. s = put_client t i c \<Longrightarrow> client_at t i = Inr c' \<Longrightarrow> queue_keeps c' c \<Longrightarrow>
      confirm t i = Inr (put_client (t\<lparr>net := (net t)(socket c := k)\<rparr>) i (marked r d c'))"
proof -
  obtain x k where w: "WriteTo (s_nProtocol (cfg s)) (net s (socket c)) (header_message STSOCKMSG_CONFIRM (packRef c)) = Inr (x, k)"
    using assms(3) unfolding confirm_eq [OF assms(1,2)] by (auto simp: bindR_Inr_iff)
  have i: "i < length (s_Client_t s)" using assms(1) by (simp add: client_at_Inr_iff)
  show thesis
  proof (rule that)
    show "s' = put_client (s\<lparr>net := (net s)(socket c := k)\<rparr>) i
        (marked (x \<noteq> 0) (s_nServerType (cfg s) = STSV_ONETIME_CONNECTION) c)"
      using assms(3) by (simp add: confirm_eq [OF assms(1,2)] w)
  next
    fix c' assume k: "queue_keeps c c'"
    have at: "client_at (put_client s i c') i = Inr c'" using i by simp
    have "unat (idx c') = i" using k assms(2) by (simp add: queue_keeps_def place_def)
    from confirm_eq [OF at this] w k
    show "confirm (put_client s i c') i = Inr (put_client (s\<lparr>net := (net s)(socket c := k)\<rparr>) i
        (marked (x \<noteq> 0) (s_nServerType (cfg s) = STSV_ONETIME_CONNECTION) c'))"
      by (simp add: queue_keeps_def place_def put_client_net)
  next
    fix t c' assume t: "s = put_client t i c" "client_at t i = Inr c'" and k: "queue_keeps c' c"
    have "unat (idx c') = i" using k assms(2) by (simp add: queue_keeps_def place_def)
    from confirm_eq [OF t(2) this] w k t(1)
    show "confirm t i = Inr (put_client (t\<lparr>net := (net t)(socket c := k)\<rparr>) i
        (marked (x \<noteq> 0) (s_nServerType (cfg s) = STSV_ONETIME_CONNECTION) c'))"
      by (simp add: queue_keeps_def place_def)
  qed
qed

text \<open>A confirmation after a message was queued can be moved in front of it.\<close>

lemma confirm_before_queue:
  assumes "client_at s i = Inr c" and "unat (idx c) = i"
    and "channel_do i s (Queue m) = Inr s1" and "confirm s1 i = Inr s2"
  shows "\<exists>s' c'. confirm s i = Inr s' \<and> channel_do i s' (Queue m) = Inr s2"
proof -
  from assms(1,3) obtain c1 where c1: "queue_one m c = Inr c1" "s1 = put_client s i c1"
    by (auto simp: do_queue_Inr_iff)
  note q = queue_one_keeps [OF c1(1)]
  have i: "i < length (s_Client_t s)" using assms(1) by (simp add: client_at_Inr_iff)
  have at: "client_at s1 i = Inr c1" "unat (idx c1) = i"
    using i q assms(2) by (simp_all add: c1(2) queue_keeps_def place_def)
  obtain k r d where s2: "s2 = put_client (s1\<lparr>net := (net s1)(socket c1 := k)\<rparr>) i (marked r d c1)"
    and c: "confirm s i = Inr (put_client (s\<lparr>net := (net s)(socket c1 := k)\<rparr>) i (marked r d c))"
    by (rule confirm_Inr [OF at assms(4)]) (use c1(2) assms(1) q in blast)
  have "channel_do i (put_client (s\<lparr>net := (net s)(socket c1 := k)\<rparr>) i (marked r d c)) (Queue m) = Inr s2"
    unfolding do_queue_Inr_iff s2 c1(2) put_client_net put_client_twice put_client_frame
    using i by (intro exI [of _ "marked r d c"] exI [of _ "marked r d c1"]) (simp add: queue_one_marked c1(1))
  with c show ?thesis by blast
qed

lemma confirm_before_queues:
  assumes "client_at s i = Inr c" and "unat (idx c) = i"
    and "foldR (channel_do i) s (map Queue ms) = Inr s1" and "confirm s1 i = Inr s2"
  shows "\<exists>s'. confirm s i = Inr s' \<and> foldR (channel_do i) s' (map Queue ms) = Inr s2"
  using assms
proof (induction ms arbitrary: s c)
  case (Cons m ms)
  then obtain t where t: "channel_do i s (Queue m) = Inr t" "foldR (channel_do i) t (map Queue ms) = Inr s1"
    by (auto simp: bindR_Inr_iff)
  from t(1) Cons.prems(1) obtain c1 where c1: "queue_one m c = Inr c1" "t = put_client s i c1"
    by (auto simp: do_queue_Inr_iff)
  have at: "client_at t i = Inr c1" "unat (idx c1) = i"
    using Cons.prems(1,2) queue_one_keeps [OF c1(1)] by (simp_all add: c1(2) client_at_Inr_iff queue_keeps_def place_def put_client_def)
  from Cons.IH [OF at t(2) Cons.prems(4)] obtain t' where
    t': "confirm t i = Inr t'" "foldR (channel_do i) t' (map Queue ms) = Inr s2" by blast
  from confirm_before_queue [OF Cons.prems(1,2) t(1) t'(1)] t'(2) show ?case by auto
qed simp

end
