(* ===== verification/Star_Interleaved.thy ===== *)
theory Star_Interleaved
  imports Star_Senders
begin

text \<open>
  The threads that queue messages for a client and the thread that sends them, in any interleaving of the steps of
  Star_Senders: the invariant that relates the shared state to the operations that have taken effect, and what
  follows from it.
\<close>

section \<open>The invariant\<close>

text \<open>
  The effects so far lead to the state \<open>sa\<close>. When a confirmation is on its way, it has taken effect in front of
  the messages that were queued since the thread looked.
\<close>

definition leads_to :: "nat \<Rightarrow> server \<Rightarrow> senders \<Rightarrow> server \<Rightarrow> bool" where
  "leads_to i s0 p sa \<longleftrightarrow>
     (if flush_at p = ToConfirm
      then \<exists>h ms s1 c1. map snd (effects p) = h @ Flush # map Queue ms \<and> foldR (channel_do i) s0 h = Inr s1 \<and>
        client_at s1 i = Inr c1 \<and> unat (idx c1) = i \<and> \<not> to_send c1 \<and> foldR (channel_do i) s1 (map Queue ms) = Inr sa
      else foldR (channel_do i) s0 (map snd (effects p)) = Inr sa)"

fun message :: "send_pc \<Rightarrow> u8 list" where
  "message NotSending = []"
| "message (Entered m) = m"
| "message (Filling m off fill) = m"
| "message (Filled m) = m"
| "message (Leaving m) = m"

definition no_one_sends :: "senders \<Rightarrow> bool" where
  "no_one_sends p \<longleftrightarrow> (\<forall>t. send_at p t = NotSending)"

definition in_flush :: "flush_pc \<Rightarrow> bool" where
  "in_flush pc \<longleftrightarrow> pc \<in> {ToPack, ToWrite, ToClear, ToUnlock}"

text \<open>How the shared state is related to \<open>sa\<close>: nobody has the mutex, a thread that queues has it, or the thread that sends.\<close>

inductive phase :: "nat \<Rightarrow> senders \<Rightarrow> server \<Rightarrow> Client_t \<Rightarrow> bool" for i p sa ca where
  ph_rest: "shared p = sa \<Longrightarrow> no_one_sends p \<Longrightarrow> \<not> in_flush (flush_at p) \<Longrightarrow> (flush_at p = ToLock \<Longrightarrow> to_send ca) \<Longrightarrow>
    phase i p sa ca"
| ph_queue: "shared p = put_client sa i c \<Longrightarrow> queue_keeps ca c \<Longrightarrow> m_Mutex c \<Longrightarrow> send_at p t \<noteq> NotSending \<Longrightarrow>
    (\<And>u. u \<noteq> t \<Longrightarrow> send_at p u = NotSending) \<Longrightarrow> \<not> in_flush (flush_at p) \<Longrightarrow> (flush_at p = ToLock \<Longrightarrow> to_send c) \<Longrightarrow>
    queue_one (message (send_at p t)) ca = send_rest (send_at p t) c \<Longrightarrow> phase i p sa ca"
| ph_flush: "client_at (shared p) i = Inr c \<Longrightarrow> m_Mutex c \<Longrightarrow> no_one_sends p \<Longrightarrow> in_flush (flush_at p) \<Longrightarrow>
    EndPackSendData sa i = flush_rest (flush_at p) i (shared p) \<Longrightarrow> phase i p sa ca"

definition senders_inv :: "nat \<Rightarrow> server \<Rightarrow> senders \<Rightarrow> bool" where
  "senders_inv i s0 p \<longleftrightarrow> (\<exists>sa ca. leads_to i s0 p sa \<and> client_at sa i = Inr ca \<and> \<not> m_Mutex ca \<and> unat (idx ca) = i \<and>
     phase i p sa ca)"

lemma senders_invI:
  "leads_to i s0 p sa \<Longrightarrow> client_at sa i = Inr ca \<Longrightarrow> \<not> m_Mutex ca \<Longrightarrow> unat (idx ca) = i \<Longrightarrow> phase i p sa ca \<Longrightarrow>
    senders_inv i s0 p"
  by (auto simp: senders_inv_def)

text \<open>A thread inside \<open>STSV_SendData\<close> is the one that has the mutex, and nobody else is inside.\<close>

lemma phase_sender:
  assumes "phase i p sa ca" and "client_at sa i = Inr ca" and "send_at p t \<noteq> NotSending" and "client_at (shared p) i = Inr c"
  shows "shared p = put_client sa i c" "queue_keeps ca c" "m_Mutex c" "u \<noteq> t \<Longrightarrow> send_at p u = NotSending"
    "\<not> in_flush (flush_at p)" "flush_at p = ToLock \<Longrightarrow> to_send c"
    "queue_one (message (send_at p t)) ca = send_rest (send_at p t) c"
proof -
  from assms(1) have "shared p = put_client sa i c \<and> queue_keeps ca c \<and> m_Mutex c \<and> (\<forall>u. u \<noteq> t \<longrightarrow> send_at p u = NotSending) \<and>
    \<not> in_flush (flush_at p) \<and> (flush_at p = ToLock \<longrightarrow> to_send c) \<and>
    queue_one (message (send_at p t)) ca = send_rest (send_at p t) c"
  proof cases
    case (ph_queue d u)
    have "u = t" using ph_queue(5) [of t] assms(3) by auto
    moreover have "d = c" using assms(2,4) by (simp add: ph_queue(1) client_at_Inr_iff put_client_def)
    ultimately show ?thesis using ph_queue by blast
  qed (use assms(3) in \<open>simp_all add: no_one_sends_def\<close>)
  then show "shared p = put_client sa i c" "queue_keeps ca c" "m_Mutex c" "u \<noteq> t \<Longrightarrow> send_at p u = NotSending"
    "\<not> in_flush (flush_at p)" "flush_at p = ToLock \<Longrightarrow> to_send c"
    "queue_one (message (send_at p t)) ca = send_rest (send_at p t) c" by blast+
qed

lemma phase_unlocked:
  assumes "phase i p sa ca" and "client_at sa i = Inr ca" and "client_at (shared p) i = Inr c" and "\<not> m_Mutex c"
  shows "shared p = sa" "c = ca" "no_one_sends p" "\<not> in_flush (flush_at p)" "flush_at p = ToLock \<Longrightarrow> to_send ca"
  using assms by (cases, auto simp: client_at_Inr_iff put_client_def)+

lemma phase_flusher:
  assumes "phase i p sa ca" and "in_flush (flush_at p)"
  obtains c where "client_at (shared p) i = Inr c" "m_Mutex c" "no_one_sends p"
    "EndPackSendData sa i = flush_rest (flush_at p) i (shared p)"
  using assms by cases auto

text \<open>One turn of a thread that queues leaves less to do.\<close>

lemma phase_send_goto:
  assumes "phase i p sa ca" and "client_at sa i = Inr ca" and "send_at p t \<noteq> NotSending" and "client_at (shared p) i = Inr c"
    and "queue_keeps c c'" "m_Mutex c' = m_Mutex c" "pc \<noteq> NotSending" "message pc = message (send_at p t)"
    and "send_rest (send_at p t) c = send_rest pc c'"
  shows "phase i (send_goto p i c' t pc) sa ca"
proof -
  note d = phase_sender [OF assms(1-4)]
  have keep: "queue_keeps ca c'" "to_send c \<Longrightarrow> to_send c'" using d(2) assms(5) by (auto simp: queue_keeps_def)
  show ?thesis
    by (rule ph_queue [where c = c' and t = t]) (use d assms keep in \<open>simp_all add: send_goto_def\<close>)
qed

lemma leads_to_goto [simp]:
  "leads_to i s0 (send_goto p i c t pc) sa = leads_to i s0 p sa" "leads_to i s0 (p\<lparr>calls := f\<rparr>) sa = leads_to i s0 p sa"
  by (simp_all add: leads_to_def send_goto_def)

lemma phase_calls [simp]: "phase i (p\<lparr>calls := f\<rparr>) sa ca = phase i p sa ca"
  by (simp add: phase.simps no_one_sends_def)

lemma senders_inv_goto:
  assumes "senders_inv i s0 p" and "send_at p t \<noteq> NotSending" and "client_at (shared p) i = Inr c"
    and "queue_keeps c c'" "m_Mutex c' = m_Mutex c" "pc \<noteq> NotSending" "message pc = message (send_at p t)"
    and "send_rest (send_at p t) c = send_rest pc c'"
  shows "senders_inv i s0 (send_goto p i c' t pc)"
proof -
  from assms(1) obtain sa ca where inv: "leads_to i s0 p sa" "client_at sa i = Inr ca" "\<not> m_Mutex ca" "unat (idx ca) = i"
    "phase i p sa ca" by (auto simp: senders_inv_def)
  show ?thesis
    by (rule senders_invI [OF _ inv(2-4)]) (use inv in \<open>simp_all add: phase_send_goto [OF inv(5,2) assms(2-8)]\<close>)
qed

text \<open>Taking the mutex, by a thread that queues and by the thread that sends.\<close>

lemma inv_send_lock:
  assumes "senders_inv i s0 p" and "send_at p t = NotSending" and "client_at (shared p) i = Inr c" and "lock_client c = Inr c'"
  shows "senders_inv i s0 (send_goto p i c' t (Entered m))"
proof -
  from assms(1) obtain sa ca where inv: "leads_to i s0 p sa" "client_at sa i = Inr ca" "\<not> m_Mutex ca" "unat (idx ca) = i"
    "phase i p sa ca" by (auto simp: senders_inv_def)
  have c: "\<not> m_Mutex c" "c' = c\<lparr>m_Mutex := True\<rparr>" using assms(4) by (auto simp: lock_client_def split: if_splits)
  note u = phase_unlocked [OF inv(5,2) assms(3) c(1)]
  have "phase i (send_goto p i c' t (Entered m)) sa ca"
    by (rule ph_queue [where c = c' and t = t])
      (use u c queue_one_rest [OF inv(3), of m] in \<open>simp_all add: send_goto_def no_one_sends_def to_send_def queue_keeps_def place_def
        del: send_rest.simps\<close>)
  then show ?thesis using senders_invI [OF _ inv(2-4)] inv(1) by simp
qed

lemma inv_flush_lock:
  assumes "senders_inv i s0 p" and "flush_at p = ToLock" and "on_client (shared p) i lock_client = Inr s"
  shows "senders_inv i s0 (p\<lparr>flush_at := ToPack, shared := s\<rparr>)"
proof -
  from assms(1) obtain sa ca where inv: "leads_to i s0 p sa" "client_at sa i = Inr ca" "\<not> m_Mutex ca" "unat (idx ca) = i"
    "phase i p sa ca" by (auto simp: senders_inv_def)
  from assms(3) obtain c c' where c: "client_at (shared p) i = Inr c" "\<not> m_Mutex c" "c' = c\<lparr>m_Mutex := True\<rparr>"
    "s = put_client (shared p) i c'"
    by (auto simp: on_client_def bindR_Inr_iff lock_client_def split: if_splits)
  note u = phase_unlocked [OF inv(5,2) c(1,2)]
  have "client_at s i = Inr c'" using inv(2) by (simp add: c(4) u(1) client_at_Inr_iff put_client_def)
  then have "phase i (p\<lparr>flush_at := ToPack, shared := s\<rparr>) sa ca"
    by (intro ph_flush [where c = c']) (use u c assms EndPackSendData_rest [OF inv(2)] in
      \<open>simp_all add: no_one_sends_def in_flush_def flush_rest_def\<close>)
  moreover have "leads_to i s0 (p\<lparr>flush_at := ToPack, shared := s\<rparr>) sa"
    using inv(1) assms(2) by (simp add: leads_to_def)
  ultimately show ?thesis using senders_invI [OF _ inv(2-4)] by simp
qed

text \<open>A turn of the thread that has the mutex and sends.\<close>

lemma inv_flush_on:
  assumes "senders_inv i s0 p" and "in_flush (flush_at p)" and "in_flush pc"
    and "flush_rest (flush_at p) i (shared p) = flush_rest pc i s"
    and "\<And>c. client_at (shared p) i = Inr c \<Longrightarrow> m_Mutex c \<Longrightarrow> \<exists>c'. client_at s i = Inr c' \<and> m_Mutex c'"
  shows "senders_inv i s0 (p\<lparr>flush_at := pc, shared := s\<rparr>)"
proof -
  from assms(1) obtain sa ca where inv: "leads_to i s0 p sa" "client_at sa i = Inr ca" "\<not> m_Mutex ca" "unat (idx ca) = i"
    "phase i p sa ca" by (auto simp: senders_inv_def)
  obtain c where c: "client_at (shared p) i = Inr c" "m_Mutex c" "no_one_sends p"
    "EndPackSendData sa i = flush_rest (flush_at p) i (shared p)"
    by (rule phase_flusher [OF inv(5) assms(2)])
  from assms(5) [OF c(1,2)] obtain c' where "client_at s i = Inr c'" "m_Mutex c'" by blast
  then have "phase i (p\<lparr>flush_at := pc, shared := s\<rparr>) sa ca"
    by (intro ph_flush [where c = c']) (use c(3,4) assms(3,4) in \<open>simp_all add: no_one_sends_def\<close>)
  moreover have "leads_to i s0 (p\<lparr>flush_at := pc, shared := s\<rparr>) sa"
    using inv(1) assms(2,3) by (auto simp: leads_to_def in_flush_def)
  ultimately show ?thesis using senders_invI [OF _ inv(2-4)] by simp
qed

text \<open>The end of an operation: what was left of it has been done.\<close>

lemma inv_send_unlock:
  assumes "senders_inv i s0 p" and "send_at p t = Leaving m" and "client_at (shared p) i = Inr c"
  shows "senders_inv i s0 ((send_goto p i (unlock_client c) t NotSending)\<lparr>effects := effects p @ [(Some t, Queue m)]\<rparr>)"
    (is "senders_inv i s0 ?p")
proof -
  from assms(1) obtain sa ca where inv: "leads_to i s0 p sa" "client_at sa i = Inr ca" "\<not> m_Mutex ca" "unat (idx ca) = i"
    "phase i p sa ca" by (auto simp: senders_inv_def)
  from assms(2) have "send_at p t \<noteq> NotSending" by simp
  from phase_sender [OF inv(5,2) this assms(3)] assms(2)
  have d: "shared p = put_client sa i c" "queue_keeps ca c" "\<And>u. u \<noteq> t \<Longrightarrow> send_at p u = NotSending"
    "\<not> in_flush (flush_at p)" "flush_at p = ToLock \<Longrightarrow> to_send c" "queue_one m ca = Inr (unlock_client c)"
    by simp_all
  let ?sa = "put_client sa i (unlock_client c)"
  have i: "i < length (s_Client_t sa)" using inv(2) by (simp add: client_at_Inr_iff)
  have run: "channel_do i sa (Queue m) = Inr ?sa" using inv(2) d(6) by (auto simp: do_queue_Inr_iff)
  have "leads_to i s0 ?p ?sa"
  proof (cases "flush_at p = ToConfirm")
    case True
    with inv(1) obtain h ms s1 c1 where h: "map snd (effects p) = h @ Flush # map Queue ms" "foldR (channel_do i) s0 h = Inr s1"
      "client_at s1 i = Inr c1" "unat (idx c1) = i" "\<not> to_send c1" "foldR (channel_do i) s1 (map Queue ms) = Inr sa"
      by (auto simp: leads_to_def)
    have "foldR (channel_do i) s1 (map Queue (ms @ [m])) = Inr ?sa" using h(6) run by (simp add: foldR_append)
    then show ?thesis using True h(1-5) unfolding leads_to_def
      by (simp add: send_goto_def) (intro exI [of _ h] exI [of _ "ms @ [m]"] exI [of _ s1], simp)
  next
    case False
    with inv(1) run show ?thesis by (simp add: leads_to_def send_goto_def foldR_append)
  qed
  moreover have "phase i ?p ?sa (unlock_client c)"
    by (rule ph_rest) (use d assms(2) in \<open>auto simp: send_goto_def no_one_sends_def to_send_def unlock_client_def\<close>)
  moreover have "unat (idx (unlock_client c)) = i" using d(2) inv(4) by (simp add: queue_keeps_def place_def unlock_client_def)
  ultimately show ?thesis using i by (intro senders_invI [of i s0 ?p ?sa]) simp_all
qed

lemma inv_flush_unlock:
  assumes "senders_inv i s0 p" and "flush_at p = ToUnlock" and "on_client (shared p) i (\<lambda>c. Inr (unlock_client c)) = Inr s"
  shows "senders_inv i s0 (p\<lparr>flush_at := Outside, shared := s, effects := effects p @ [(None, Flush)]\<rparr>)"
    (is "senders_inv i s0 ?p")
proof -
  from assms(1) obtain sa ca where inv: "leads_to i s0 p sa" "client_at sa i = Inr ca" "\<not> m_Mutex ca" "unat (idx ca) = i"
    "phase i p sa ca" by (auto simp: senders_inv_def)
  have "in_flush (flush_at p)" by (simp add: assms(2) in_flush_def)
  then obtain c where c: "client_at (shared p) i = Inr c" "no_one_sends p" "EndPackSendData sa i = flush_rest (flush_at p) i (shared p)"
    by (rule phase_flusher [OF inv(5)])
  then have run: "EndPackSendData sa i = Inr s" "s = put_client (shared p) i (unlock_client c)"
    using assms(2,3) by (simp_all add: flush_rest_def unlock_rest_def on_client_def)
  have at: "client_at s i = Inr (unlock_client c)" using c(1) by (simp add: run(2) client_at_Inr_iff put_client_def)
  have "idx (unlock_client c) = idx ca"
    using served_client [OF served_EndPackSendData [OF run(1)], of i] inv(2) at
      served_length [OF served_EndPackSendData [OF run(1)]]
    by (auto simp: client_at_Inr_iff serves_def place_def)
  then have "unat (idx (unlock_client c)) = i" using inv(4) by simp
  moreover have "leads_to i s0 ?p s"
    using inv(1) assms(2) run(1) by (simp add: leads_to_def foldR_append channel_do_def)
  moreover have "phase i ?p s (unlock_client c)"
    by (rule ph_rest) (use c(2) in \<open>simp_all add: no_one_sends_def in_flush_def\<close>)
  ultimately show ?thesis using at by (intro senders_invI [of i s0 ?p s]) simp_all
qed

text \<open>The look at the queue, and the confirmation that follows when there was nothing to send.\<close>

lemma inv_flush_look:
  assumes "senders_inv i s0 p" and "flush_at p = Outside" and "client_at (shared p) i = Inr c" and "to_send c"
  shows "senders_inv i s0 (p\<lparr>flush_at := ToLock\<rparr>)" (is "senders_inv i s0 ?p")
proof -
  from assms(1) obtain sa ca where inv: "leads_to i s0 p sa" "client_at sa i = Inr ca" "\<not> m_Mutex ca" "unat (idx ca) = i"
    "phase i p sa ca" by (auto simp: senders_inv_def)
  from inv(5) have "phase i ?p sa ca"
  proof cases
    case ph_rest
    then show ?thesis using assms inv(2) by (auto intro!: phase.ph_rest simp: no_one_sends_def in_flush_def)
  next
    case (ph_queue d t)
    then have "d = c" using assms(3) inv(2) by (simp add: client_at_Inr_iff put_client_def)
    with ph_queue assms show ?thesis by (auto intro!: phase.ph_queue [where c = c and t = t] simp: in_flush_def)
  next
    case ph_flush
    then show ?thesis using assms(2) by (simp add: in_flush_def)
  qed
  moreover have "leads_to i s0 ?p sa" using inv(1) assms(2) by (simp add: leads_to_def)
  ultimately show ?thesis using senders_invI inv(2-4) by blast
qed

lemma inv_flush_nothing:
  assumes "senders_inv i s0 p" and "flush_at p = Outside" and "client_at (shared p) i = Inr c" and "\<not> to_send c"
  shows "senders_inv i s0 (p\<lparr>flush_at := ToConfirm, effects := effects p @ [(None, Flush)]\<rparr>)" (is "senders_inv i s0 ?p")
proof -
  from assms(1) obtain sa ca where inv: "leads_to i s0 p sa" "client_at sa i = Inr ca" "\<not> m_Mutex ca" "unat (idx ca) = i"
    "phase i p sa ca" by (auto simp: senders_inv_def)
  from inv(5) assms have ph: "\<not> to_send ca \<and> phase i ?p sa ca"
  proof cases
    case ph_rest
    then show ?thesis using assms inv(2) by (auto intro!: phase.ph_rest simp: no_one_sends_def in_flush_def)
  next
    case (ph_queue d t)
    then have "d = c" using assms(3) inv(2) by (simp add: client_at_Inr_iff put_client_def)
    with ph_queue assms(4) show ?thesis
      by (auto intro!: phase.ph_queue [where c = c and t = t] simp: in_flush_def queue_keeps_def)
  next
    case ph_flush
    then show ?thesis using assms(2) by (simp add: in_flush_def)
  qed
  have "leads_to i s0 ?p sa"
    unfolding leads_to_def using inv(1,2,4) ph assms(2)
    by (simp add: leads_to_def) (intro exI [of _ "map snd (effects p)"] exI [of _ "[]"] exI [of _ sa], simp)
  with ph senders_invI [OF _ inv(2-4)] show ?thesis by blast
qed

lemma leads_to_confirm:
  assumes "leads_to i s0 p sa" and "flush_at p = ToConfirm" and "confirm sa i = Inr sa'"
  shows "leads_to i s0 (p\<lparr>flush_at := Outside, shared := s\<rparr>) sa'"
proof -
  from assms(1,2) obtain h ms s1 c1 where h: "map snd (effects p) = h @ Flush # map Queue ms" "foldR (channel_do i) s0 h = Inr s1"
    "client_at s1 i = Inr c1" "unat (idx c1) = i" "\<not> to_send c1" "foldR (channel_do i) s1 (map Queue ms) = Inr sa"
    by (auto simp: leads_to_def)
  from confirm_before_queues [OF h(3,4,6) assms(3)] obtain s2 where
    "confirm s1 i = Inr s2" "foldR (channel_do i) s2 (map Queue ms) = Inr sa'" by blast
  moreover from this have "channel_do i s1 Flush = Inr s2" using EndPackSendData_rest [OF h(3)] h(5) by (simp add: channel_do_def)
  ultimately show ?thesis using h(1,2) by (simp add: leads_to_def foldR_append)
qed

lemma inv_flush_confirm:
  assumes "senders_inv i s0 p" and "flush_at p = ToConfirm" and "confirm (shared p) i = Inr s"
  shows "senders_inv i s0 (p\<lparr>flush_at := Outside, shared := s\<rparr>)" (is "senders_inv i s0 ?p")
proof -
  from assms(1) obtain sa ca where inv: "leads_to i s0 p sa" "client_at sa i = Inr ca" "\<not> m_Mutex ca" "unat (idx ca) = i"
    "phase i p sa ca" by (auto simp: senders_inv_def)
  have i: "i < length (s_Client_t sa)" using inv(2) by (simp add: client_at_Inr_iff)
  have "\<exists>sock k r d. confirm sa i = Inr (put_client (sa\<lparr>net := (net sa)(sock := k)\<rparr>) i (marked r d ca)) \<and>
    phase i ?p (put_client (sa\<lparr>net := (net sa)(sock := k)\<rparr>) i (marked r d ca)) (marked r d ca)"
    using inv(5)
  proof cases
    case ph_rest
    have at: "client_at (shared p) i = Inr ca" using inv(2) ph_rest(1) by simp
    obtain k r d where s: "s = put_client ((shared p)\<lparr>net := (net (shared p))(socket ca := k)\<rparr>) i (marked r d ca)"
      by (rule confirm_Inr [OF at inv(4) assms(3)]) blast
    have ph: "phase i ?p s (marked r d ca)"
      by (rule phase.ph_rest) (use ph_rest in \<open>simp_all add: no_one_sends_def in_flush_def\<close>)
    show ?thesis
      by (rule exI [of _ "socket ca"], rule exI [of _ k], rule exI [of _ r], rule exI [of _ d]) (use ph assms(3) s ph_rest(1) in simp_all)
  next
    case (ph_queue c t)
    have at: "client_at (shared p) i = Inr c" "unat (idx c) = i"
      using i ph_queue(1,2) inv(4) by (simp_all add: queue_keeps_def place_def)
    obtain k r d where s: "s = put_client ((shared p)\<lparr>net := (net (shared p))(socket c := k)\<rparr>) i (marked r d c)"
      and sa: "confirm sa i = Inr (put_client (sa\<lparr>net := (net sa)(socket c := k)\<rparr>) i (marked r d ca))"
      by (rule confirm_Inr [OF at assms(3)]) (use ph_queue(1,2) inv(2) in blast)
    have "queue_one (message (send_at p t)) (marked r d ca) = send_rest (send_at p t) (marked r d c)"
      by (simp add: queue_one_marked send_rest_marked ph_queue(8))
    then have "phase i ?p (put_client (sa\<lparr>net := (net sa)(socket c := k)\<rparr>) i (marked r d ca)) (marked r d ca)"
      by (intro phase.ph_queue [where c = "marked r d c" and t = t])
        (use ph_queue in \<open>simp_all add: s put_client_net queue_keeps_def in_flush_def\<close>)
    with sa show ?thesis by blast
  next
    case ph_flush
    then show ?thesis using assms(2) by (simp add: in_flush_def)
  qed
  then obtain sock k r d where sa: "confirm sa i = Inr (put_client (sa\<lparr>net := (net sa)(sock := k)\<rparr>) i (marked r d ca))"
    "phase i ?p (put_client (sa\<lparr>net := (net sa)(sock := k)\<rparr>) i (marked r d ca)) (marked r d ca)" by blast
  show ?thesis
    by (rule senders_invI [OF leads_to_confirm [OF inv(1) assms(2) sa(1)] _ _ _ sa(2)]) (use i inv(3,4) in simp_all)
qed

section \<open>Every interleaving is a sequence of operations\<close>

lemma clear_queue_mutex [simp]: "m_Mutex (clear_queue c) = m_Mutex c"
  by (simp add: clear_queue_def)

lemma write_packet_keeps:
  assumes "write_packet s i = Inr s'" and "client_at s i = Inr c" and "m_Mutex c"
  shows "\<exists>c'. client_at s' i = Inr c' \<and> m_Mutex c'"
  using assms by (auto simp: write_packet_def WriteTo_client_def go_offline_def on_client_def bindR_Inr_iff client_at_Inr_iff
      put_client_def split: if_splits)

lemma on_client_mutex:
  assumes "on_client s i f = Inr s'" and "client_at s i = Inr c" and "m_Mutex c" and "\<And>c'. f c = Inr c' \<Longrightarrow> m_Mutex c'"
  shows "\<exists>c'. client_at s' i = Inr c' \<and> m_Mutex c'"
  using assms by (auto simp: on_client_def bindR_Inr_iff client_at_Inr_iff put_client_def)

lemma SendData_step_inv:
  assumes "SendData_step i p p'" and "senders_inv i s0 p"
  shows "senders_inv i s0 p'"
  using assms
proof cases
  case (send_lock t c c' m)
  have "senders_inv i s0 (send_goto p i c' t (Entered m))" by (rule inv_send_lock [OF assms(2) send_lock(2-4)])
  then show ?thesis unfolding send_lock(1) by (simp add: senders_inv_def)
next
  case (send_look t m c)
  show ?thesis unfolding send_look(1)
    by (rule senders_inv_goto [OF assms(2) _ send_look(3)]) (auto simp: send_look(2))
next
  case (send_block t m off fill c n c')
  note k = SendData_block_keeps [OF send_block(6)]
  have "send_rest (Filling m off fill) c = send_rest (if int (STAR_CLIENT_DEFAULT_MAX_BLOCK - 2) \<le> sendCount c' then Filled m
      else Filling m (off + n) (fill - n)) c'"
    using SendData_loop_step [OF send_block(3,5), of c m off] send_block(6) by simp
  then show ?thesis unfolding send_block(1)
    by (intro senders_inv_goto [OF assms(2) _ send_block(4)]) (use k in \<open>auto simp: send_block(2)\<close>)
next
  case (send_filled t m off c)
  show ?thesis unfolding send_filled(1)
    by (rule senders_inv_goto [OF assms(2) _ send_filled(3)]) (auto simp: send_filled(2))
next
  case (send_count t m c)
  show ?thesis unfolding send_count(1)
    by (rule senders_inv_goto [OF assms(2) _ send_count(3)]) (auto simp: send_count(2) count_and_unlock_def)
next
  case (send_unlock t m c)
  show ?thesis unfolding send_unlock(1) by (rule inv_send_unlock [OF assms(2) send_unlock(2,3)])
qed

lemma EndPack_step_inv:
  assumes "EndPack_step i p p'" and "senders_inv i s0 p"
  shows "senders_inv i s0 p'"
  using assms
proof cases
  case (flush_look c)
  show ?thesis unfolding flush_look(1) by (rule inv_flush_look [OF assms(2) flush_look(2-4)])
next
  case (flush_nothing c)
  show ?thesis unfolding flush_nothing(1) by (rule inv_flush_nothing [OF assms(2) flush_nothing(2-4)])
next
  case (flush_confirm s)
  show ?thesis unfolding flush_confirm(1) by (rule inv_flush_confirm [OF assms(2) flush_confirm(2,3)])
next
  case (flush_lock s)
  show ?thesis unfolding flush_lock(1) by (rule inv_flush_lock [OF assms(2) flush_lock(2,3)])
next
  case (flush_pack s)
  show ?thesis unfolding flush_pack(1)
    by (rule inv_flush_on [OF assms(2)])
      (auto simp: flush_pack(2,3) in_flush_def flush_rest_def pack_rest_def pack_keeps_def
        intro: on_client_mutex [OF flush_pack(3)] dest!: keeps_packForSending)
next
  case (flush_write s)
  show ?thesis unfolding flush_write(1)
    by (rule inv_flush_on [OF assms(2)])
      (auto simp: flush_write(2,3) in_flush_def flush_rest_def write_rest_def dest: write_packet_keeps [OF flush_write(3)])
next
  case (flush_clear s)
  show ?thesis unfolding flush_clear(1)
    by (rule inv_flush_on [OF assms(2)])
      (auto simp: flush_clear(2,3) in_flush_def flush_rest_def clear_rest_def
        intro: on_client_mutex [OF flush_clear(3)])
next
  case (flush_unlock s)
  show ?thesis unfolding flush_unlock(1) by (rule inv_flush_unlock [OF assms(2) flush_unlock(2,3)])
qed

lemma senders_inv_step: "send_step i p p' \<Longrightarrow> senders_inv i s0 p \<Longrightarrow> senders_inv i s0 p'"
  by (auto simp: send_step_def intro: SendData_step_inv EndPack_step_inv)

lemma senders_inv_start:
  assumes "client_at s0 i = Inr c" and "\<not> m_Mutex c" and "unat (idx c) = i"
  shows "senders_inv i s0 (no_senders s0)"
proof (rule senders_invI [OF _ assms])
  show "leads_to i s0 (no_senders s0) s0" by (simp add: leads_to_def no_senders_def)
  show "phase i (no_senders s0) s0 c" by (rule ph_rest) (simp_all add: no_senders_def no_one_sends_def in_flush_def)
qed

lemma senders_inv_run:
  assumes "(send_step i)\<^sup>*\<^sup>* (no_senders s0) p" and "client_at s0 i = Inr c" and "\<not> m_Mutex c" and "unat (idx c) = i"
  shows "senders_inv i s0 p"
  using assms(1) by (induction rule: rtranclp_induct) (auto intro: senders_inv_start [OF assms(2-4)] senders_inv_step)

text \<open>Each thread's messages take effect in the order in which it sends them, every one once.\<close>

definition queued_by :: "nat \<Rightarrow> (nat option \<times> channel_op) list \<Rightarrow> u8 list list" where
  "queued_by t es = messages (map snd (filter (\<lambda>e. fst e = Some t) es))"

lemma messages_append: "messages (xs @ ys) = messages xs @ messages ys"
  by (induction xs rule: messages.induct) simp_all

lemma queued_by_snoc:
  "queued_by t (es @ [(None, x)]) = queued_by t es"
  "queued_by t (es @ [(Some u, Queue m)]) = (if u = t then queued_by t es @ [m] else queued_by t es)"
  by (simp_all add: queued_by_def messages_append)

definition calls_match :: "senders \<Rightarrow> bool" where
  "calls_match p \<longleftrightarrow> (\<forall>t. calls p t = queued_by t (effects p) @ (if send_at p t = NotSending then [] else [message (send_at p t)]))"

lemma calls_match_step: "send_step i p p' \<Longrightarrow> calls_match p \<Longrightarrow> calls_match p'"
  unfolding send_step_def
  by (elim disjE SendData_step.cases EndPack_step.cases) (auto simp: calls_match_def send_goto_def queued_by_snoc)

lemma calls_match_run: "(send_step i)\<^sup>*\<^sup>* (no_senders s0) p \<Longrightarrow> calls_match p"
  by (induction rule: rtranclp_induct)
    (auto intro: calls_match_step, simp add: calls_match_def no_senders_def queued_by_def)

text \<open>A thread inside \<open>STSV_SendData\<close> has the mutex, and its next statement can be executed.\<close>

lemma queue_one_total:
  assumes "wf_client c" and "\<not> m_Mutex c"
  shows "\<exists>c'. queue_one m c = Inr c' \<and> wf_client c'"
proof -
  have "unat (of_nat (length m) :: u32) \<le> length m" by (simp add: unat_of_nat)
  from SendData_queues [OF assms this, of 0] show ?thesis by (auto simp: queue_one_def)
qed

lemma channel_do_wf:
  assumes "channel_do i s x = Inr s'" and "\<exists>c. client_at s i = Inr c \<and> wf_client c"
  shows "\<exists>c. client_at s' i = Inr c \<and> wf_client c"
proof (cases x)
  case (Queue m)
  with assms obtain c c' where c: "client_at s i = Inr c" "wf_client c" "queue_one m c = Inr c'" "s' = put_client s i c'"
    by (auto simp: do_queue_Inr_iff)
  then have "\<not> m_Mutex c" by (auto simp: queue_one_locked)
  with c(3) queue_one_total [OF c(2) this, of m] have "wf_client c'" by auto
  then show ?thesis using c(1,4) by (simp add: client_at_Inr_iff put_client_def)
next
  case Flush
  with assms(1) have "served s s'" by (simp add: channel_do_def served_EndPackSendData)
  from served_client [OF this, of i] served_length [OF this] assms(2) show ?thesis
    by (auto simp: client_at_Inr_iff serves_def)
qed

lemma leads_to_wf:
  assumes "leads_to i s0 p sa" and "client_at s0 i = Inr c" and "wf_client c"
  shows "\<exists>c. client_at sa i = Inr c \<and> wf_client c"
proof -
  have "foldR (channel_do i) s0 h = Inr s1 \<Longrightarrow> foldR (channel_do i) s1 xs = Inr sa \<Longrightarrow>
      foldR (channel_do i) s0 (h @ xs) = Inr sa" for h xs s1
    by (simp add: foldR_append)
  with assms(1) have "\<exists>xs. foldR (channel_do i) s0 xs = Inr sa"
    unfolding leads_to_def by (auto split: if_splits; blast)
  then obtain xs where xs: "foldR (channel_do i) s0 xs = Inr sa" by blast
  show ?thesis
    by (rule foldR_invariant [where I = "\<lambda>s. \<exists>c. client_at s i = Inr c \<and> wf_client c", OF channel_do_wf xs])
      (use assms(2,3) in blast)+
qed

primrec send_rank :: "send_pc \<Rightarrow> nat" where
  "send_rank NotSending = 0"
| "send_rank (Entered m) = data_size m + 4"
| "send_rank (Filling m off fill) = fill + 3"
| "send_rank (Filled m) = 2"
| "send_rank (Leaving m) = 1"

text \<open>One more statement of thread \<open>t\<close>; at the last one the message takes effect.\<close>

definition sends_on :: "nat \<Rightarrow> senders \<Rightarrow> senders \<Rightarrow> bool" where
  "sends_on t p p' \<longleftrightarrow> send_rank (send_at p' t) < send_rank (send_at p t) \<and> flush_at p' = flush_at p \<and>
     (\<forall>u. u \<noteq> t \<longrightarrow> send_at p' u = send_at p u) \<and>
     (if send_at p' t = NotSending then effects p' = effects p @ [(Some t, Queue (message (send_at p t)))]
      else effects p' = effects p \<and> message (send_at p' t) = message (send_at p t))"

lemma sends_on_goto:
  "send_rank pc < send_rank (send_at p t) \<Longrightarrow> pc \<noteq> NotSending \<Longrightarrow> message pc = message (send_at p t) \<Longrightarrow>
    sends_on t p (send_goto p i c t pc)"
  by (simp add: sends_on_def send_goto_def)

lemma sender_goes_on:
  assumes "senders_inv i s0 p" and "client_at s0 i = Inr c0" and "wf_client c0" and "send_at p t \<noteq> NotSending"
  shows "\<exists>p'. send_step i p p' \<and> sends_on t p p'"
proof -
  from assms(1) obtain sa ca where inv: "leads_to i s0 p sa" "client_at sa i = Inr ca" "\<not> m_Mutex ca" "phase i p sa ca"
    by (auto simp: senders_inv_def)
  from inv(4) assms(4) obtain c where "shared p = put_client sa i c" by cases (auto simp: no_one_sends_def)
  then have c: "client_at (shared p) i = Inr c" using inv(2) by (simp add: client_at_Inr_iff put_client_def)
  have "wf_client ca" using leads_to_wf [OF inv(1) assms(2,3)] inv(2) by auto
  from queue_one_total [OF this inv(3)] phase_sender(7) [OF inv(4,2) assms(4) c]
  obtain c' where rest: "send_rest (send_at p t) c = Inr c'" by metis
  show ?thesis
  proof (cases "send_at p t")
    case NotSending
    then show ?thesis using assms(4) by simp
  next
    case (Entered m)
    show ?thesis by (rule exI, rule conjI [OF send_stepI(1) [OF send_look [OF Entered c]]], rule sends_on_goto) (simp_all add: Entered)
  next
    case (Filling m off fill)
    show ?thesis
    proof (cases "fill = 0")
      case True
      with Filling have at: "send_at p t = Filling m off 0" by simp
      show ?thesis by (rule exI, rule conjI [OF send_stepI(1) [OF send_filled [OF at c]]], rule sends_on_goto) (simp_all add: at)
    next
      case False
      define n where "n = (if fill \<le> STAR_CLIENT_DEFAULT_BUFFER then fill else STAR_CLIENT_DEFAULT_BUFFER)"
      have n: "0 < n" using False by (simp add: n_def block_defs)
      obtain c1 where c1: "SendData_block c m off n = Inr c1"
        using rest SendData_loop_step [OF False n_def, of c m off] by (auto simp: Filling bindR_Inr_iff)
      show ?thesis
        by (rule exI, rule conjI [OF send_stepI(1) [OF send_block [OF Filling False c n_def c1]]], rule sends_on_goto)
          (use n False in \<open>simp_all add: Filling\<close>)
    qed
  next
    case (Filled m)
    show ?thesis by (rule exI, rule conjI [OF send_stepI(1) [OF send_count [OF Filled c]]], rule sends_on_goto) (simp_all add: Filled)
  next
    case (Leaving m)
    show ?thesis by (rule exI, rule conjI [OF send_stepI(1) [OF send_unlock [OF Leaving c]]]) (simp add: sends_on_def send_goto_def Leaving)
  qed
qed

text \<open>So it can be left to finish, without the help of another thread.\<close>

lemma sender_finishes:
  assumes "senders_inv i s0 p" and "client_at s0 i = Inr c0" and "wf_client c0" and "send_at p t \<noteq> NotSending"
  shows "\<exists>p'. (send_step i)\<^sup>*\<^sup>* p p' \<and> send_at p' t = NotSending \<and> flush_at p' = flush_at p \<and>
    (\<forall>u. u \<noteq> t \<longrightarrow> send_at p' u = send_at p u) \<and> effects p' = effects p @ [(Some t, Queue (message (send_at p t)))]"
  using assms(1,4)
proof (induction "send_rank (send_at p t)" arbitrary: p rule: less_induct)
  case less
  obtain p1 where p1: "send_step i p p1" "sends_on t p p1"
    using sender_goes_on [OF less.prems(1) assms(2,3) less.prems(2)] by blast
  show ?case
  proof (cases "send_at p1 t = NotSending")
    case True
    with p1 show ?thesis by (auto simp: sends_on_def)
  next
    case False
    from less.hyps [OF _ senders_inv_step [OF p1(1) less.prems(1)] False] p1(2) obtain p' where
      "(send_step i)\<^sup>*\<^sup>* p1 p'" "send_at p' t = NotSending" "flush_at p' = flush_at p1"
      "\<forall>u. u \<noteq> t \<longrightarrow> send_at p' u = send_at p1 u" "effects p' = effects p1 @ [(Some t, Queue (message (send_at p1 t)))]"
      by (auto simp: sends_on_def)
    with p1 False show ?thesis
      by (intro exI [of _ p']) (auto simp: sends_on_def intro: converse_rtranclp_into_rtranclp)
  qed
qed

lemma at_rest_runs:
  assumes "senders_inv i s0 p" and "at_rest p"
  shows "foldR (channel_do i) s0 (map snd (effects p)) = Inr (shared p)"
proof -
  from assms(1) obtain sa ca where sa: "leads_to i s0 p sa" "phase i p sa ca" by (auto simp: senders_inv_def)
  from sa(2,1) assms(2) show ?thesis by cases (auto simp: at_rest_def leads_to_def in_flush_def)
qed

text \<open>So the channel of Star_Channel is what interleaved threads see of it.\<close>

lemma interleaved_channel:
  assumes "(send_step i)\<^sup>*\<^sup>* (no_senders s0) p" and "at_rest p" and "ops = map snd (effects p)"
    and "holds_queue s0 i c q" and "open_channel s0" and "channel_room q ops"
    and "channel_spec q ops = (groups, rest)" and "wire = concat (map (answer (packRef c)) groups)"
    and "0 \<notin> set (tx (net s0 (socket c)))" and "length wire \<le> progress (tx (net s0 (socket c)))"
  shows "\<exists>c'. holds_queue (shared p) i c' rest \<and> sent (net (shared p) (socket c)) = sent (net s0 (socket c)) @ wire \<and>
    concat groups @ rest = q @ messages ops"
proof -
  note H = holds_queueD [OF assms(4)]
  from at_rest_runs [OF senders_inv_run [OF assms(1) H(1,3,4)] assms(2)]
  have "foldR (channel_do i) s0 ops = Inr (shared p)" by (simp add: assms(3))
  with channel_run [OF assms(4-10)] channel_spec_fifo [OF assms(7)] show ?thesis by auto
qed

text \<open>
  C4: any number of threads queue messages for one client while its own thread sends, statement by statement
  interleaved in any way. The mutex lets one of them at a time into the critical section, and a thread inside
  \<open>STSV_SendData\<close> can always finish on its own, with its message queued. Whenever all are outside, the state is the one that the whole operations lead to,
  one after the other in the order in which they took effect, and every message a thread has sent is among
  them, once, in the order of that thread. This holds although \<open>EndPackSendData\<close> looks at the queue without the
  lock and sends the confirmation without it.
\<close>

theorem interleaved_sends:
  assumes "(send_step i)\<^sup>*\<^sup>* (no_senders s0) p"
    and "client_at s0 i = Inr c" and "wf_client c" and "\<not> m_Mutex c" and "unat (idx c) = i"
  shows "(at_rest p \<longrightarrow> foldR (channel_do i) s0 (map snd (effects p)) = Inr (shared p) \<and>
       (\<forall>t. queued_by t (effects p) = calls p t)) \<and>
     (\<forall>t. send_at p t \<noteq> NotSending \<longrightarrow> (\<forall>u. send_at p u \<noteq> NotSending \<longrightarrow> u = t) \<and> \<not> in_flush (flush_at p) \<and>
       (\<exists>p'. (send_step i)\<^sup>*\<^sup>* p p' \<and> send_at p' t = NotSending \<and>
         effects p' = effects p @ [(Some t, Queue (message (send_at p t)))]))"
proof (intro conjI impI allI)
  note inv = senders_inv_run [OF assms(1,2,4,5)]
  from inv obtain sa ca where sa: "leads_to i s0 p sa" "client_at sa i = Inr ca" "phase i p sa ca"
    by (auto simp: senders_inv_def)
  show "foldR (channel_do i) s0 (map snd (effects p)) = Inr (shared p)" if "at_rest p"
    by (rule at_rest_runs [OF inv that])
  show "queued_by t (effects p) = calls p t" if "at_rest p" for t
    using calls_match_run [OF assms(1)] that by (simp add: calls_match_def at_rest_def)
  fix t assume t: "send_at p t \<noteq> NotSending"
  from sa(3) t show "\<not> in_flush (flush_at p)" by cases (auto simp: no_one_sends_def)
  from sa(3) t show "u = t" if "send_at p u \<noteq> NotSending" for u
    using that by cases (auto simp: no_one_sends_def, metis)
  from sender_finishes [OF inv assms(2,3) t]
  show "\<exists>p'. (send_step i)\<^sup>*\<^sup>* p p' \<and> send_at p' t = NotSending \<and>
      effects p' = effects p @ [(Some t, Queue (message (send_at p t)))]" by blast
qed

section \<open>A retransmission in between\<close>

text \<open>
  \<open>processRetrasmit\<close> takes no lock: it may read the send buffer while other threads are inside \<open>STSV_SendData\<close>.
  Whatever they have copied by then, the first two kilobytes are those of the last packet.
\<close>

definition blocks_in_place :: "Client_t \<Rightarrow> bool" where
  "blocks_in_place c \<longleftrightarrow> (\<forall>j < 62. sendBufferMSG c ! j = Some (block_at j)) \<and> 0 \<le> sendCount c"

definition copying :: "send_pc \<Rightarrow> bool" where
  "copying pc \<longleftrightarrow> (\<exists>m off fill. pc = Filling m off fill \<and> fill \<noteq> 0)"

definition one_copies :: "senders \<Rightarrow> Client_t \<Rightarrow> bool" where
  "one_copies p c \<longleftrightarrow> no_one_sends p \<or>
     (\<exists>t. m_Mutex c \<and> (\<forall>u. u \<noteq> t \<longrightarrow> send_at p u = NotSending) \<and> send_at p t \<noteq> NotSending \<and>
       (copying (send_at p t) \<longrightarrow> sendCount c < 62))"

lemma one_copiesD:
  assumes "one_copies p c" and "send_at p t \<noteq> NotSending"
  shows "m_Mutex c" "u \<noteq> t \<Longrightarrow> send_at p u = NotSending" "copying (send_at p t) \<Longrightarrow> sendCount c < 62"
proof -
  from assms obtain v where "m_Mutex c" "\<forall>u. u \<noteq> v \<longrightarrow> send_at p u = NotSending" "copying (send_at p v) \<longrightarrow> sendCount c < 62"
    by (auto simp: one_copies_def no_one_sends_def)
  moreover from this assms(2) have "v = t" by metis
  ultimately show "m_Mutex c" "u \<noteq> t \<Longrightarrow> send_at p u = NotSending" "copying (send_at p t) \<Longrightarrow> sendCount c < 62" by auto
qed

definition same_front :: "senders \<Rightarrow> Client_t \<Rightarrow> nat \<Rightarrow> senders \<Rightarrow> bool" where
  "same_front p c i p' \<longleftrightarrow> (\<exists>c'. client_at (shared p') i = Inr c' \<and> blocks_in_place c' \<and> one_copies p' c' \<and>
     load (sendBuffer c') 0 2048 = load (sendBuffer c) 0 2048 \<and> sendDataSize c' = sendDataSize c \<and> net (shared p') = net (shared p))"

lemma same_front_goto:
  assumes "client_at (shared p) i = Inr c" and "blocks_in_place c'" and "\<And>u. u \<noteq> t \<Longrightarrow> send_at p u = NotSending"
    and "pc \<noteq> NotSending \<Longrightarrow> m_Mutex c'" and "copying pc \<Longrightarrow> sendCount c' < 62"
    and "load (sendBuffer c') 0 2048 = load (sendBuffer c) 0 2048" and "sendDataSize c' = sendDataSize c"
  shows "same_front p c i (send_goto p i c' t pc)"
proof -
  have "client_at (shared (send_goto p i c' t pc)) i = Inr c'"
    using assms(1) by (simp add: send_goto_def client_at_Inr_iff put_client_def)
  moreover have "one_copies (send_goto p i c' t pc) c'"
    using assms(3-5) by (cases "pc = NotSending") (auto simp: one_copies_def no_one_sends_def send_goto_def)
  ultimately show ?thesis using assms(2,6,7) by (simp add: same_front_def send_goto_def)
qed

text \<open>The same for a thread that is already inside.\<close>

lemma same_front_turn:
  assumes "client_at (shared p) i = Inr c" and "one_copies p c" and "send_at p t \<noteq> NotSending" and "blocks_in_place c'"
    and "pc \<noteq> NotSending \<Longrightarrow> m_Mutex c' = m_Mutex c" and "copying pc \<Longrightarrow> sendCount c' < 62"
    and "load (sendBuffer c') 0 2048 = load (sendBuffer c) 0 2048" and "sendDataSize c' = sendDataSize c"
  shows "same_front p c i (send_goto p i c' t pc)"
  by (rule same_front_goto [OF assms(1)]) (use assms one_copiesD [OF assms(2,3)] in auto)

lemma same_front_ghosts [simp]:
  "same_front p c i (p'\<lparr>calls := f\<rparr>) = same_front p c i p'" "same_front p c i (p'\<lparr>effects := es\<rparr>) = same_front p c i p'"
  by (simp_all add: same_front_def one_copies_def no_one_sends_def)

lemma copying_simps [simp]:
  "copying (Filling m off fill) = (fill \<noteq> 0)" "\<not> copying (Entered m)" "\<not> copying (Filled m)" "\<not> copying (Leaving m)"
  "\<not> copying NotSending"
  by (simp_all add: copying_def)

lemma blocks_in_place_simps [simp]:
  "blocks_in_place (c\<lparr>m_Mutex := b\<rparr>) = blocks_in_place c" "blocks_in_place (c\<lparr>curPacketNo := k\<rparr>) = blocks_in_place c"
  by (simp_all add: blocks_in_place_def)

lemma SendData_step_front:
  assumes "SendData_step i p p'" and "client_at (shared p) i = Inr c" and "blocks_in_place c" and "one_copies p c"
  shows "same_front p c i p'"
  using assms(1)
proof cases
  case (send_lock t d c' m)
  then have [simp]: "d = c" and c': "\<not> m_Mutex c" "c' = c\<lparr>m_Mutex := True\<rparr>"
    using assms(2) by (auto simp: lock_client_def split: if_splits)
  show ?thesis unfolding send_lock(1) same_front_ghosts
    by (rule same_front_goto [OF assms(2)]) (use assms(3,4) c' in \<open>auto simp: one_copies_def no_one_sends_def\<close>)
next
  case (send_look t m d)
  then show ?thesis unfolding send_look(1)
    using assms(2,3) by (intro same_front_turn [OF assms(2,4)]) (auto simp: block_defs split: if_splits)
next
  case (send_block t m off fill d n c')
  then have [simp]: "d = c" and "send_at p t \<noteq> NotSending" using assms(2) by simp_all
  with one_copiesD(3) [OF assms(4), of t] send_block(2,3) have "sendCount c < 62" by simp
  with SendData_block_front [of c m off n c'] send_block(6) assms(3)
  have f: "load (sendBuffer c') 0 2048 = load (sendBuffer c) 0 2048" "sendBufferMSG c' = sendBufferMSG c"
    "sendCount c' = sendCount c + 1" "sendDataSize c' = sendDataSize c"
    by (simp_all add: blocks_in_place_def)
  then show ?thesis unfolding send_block(1)
    using SendData_block_keeps [OF send_block(6)] assms(3) send_block(2)
    by (intro same_front_turn [OF assms(2,4)]) (auto simp: blocks_in_place_def block_defs split: if_splits)
next
  case (send_filled t m off d)
  then show ?thesis unfolding send_filled(1)
    using assms(2,3) by (intro same_front_turn [OF assms(2,4)]) auto
next
  case (send_count t m d)
  then show ?thesis unfolding send_count(1)
    using assms(2,3) by (intro same_front_turn [OF assms(2,4)]) auto
next
  case (send_unlock t m d)
  then show ?thesis unfolding send_unlock(1) same_front_ghosts
    using assms(2,3) by (intro same_front_turn [OF assms(2,4)]) (auto simp: unlock_client_def)
qed

lemma retransmission_in_between:
  assumes "(SendData_step i)\<^sup>*\<^sup>* p p'" and "no_one_sends p" and "client_at (shared p) i = Inr c" and "wf_client c"
    and "load (sendBuffer c) 0 (sendDataSize c) = Inr P" and "length P \<le> 2048"
  shows "\<exists>c'. client_at (shared p') i = Inr c' \<and> load (sendBuffer c') 0 (sendDataSize c') = Inr P"
proof -
  have "same_front p c i p'"
    using assms(1)
  proof (induction rule: rtranclp_induct)
    case base
    then show ?case using assms(2-4) by (simp add: same_front_def one_copies_def blocks_in_place_def wf_client_def)
  next
    case (step q r)
    then obtain d where d: "client_at (shared q) i = Inr d" "blocks_in_place d" "one_copies q d"
      "load (sendBuffer d) 0 2048 = load (sendBuffer c) 0 2048" "sendDataSize d = sendDataSize c" "net (shared q) = net (shared p)"
      by (auto simp: same_front_def)
    from SendData_step_front [OF step.hyps(2) d(1-3)] d(4-6) show ?case by (simp add: same_front_def)
  qed
  then obtain c' where c': "client_at (shared p') i = Inr c'" "load (sendBuffer c') 0 2048 = load (sendBuffer c) 0 2048"
    "sendDataSize c' = sendDataSize c" by (auto simp: same_front_def)
  have len: "sendDataSize c \<le> 2048" using assms(5,6) by (auto dest: load_length)
  have "2048 \<le> length (sendBuffer c)" using assms(4) by (simp add: wf_client_def)
  then obtain front where f: "load (sendBuffer c) 0 2048 = Inr front" by (auto simp: load_def)
  have "load (sendBuffer c') 0 (sendDataSize c) = load (sendBuffer c) 0 (sendDataSize c)"
    using load_prefix [OF f len] load_prefix [of "sendBuffer c'" 0 2048 front, OF _ len] c'(2) f by simp
  with c' assms(5) show ?thesis by auto
qed

section \<open>A run\<close>

text \<open>
  A thread queues a byte while the client's thread looks, sees nothing and confirms: the confirmation takes effect first.
\<close>

lemma wit_interleaved:
  "\<exists>p. (send_step 0)\<^sup>*\<^sup>* (no_senders (wit_channel 12)) p \<and> at_rest p \<and> effects p = [(None, Flush), (Some 0, Queue [1])]"
proof -
  let ?s = "wit_channel 12" and ?c = "fresh_client 65536"
  note H = holds_queueD [OF wit_channel_facts(1) [of 12]]
  define c where "c = ?c\<lparr>m_Mutex := True\<rparr>"
  have c: "\<not> to_send c" "unat (idx c) = 0" "lock_client ?c = Inr c"
    using H(3,4) by (simp_all add: c_def to_send_def lock_client_def) (simp add: fresh_client_def init_sendBufferMSG_def)
  define p1 where "p1 = (send_goto (no_senders ?s) 0 c 0 (Entered [1]))\<lparr>calls := (\<lambda>_. [])(0 := [[1]])\<rparr>"
  have p1: "shared p1 = put_client ?s 0 c" "send_at p1 = (\<lambda>_. NotSending)(0 := Entered [1])" "flush_at p1 = Outside" "effects p1 = []"
    by (simp_all add: p1_def send_goto_def no_senders_def)
  define p2 where "p2 = p1\<lparr>flush_at := ToConfirm, effects := [(None, Flush)]\<rparr>"
  have at: "client_at (put_client ?s 0 c) 0 = Inr c" using H(9) by simp
  obtain k where "SendConfirmMessage (put_client ?s 0 c) 0 (packRef c) = Inr ((put_client ?s 0 c)\<lparr>net := (net ?s)(socket c := k)\<rparr>)"
    using SendConfirm_sends [OF at, of "packRef c"] open_channelD(1) [OF wit_channel_facts(2)] wit_channel_facts(3,4) by auto
  then have conf: "confirm (put_client ?s 0 c) 0 = Inr ((put_client ?s 0 c)\<lparr>net := (net ?s)(socket c := k)\<rparr>)"
    using open_channelD(2) [OF wit_channel_facts(2)] by (simp add: confirm_def at c(2))
  define p3 where "p3 = p2\<lparr>flush_at := Outside, shared := (put_client ?s 0 c)\<lparr>net := (net ?s)(socket c := k)\<rparr>\<rparr>"
  have "send_step 0 (no_senders ?s) p1"
    using send_lock [THEN send_stepI(1), of "no_senders ?s" 0 0 ?c c "[1]"] H(1) c(3) by (simp add: p1_def no_senders_def)
  moreover have "send_step 0 p1 p2"
    using flush_nothing [THEN send_stepI(2), of p1 0 c] p1 at c(1) by (simp add: p2_def)
  moreover have "send_step 0 p2 p3"
    using flush_confirm [THEN send_stepI(2), of p2 0] conf by (simp add: p2_def p3_def p1)
  ultimately have run: "(send_step 0)\<^sup>*\<^sup>* (no_senders ?s) p3" by simp
  have p3: "send_at p3 = (\<lambda>_. NotSending)(0 := Entered [1])" "flush_at p3 = Outside" "effects p3 = [(None, Flush)]"
    by (simp_all add: p3_def p2_def p1)
  have "send_at p3 0 \<noteq> NotSending" by (simp add: p3)
  from sender_finishes [OF senders_inv_run [OF run H(1,3,4)] H(1,2) this] obtain p where
    "(send_step 0)\<^sup>*\<^sup>* p3 p" "send_at p 0 = NotSending" "flush_at p = Outside" "\<forall>u. u \<noteq> 0 \<longrightarrow> send_at p u = NotSending"
    "effects p = [(None, Flush), (Some 0, Queue [1])]"
    by (auto simp: p3)
  moreover from this have "at_rest p" by (metis at_rest_def)
  ultimately show ?thesis using run by (intro exI [of _ p]) simp
qed

theorem interleaved_sends_witness:
  "\<exists>p. (send_step 0)\<^sup>*\<^sup>* (no_senders (wit_channel 12)) p \<and> at_rest p \<and> calls p 0 = [[1]] \<and>
     foldR (channel_do 0) (wit_channel 12) [Flush, Queue [1]] = Inr (shared p)"
proof -
  obtain p where p: "(send_step 0)\<^sup>*\<^sup>* (no_senders (wit_channel 12)) p" "at_rest p" "effects p = [(None, Flush), (Some 0, Queue [1])]"
    using wit_interleaved by blast
  note H = holds_queueD [OF wit_channel_facts(1) [of 12]]
  have "queued_by 0 (effects p) = [[1]]" by (simp add: p(3) queued_by_def)
  with interleaved_sends [OF p(1) H(1-4)] p have "calls p 0 = [[1]]"
    "foldR (channel_do 0) (wit_channel 12) [Flush, Queue [1]] = Inr (shared p)" by auto
  with p(1,2) show ?thesis by blast
qed

end
