(* ===== verification/Star_Session.thy ===== *)
theory Star_Session
  imports Star_Channel
begin

text \<open>
  The conversation with one client: its requests come over the connection one after the other, the thread
  of the client receives each, hands its messages to the callback of the program, and sends what the callback
  queued. The callback is a parameter: what is used of it is that it queues the replies to the messages received.
\<close>

section \<open>Callbacks that answer\<close>

text \<open>The messages of the last packet, read with the operations of the library.\<close>

definition receive_one :: "server \<Rightarrow> nat \<Rightarrow> u8 list list \<Rightarrow> nat \<Rightarrow> u8 list list result" where
  "receive_one s i ms j =
     bindR (client_at s i) (\<lambda>c.
     bindR (STSV_GetData (s_Client_t s) (int i) (int j)) (\<lambda>(buffer, size). case buffer of
       None \<Rightarrow> Inl NullDeref
     | Some a \<Rightarrow> bindR (load (recvBuffer c) a (unat size)) (\<lambda>m. Inr (ms @ [m]))))"

definition received :: "server \<Rightarrow> nat \<Rightarrow> u8 list list result" where
  "received s i = bindR (STSV_GetDataCount (s_Client_t s) (int i)) (\<lambda>n. foldR (receive_one s i) [] [0..<nat n])"

definition reply_request :: "(u8 list list \<Rightarrow> u8 list list) \<Rightarrow> server \<Rightarrow> nat \<Rightarrow> server result" where
  "reply_request f s i = bindR (received s i) (\<lambda>ms. foldR (channel_do i) s (map Queue (f ms)))"

text \<open>A program whose request callback queues \<open>f ms\<close> when the messages \<open>ms\<close> have come.\<close>

definition replies :: "callbacks \<Rightarrow> nat \<Rightarrow> (u8 list list \<Rightarrow> u8 list list) \<Rightarrow> bool" where
  "replies cb i f \<longleftrightarrow> (\<forall>s c ms. client_at s i = Inr c \<and> unat (idx c) = i \<and> received s i = Inr ms \<longrightarrow>
     on_request cb s i = foldR (channel_do i) s (map Queue (f ms)))"

text \<open>Its other two callbacks do nothing to the server, like those of GameServer.cpp.\<close>

definition greets_silently :: "callbacks \<Rightarrow> nat \<Rightarrow> bool" where
  "greets_silently cb i \<longleftrightarrow> (\<forall>s c. client_at s i = Inr c \<longrightarrow> on_connect cb s i = Inr s \<and> on_disconnect cb s i = Inr s)"

definition reply_callbacks :: "(u8 list list \<Rightarrow> u8 list list) \<Rightarrow> callbacks" where
  "reply_callbacks f = idle_callbacks\<lparr>on_request := reply_request f\<rparr>"

lemma reply_callbacks_replies: "replies (reply_callbacks f) i f" "greets_silently (reply_callbacks f) i"
  by (simp_all add: replies_def greets_silently_def reply_callbacks_def reply_request_def idle_callbacks_def)

lemma message_short:
  assumes "block_count ms \<le> 62" and "m \<in> set ms"
  shows "length m \<le> 63488"
  using chunks_bound [of m] blocks_le_count [OF assms(2)] assms(1) by simp

lemma received_groups:
  assumes at: "client_at s i = Inr c" "recvCount c = int (length ms)"
    and ms: "[] \<notin> set ms" "block_count ms \<le> 62"
    and gr: "groups_of c (spans addr ms)" "load (recvBuffer c) addr (length (concat ms)) = Inr (concat ms)"
  shows "received s i = Inr ms"
proof -
  have one: "receive_one s i qs j = Inr (qs @ [ms ! j])" if j: "j < length ms" for qs j
  proof -
    have "j < 64" using j messages_le_blocks [OF ms(1)] ms(2) by simp
    moreover have "unat (of_nat (length (ms ! j)) :: u32) = length (ms ! j)"
      using message_short [OF ms(2) nth_mem [OF j]] by (simp add: unat_of_nat)
    ultimately show ?thesis
      using groups_of_GetData [OF gr(1), of j] j message_in_payload [OF gr(2) j] at
      by (simp add: receive_one_def STSV_GetData_def client_at_def get_at_def [of "[_]"] spans_nth)
  qed
  have "foldR (receive_one s i) [] [0..<k] = Inr (take k ms)" if "k \<le> length ms" for k
    using that by (induction k) (simp_all add: foldR_append one take_Suc_conv_app_nth)
  with at show ?thesis by (simp add: received_def STSV_GetDataCount_def client_at_def)
qed

section \<open>One request\<close>

lemma holds_queue_send_side:
  assumes "holds_queue s i c q" and "client_at s' i = Inr c'" and "send_side c' = send_side c" and "wf_client c'"
  shows "holds_queue s' i c' q"
  using assms send_side_fields [OF assms(3)] by (simp add: holds_queue_def)

text \<open>What stays from one request to the next.\<close>

definition conversation :: "server \<Rightarrow> nat \<Rightarrow> Client_t \<Rightarrow> bool" where
  "conversation s i c \<longleftrightarrow> holds_queue s i c [] \<and> open_channel s \<and> online c \<and> 65536 \<le> length (recvBuffer c) \<and>
     roomIdx c < 0 \<and> processMSGClientRequest s = UserCallback \<and> processMSGClientConnect s = UserCallback \<and>
     processMSGClientDisconnect s = UserCallback"

lemma request_answered:
  assumes conv: "conversation s i c" and cb: "replies cb i f"
    and ms: "[] \<notin> set ms" "block_count ms \<le> 62" and h: "client_header s c (flat 0 ms) h"
    and str: "stream (rx (net s (socket c))) = PACKDATASIZE_bytes h @ packet_body (flat 0 ms) @ rest"
    and room: "channel_room [] (map Queue (f ms))" and a: "a = answer (pk_packNo h) (f ms)"
    and tx: "0 \<notin> set (tx (net s (socket c)))" "length a \<le> progress (tx (net s (socket c)))"
  shows "\<exists>s' c'. serve_client cb s i = Inr s' \<and> conversation s' i c' \<and> socket c' = socket c \<and>
    packRef c' = pk_packNo h \<and> globals s' = globals s \<and> sent (net s' (socket c)) = sent (net s (socket c)) @ a \<and>
    stream (rx (net s' (socket c))) = rest \<and> 0 \<notin> set (tx (net s' (socket c))) \<and>
    progress (tx (net s (socket c))) \<le> progress (tx (net s' (socket c))) + length a"
proof -
  from conv have q: "holds_queue s i c []" and o: "open_channel s"
    and buf: "65536 \<le> length (recvBuffer c)" and ucb: "processMSGClientRequest s = UserCallback"
    by (simp_all add: conversation_def)
  note H = holds_queueD [OF q] and w = wf_clientD [OF holds_queueD(2) [OF q]]
  obtain t where t: "crcTable s = STOS_InitCRCTable t" using open_channelD(3) [OF o] by blast
  obtain s1 c1 where r: "processMessageBuffer s i = Inr (0, s1)" "client_at s1 i = Inr c1"
    "packRef c1 = pk_packNo h" "recvCount c1 = int (length ms)" "stream (rx (net s1 (socket c))) = rest"
    "groups_of c1 (spans (16 + 2 * block_count ms) ms)"
    "load (recvBuffer c1) (16 + 2 * block_count ms) (length (concat ms)) = Inr (concat ms)"
    "tx (net s1 (socket c)) = tx (net s (socket c))" "sent (net s1 (socket c)) = sent (net s (socket c))"
    "send_side c1 = send_side c" "length (recvBuffer c1) = length (recvBuffer c)" "cfg s1 = cfg s" "crcTable s1 = crcTable s"
    using received_message [OF H(1) w(5,6) buf ms h str open_channelD(2) [OF o] t] by blast
  note sv = served_processMessageBuffer [OF r(1)] and same = send_side_fields [OF r(10)]
  have "wf_client c1" using served_client [OF sv H(9)] H(1,2) r(2) by (simp add: serves_def client_at_Inr_iff)
  let ?c = "c1\<lparr>streamSize := 0\<rparr>"
  let ?s = "put_client s1 i ?c"
  have i: "i < length (s_Client_t s1)" using r(2) by (simp add: client_at_Inr_iff)
  have st: "StartPackSendData s1 i = Inr ?s" using r(2) by (simp add: StartPackSendData_def on_client_def)
  have at: "client_at ?s i = Inr ?c" using i by simp
  have rcv: "received ?s i = Inr ms"
    using r(4,6,7) by (intro received_groups [OF at _ ms]) (simp_all add: groups_of_def)
  have q1: "holds_queue ?s i ?c []"
    using holds_queue_send_side [OF q r(2,10) \<open>wf_client c1\<close>] at by (simp add: holds_queue_def wf_client_def queued_def)
  have o1: "open_channel ?s" using o r(12,13) by (simp add: open_channel_def)
  from queues_run [OF q1 room] obtain s2 c2 where
    s2: "foldR (channel_do i) ?s (map Queue (f ms)) = Inr s2" "holds_queue s2 i c2 (f ms)" "channel_frame ?s ?c s2 c2"
      "net s2 = net ?s" by auto
  note f2 = channel_frameD [OF s2(3)]
  have "unat (idx ?c) = i" using H(4) same by simp
  then have "on_request cb ?s i = Inr s2"
    using cb [unfolded replies_def, rule_format, of ?s ?c ms] at rcv s2(1) by simp
  then have rq: "call_request cb ?s i = Inr s2"
    using served_globals(4) [OF sv] ucb by (simp add: call_request_def run_callback_def put_client_def)
  have sk: "socket c2 = socket c" "packRef c2 = pk_packNo h" using f2(1,2) same r(3) by simp_all
  have tx2: "0 \<notin> set (tx (net s2 (socket c2)))" "length (answer (packRef c2) (f ms)) \<le> progress (tx (net s2 (socket c2)))"
    using tx r(8) a by (simp_all add: sk s2(4))
  from flush_step [OF s2(2) _ tx2] o1 f2(3) obtain s3 c3 k where
    s3: "EndPackSendData s2 i = Inr s3" "holds_queue s3 i c3 []" "channel_frame s2 c2 s3 c3"
      "s3 = put_client (s2\<lparr>net := (net s2)(socket c := k)\<rparr>) i c3" "sent k = sent (net s2 (socket c)) @ a"
      "0 \<notin> set (tx k)" "progress (tx (net s2 (socket c))) \<le> progress (tx k) + length a"
    by (auto simp: sk a channel_do_def)
  note f3 = channel_frameD [OF s3(3)]
  have g: "globals s3 = globals ?s" using f2(7) f3(7) by simp
  then have gl: "globals s3 = globals s" using sv by (simp add: served_def globals_def put_client_def)
  then have gf: "cfg s3 = cfg s" "processMSGClientRequest s3 = UserCallback" "processMSGClientConnect s3 = UserCallback"
    "processMSGClientDisconnect s3 = UserCallback"
    using conv by (simp_all add: conversation_def globals_def)
  have n: "net s3 (socket c) = k" by (simp add: s3(4))
  have rx3: "stream (rx (net s3 (socket c))) = rest" using f3(4) f2(4) same r(5) sk by simp
  have conv3: "conversation s3 i c3"
    using s3(2) gf f2 f3 o1 same conv r(11) by (simp add: conversation_def)
  have "serve_client cb s i = Inr s3" using r(1) st rq s3(1) by (simp add: serve_client_def)
  then show ?thesis
    using conv3 f3 sk gl n s3(5-7) s2(4) r(8,9) rx3 by (intro exI [of _ s3] exI [of _ c3]) simp
qed


section \<open>The conversation\<close>

text \<open>The bytes of the requests, and what makes them valid: each has a fresh reference and its checksum.\<close>

fun requests_bytes :: "(STSOCKMSGDATA_PACKDATASIZE \<times> u8 list list) list \<Rightarrow> u8 list" where
  "requests_bytes [] = []"
| "requests_bytes ((h, ms) # rs) = PACKDATASIZE_bytes h @ packet_body (flat 0 ms) @ requests_bytes rs"

fun requests_ok :: "server \<Rightarrow> Client_t \<Rightarrow> (STSOCKMSGDATA_PACKDATASIZE \<times> u8 list list) list \<Rightarrow> bool" where
  "requests_ok s c [] = True"
| "requests_ok s c ((h, ms) # rs) = (client_header s c (flat 0 ms) h \<and> [] \<notin> set ms \<and> block_count ms \<le> 62 \<and>
     requests_ok s (c\<lparr>packRef := pk_packNo h\<rparr>) rs)"

fun answers_bytes :: "(u8 list list \<Rightarrow> u8 list list) \<Rightarrow> (STSOCKMSGDATA_PACKDATASIZE \<times> u8 list list) list \<Rightarrow> u8 list" where
  "answers_bytes f [] = []"
| "answers_bytes f ((h, ms) # rs) = answer (pk_packNo h) (f ms) @ answers_bytes f rs"

lemma requests_ok_cong: "cfg s' = cfg s \<Longrightarrow> packRef c' = packRef c \<Longrightarrow> requests_ok s' c' rs = requests_ok s c rs"
proof (induction rs arbitrary: c c')
  case (Cons r rs)
  obtain h ms where r: "r = (h, ms)" by fastforce
  from Cons.IH [of "c'\<lparr>packRef := pk_packNo h\<rparr>" "c\<lparr>packRef := pk_packNo h\<rparr>"] Cons.prems
  show ?case by (simp add: r client_header_def)
qed simp

lemma client_loop_leaves:
  assumes "client_at s i = Inr c" and "online c"
  shows "client_loop cb [0] s i = Inr (put_client s i (c\<lparr>online := False\<rparr>))"
proof -
  have "i < length (s_Client_t s)" using assms(1) by (simp add: client_at_Inr_iff)
  with assms show ?thesis by (simp add: go_offline_def on_client_def)
qed

lemma client_loop_serves:
  assumes "client_at s i = Inr c" and "online c" and "serve_client cb s i = Inr s'"
  shows "client_loop cb (1 # polls) s i = client_loop cb polls s' i"
  using assms by simp

text \<open>What the conversation leaves: the client offline in its slot, everything answered.\<close>

definition conversation_over :: "server \<Rightarrow> server \<Rightarrow> nat \<Rightarrow> Client_t \<Rightarrow> u8 list \<Rightarrow> bool" where
  "conversation_over s s' i c wire \<longleftrightarrow> (\<exists>c'. client_at s' i = Inr c' \<and> \<not> online c' \<and> roomIdx c' < 0 \<and>
     socket c' = socket c \<and> globals s' = globals s \<and> sent (net s' (socket c)) = sent (net s (socket c)) @ wire)"

lemma conversation_run:
  assumes "conversation s i c" and "replies cb i f" and "requests_ok s c rs"
    and "\<forall>(h, ms) \<in> set rs. channel_room [] (map Queue (f ms))"
    and "stream (rx (net s (socket c))) = requests_bytes rs @ rest"
    and "0 \<notin> set (tx (net s (socket c)))" and "length (answers_bytes f rs) \<le> progress (tx (net s (socket c)))"
  shows "\<exists>s'. client_loop cb (replicate (length rs) 1 @ [0]) s i = Inr s' \<and> conversation_over s s' i c (answers_bytes f rs)"
  using assms(1,3-)
proof (induction rs arbitrary: s c)
  case Nil
  have at: "client_at s i = Inr c" "online c" "roomIdx c < 0"
    using Nil.prems(1) by (simp_all add: conversation_def holds_queue_def)
  then have "conversation_over s (put_client s i (c\<lparr>online := False\<rparr>)) i c []"
    by (simp add: conversation_over_def client_at_Inr_iff globals_def) (simp add: put_client_def)
  with client_loop_leaves [OF at(1,2)] show ?case by simp
next
  case (Cons r rs)
  obtain h ms where r: "r = (h, ms)" by fastforce
  let ?a = "answer (pk_packNo h) (f ms)"
  from Cons.prems(2) have ok: "[] \<notin> set ms" "block_count ms \<le> 62" "client_header s c (flat 0 ms) h"
    and oks: "requests_ok s (c\<lparr>packRef := pk_packNo h\<rparr>) rs" by (simp_all add: r)
  have str: "stream (rx (net s (socket c))) = PACKDATASIZE_bytes h @ packet_body (flat 0 ms) @ requests_bytes rs @ rest"
    using Cons.prems(4) by (simp add: r)
  have room: "channel_room [] (map Queue (f ms))" using Cons.prems(3) by (simp add: r)
  have len: "length ?a \<le> progress (tx (net s (socket c)))" using Cons.prems(6) by (simp add: r)
  from request_answered [OF Cons.prems(1) assms(2) ok str room refl Cons.prems(5) len] obtain s1 c1 where
    s1: "serve_client cb s i = Inr s1" "conversation s1 i c1" "socket c1 = socket c" "packRef c1 = pk_packNo h"
      "globals s1 = globals s" "sent (net s1 (socket c)) = sent (net s (socket c)) @ ?a"
      "stream (rx (net s1 (socket c))) = requests_bytes rs @ rest" "0 \<notin> set (tx (net s1 (socket c)))"
      "progress (tx (net s (socket c))) \<le> progress (tx (net s1 (socket c))) + length ?a" by blast
  have at: "client_at s i = Inr c" "online c"
    using Cons.prems(1) by (simp_all add: conversation_def holds_queue_def)
  have "cfg s1 = cfg s" using s1(5) by (simp add: globals_def)
  then have "requests_ok s1 c1 rs"
    using oks requests_ok_cong [of s1 s c1 "c\<lparr>packRef := pk_packNo h\<rparr>"] s1(4) by simp
  with Cons.prems s1 obtain s' where s': "client_loop cb (replicate (length rs) 1 @ [0]) s1 i = Inr s'"
    "conversation_over s1 s' i c1 (answers_bytes f rs)"
    using Cons.IH [OF s1(2)] by (auto simp: r)
  then have "conversation_over s s' i c (answers_bytes f (r # rs))"
    using s1(3,5,6) by (simp add: conversation_over_def r)
  with client_loop_serves [OF at s1(1)] s'(1) show ?case by simp
qed

lemma conversation_starts:
  assumes "conversation s i c" and "greets_silently cb i"
  shows "\<exists>s1 c1. thread_start s i = Inr s1 \<and> client_at s1 i = Inr c1 \<and> call_connect cb s1 i = Inr s1 \<and>
    conversation s1 i c1 \<and> socket c1 = socket c \<and> packRef c1 = packRef c \<and> net s1 = net s \<and> globals s1 = globals s"
proof -
  from assms(1) have q: "holds_queue s i c []" by (simp add: conversation_def)
  note H = holds_queueD [OF q]
  let ?c = "c\<lparr>thread := True, recieveDone := False, recieveHeader := False, sendingData := False,
    sendDone := False, sendDataSize := 0\<rparr>"
  let ?s = "put_client s i ?c"
  have st: "thread_start s i = Inr ?s" using H(1) by (simp add: thread_start_def on_client_def)
  have at: "client_at ?s i = Inr ?c" using H(9) by simp
  have g: "globals ?s = globals s" by (simp add: globals_def put_client_def)
  have "wf_client ?c" using H(2) by (simp add: wf_client_def)
  then have "holds_queue ?s i ?c []" using q at by (simp add: holds_queue_def queued_def)
  then have conv: "conversation ?s i ?c" using assms(1) g by (simp add: conversation_def globals_def)
  moreover have "call_connect cb ?s i = Inr ?s"
    using assms(2) at conv by (simp add: call_connect_def run_callback_def conversation_def greets_silently_def)
  ultimately show ?thesis using st at g by (intro exI [of _ ?s] exI [of _ ?c]) simp
qed

lemma conversation_ends:
  assumes "conversation_over s s1 i c wire" and "greets_silently cb i" and "processMSGClientDisconnect s = UserCallback"
  shows "\<exists>s' c'. thread_end cb s1 i = Inr s' \<and> client_at s' i = Inr c' \<and> \<not> online c' \<and> closed (net s' (socket c)) \<and>
    sent (net s' (socket c)) = sent (net s (socket c)) @ wire \<and> s_nCurLoginCount s' = s_nCurLoginCount s - 1"
proof -
  from assms(1) obtain c1 where c1: "client_at s1 i = Inr c1" "\<not> online c1" "roomIdx c1 < 0" "socket c1 = socket c"
    "globals s1 = globals s" "sent (net s1 (socket c)) = sent (net s (socket c)) @ wire"
    by (auto simp: conversation_over_def)
  have "call_disconnect cb s1 i = Inr s1"
    using assms(2,3) c1(1,5) by (simp add: call_disconnect_def greets_silently_def globals_def)
  moreover have "client_at (fst (DestroySocket s1 (socket c))) i = Inr c1" using c1(1) by (simp add: client_at_def)
  ultimately have "thread_end cb s1 i = Inr ((fst (DestroySocket s1 (socket c)))\<lparr>s_nCurLoginCount := s_nCurLoginCount s1 - 1\<rparr>)"
    using c1(1,3,4) by (simp add: thread_end_def thread_close_def DestroyClientRoom_def)
  moreover have "s_nCurLoginCount s1 = s_nCurLoginCount s" using c1(5) by (simp add: globals_def)
  ultimately show ?thesis using c1 by (simp add: client_at_def DestroySocket_net)
qed

lemma thread_answers:
  assumes conv: "conversation s i c" and cb: "replies cb i f" "greets_silently cb i" and ok: "requests_ok s c rs"
    and room: "\<forall>(h, ms) \<in> set rs. channel_room [] (map Queue (f ms))"
    and str: "stream (rx (net s (socket c))) = requests_bytes rs @ rest"
    and tx: "0 \<notin> set (tx (net s (socket c)))" "length (answers_bytes f rs) \<le> progress (tx (net s (socket c)))"
  shows "\<exists>s' c'. STSV_ClientThreadFuncAlway cb (replicate (length rs) 1 @ [0]) s i = Inr s' \<and>
    client_at s' i = Inr c' \<and> \<not> online c' \<and> closed (net s' (socket c)) \<and>
    sent (net s' (socket c)) = sent (net s (socket c)) @ answers_bytes f rs \<and>
    s_nCurLoginCount s' = s_nCurLoginCount s - 1"
proof -
  from conversation_starts [OF conv cb(2)] obtain s1 c1 where
    s1: "thread_start s i = Inr s1" "client_at s1 i = Inr c1" "call_connect cb s1 i = Inr s1" "conversation s1 i c1"
      "socket c1 = socket c" "packRef c1 = packRef c" "net s1 = net s" "globals s1 = globals s" by blast
  have "cfg s1 = cfg s" using s1(8) by (simp add: globals_def)
  then have "requests_ok s1 c1 rs" using ok requests_ok_cong [of s1 s c1 c rs] s1(6) by simp
  from conversation_run [OF s1(4) cb(1) this room] str tx s1(5,7) obtain s2 where
    s2: "client_loop cb (replicate (length rs) 1 @ [0]) s1 i = Inr s2" "conversation_over s1 s2 i c1 (answers_bytes f rs)"
    by auto
  have "processMSGClientDisconnect s1 = UserCallback" "online c1" using s1(4) by (simp_all add: conversation_def)
  with conversation_ends [OF s2(2) cb(2)] s1 s2(1) show ?thesis
    by (simp add: STSV_ClientThreadFuncAlway_def globals_def)
qed

text \<open>
  C2: the conversation of a client with the program, from the start of its thread to the end. Its valid requests,
  however the network cuts them, are answered one by one in their order: for each exactly one packet goes out,
  under the reference of the request, with the messages the callback of the program queues for the messages
  received, or the confirmation when it queues none. When the client is then silent for the time-out, the thread
  ends, with the client offline, the socket closed and one login less.
\<close>

theorem session_answers:
  assumes "conversation s i c" and "replies cb i f" and "greets_silently cb i" and "requests_ok s c rs"
    and "\<forall>(h, ms) \<in> set rs. channel_room [] (map Queue (f ms))"
    and "stream (rx (net s (socket c))) = requests_bytes rs @ rest"
    and "0 \<notin> set (tx (net s (socket c)))" and "length (answers_bytes f rs) \<le> progress (tx (net s (socket c)))"
  shows "\<exists>s' c'. STSV_ClientThreadFuncAlway cb (replicate (length rs) 1 @ [0]) s i = Inr s' \<and>
    client_at s' i = Inr c' \<and> \<not> online c' \<and> closed (net s' (socket c)) \<and>
    sent (net s' (socket c)) = sent (net s (socket c)) @ answers_bytes f rs \<and>
    s_nCurLoginCount s' = s_nCurLoginCount s - 1"
  using assms by (rule thread_answers)

section \<open>From the connection on\<close>

text \<open>A slot that was never used, or whose last client was sent all that was queued.\<close>

definition ready_slot :: "Client_t \<Rightarrow> bool" where
  "ready_slot c \<longleftrightarrow> wf_client c \<and> \<not> m_Mutex c \<and> sendCount c = 0 \<and> 65536 \<le> length (recvBuffer c)"

definition ready_server :: "server \<Rightarrow> bool" where
  "ready_server s \<longleftrightarrow> wf_hosts s \<and> open_channel s \<and> processMSGClientRequest s = UserCallback \<and>
     processMSGClientConnect s = UserCallback \<and> processMSGClientDisconnect s = UserCallback"

lemma accepted_conversation:
  assumes srv: "ready_server s" and slot: "free_host s = int i" "i < 2 ^ 16" "client_at s i = Inr c" "ready_slot c"
    and acc: "accept_socket (ac_socks a) = Inr k" "ac_thread a = 0"
    and tx: "0 \<notin> set (tx (ac_conn a))" "12 \<le> progress (tx (ac_conn a))"
  shows "\<exists>s1 c1. AcceptConnection a s = Inr s1 \<and> conversation s1 i c1 \<and> socket c1 = k \<and> packRef c1 = 0 \<and>
    cfg s1 = cfg s \<and> s_nCurLoginCount s1 = s_nCurLoginCount s + 1 \<and>
    sent (net s1 k) = sent (ac_conn a) @ header_message STSOCKMSG_GIVEID (of_nat i) \<and> rx (net s1 k) = rx (ac_conn a) \<and>
    0 \<notin> set (tx (net s1 k)) \<and> progress (tx (ac_conn a)) \<le> progress (tx (net s1 k)) + 12"
proof -
  from srv have hosts: "wf_hosts s" and o: "open_channel s" by (simp_all add: ready_server_def)
  have at: "i < length (s_Client_t s)" "s_Client_t s ! i = c" using slot(3) by (simp_all add: client_at_Inr_iff)
  define c1 where "c1 = (take_slot a k i c)\<lparr>NonBlocking := True\<rparr>"
  let ?s = "put_client (s\<lparr>net := (net s)(k := ac_conn a)\<rparr>) i c1"
  have at1: "client_at ?s i = Inr c1" using at(1) by simp
  have f: "socket c1 = k" "packRef c1 = 0" "unat (idx c1) = i" "online c1" "roomIdx c1 < 0" "curPacketNo c1 = 0"
    "\<not> fileDataSending c1" "m_Mutex c1 = m_Mutex c" "sendCount c1 = sendCount c" "recvBuffer c1 = recvBuffer c"
    using slot(2) by (simp_all add: c1_def take_slot_def unat_of_nat)
  have "wf_client c1" using slot(4) by (simp add: c1_def take_slot_def ready_slot_def wf_client_def)
  moreover have "queued c1 = []" using queued_length [OF \<open>wf_client c1\<close>] slot(4) f(9) by (simp add: ready_slot_def)
  moreover have "i < length (s_Client_t ?s)" using at(1) by simp
  ultimately have q: "holds_queue (?s\<lparr>net := n, s_nCurLoginCount := m\<rparr>) i c1 []" for n m
    using slot(4) f at(1) by (simp add: holds_queue_def ready_slot_def client_at_Inr_iff put_client_def)
  have "0 \<notin> set (tx (net ?s (socket c1)))"
    "length (header_message STSOCKMSG_GIVEID (of_nat i)) \<le> progress (tx (net ?s (socket c1)))"
    using tx f(1) by simp_all
  from WriteTo_client_all [OF at1 _ this] o f(1) obtain k' where
    w: "WriteTo_client ?s i (header_message STSOCKMSG_GIVEID (of_nat i)) = Inr (12, ?s\<lparr>net := (net ?s)(k := k')\<rparr>)"
      "sent k' = sent (ac_conn a) @ header_message STSOCKMSG_GIVEID (of_nat i)" "rx k' = rx (ac_conn a)"
      "0 \<notin> set (tx k')" "progress (tx (ac_conn a)) \<le> progress (tx k') + 12"
    by (auto simp: open_channel_def)
  let ?s1 = "?s\<lparr>net := (net ?s)(k := k'), s_nCurLoginCount := s_nCurLoginCount s + 1\<rparr>"
  have "AcceptConnection a s = Inr ?s1"
    using accept_client_found [OF hosts acc(1) slot(1)] w(1) acc(2) by (simp add: AcceptConnection_def at(2) c1_def)
  moreover have "conversation ?s1 i c1"
    using q srv o f slot(4) by (simp add: conversation_def ready_server_def ready_slot_def open_channel_def put_client_def)
  ultimately show ?thesis using w f by (intro exI [of _ ?s1] exI [of _ c1]) simp
qed

text \<open>An echo program, and a client that sends two packets, the network cutting the first one in two.\<close>

definition wit_request :: "u32 \<Rightarrow> u8 list list \<Rightarrow> STSOCKMSGDATA_PACKDATASIZE \<times> u8 list list" where
  "wit_request no ms = (\<lparr>pk_type = 1, pk_fromID = 0, pk_packNo = no,
     pk_sizeAll = of_nat (length (packet_body (flat 0 ms)) + 4), pk_crc = packet_crc (flat 0 ms),
     pk_numData = of_nat (length (flat 0 ms))\<rparr>, ms)"

definition wit_requests :: "(STSOCKMSGDATA_PACKDATASIZE \<times> u8 list list) list" where
  "wit_requests = [wit_request 1 [[7]], wit_request 2 [[8], [9]]]"

definition wit_session :: server where
  "wit_session = wit_answer_server\<lparr>s_Client_t := [(fresh_client 65536)\<lparr>online := True, roomIdx := -1\<rparr>],
     cfg := (cfg wit_answer_server)\<lparr>s_nMaxConnection := 50\<rparr>, processMSGClientRequest := UserCallback,
     processMSGClientConnect := UserCallback, processMSGClientDisconnect := UserCallback,
     net := (\<lambda>_. \<lparr>rx = [RecvBytes (take 5 (requests_bytes wit_requests)), RecvBytes (drop 5 (requests_bytes wit_requests))],
       tx = replicate 100 1, sent = [], closed = False\<rparr>)\<rparr>"

lemma wit_conversation: "conversation wit_session 0 ((fresh_client 65536)\<lparr>online := True, roomIdx := -1\<rparr>)"
proof -
  have "wf_client (fresh_client 65536)" by (rule wf_fresh_client) simp
  then have "wf_client ((fresh_client 65536)\<lparr>online := True, roomIdx := -1\<rparr>)" by (simp add: wf_client_def)
  then have "holds_queue wit_session 0 ((fresh_client 65536)\<lparr>online := True, roomIdx := -1\<rparr>) []"
    by (simp add: holds_queue_def wit_session_def client_at_def get_at_def queued_def)
      (simp add: fresh_client_def init_sendBufferMSG_def)
  then show ?thesis
    by (auto simp: conversation_def open_channel_def wit_session_def wit_answer_server_def fresh_config_def
        STSV_ONETIME_CONNECTION_def) (simp add: fresh_client_def init_sendBufferMSG_def)
qed

lemma wit_answers: "answers_bytes id wit_requests = packet 1 (flat 0 [[7]]) @ packet 2 (flat 0 [[8], [9]])"
  by (simp add: wit_requests_def wit_request_def answer_def)

lemma wit_session_facts:
  "requests_ok wit_session ((fresh_client 65536)\<lparr>online := True, roomIdx := -1\<rparr>) wit_requests"
  "stream (rx (net wit_session (socket ((fresh_client 65536)\<lparr>online := True, roomIdx := -1\<rparr>)))) =
     requests_bytes wit_requests @ []"
proof -
  have "16 \<le> length (requests_bytes wit_requests)" by (simp add: wit_requests_def wit_request_def)
  then have "take 5 (requests_bytes wit_requests) \<noteq> []" "drop 5 (requests_bytes wit_requests) \<noteq> []" by auto
  then show "stream (rx (net wit_session (socket ((fresh_client 65536)\<lparr>online := True, roomIdx := -1\<rparr>)))) =
     requests_bytes wit_requests @ []" by (simp add: wit_session_def)
qed (simp add: wit_requests_def wit_request_def client_header_def wit_session_def msg_type_defs,
    simp add: fresh_client_def init_sendBufferMSG_def)

theorem session_answers_witness:
  "\<exists>s'. STSV_ClientThreadFuncAlway (reply_callbacks id) [1, 1, 0] wit_session 0 = Inr s' \<and>
     sent (net s' (socket (fresh_client 65536))) = packet 1 (flat 0 [[7]]) @ packet 2 (flat 0 [[8], [9]])"
proof -
  let ?c = "(fresh_client 65536)\<lparr>online := True, roomIdx := -1\<rparr>"
  have room: "\<forall>(h, ms) \<in> set wit_requests. channel_room [] (map Queue (id ms))"
    by (simp add: wit_requests_def wit_request_def)
  have tx: "0 \<notin> set (tx (net wit_session (socket ?c)))"
    "length (answers_bytes id wit_requests) \<le> progress (tx (net wit_session (socket ?c)))"
    by (simp_all add: wit_session_def wit_answers packet_length packet_body_length progress_def)
  have e: "sent (net wit_session (socket (fresh_client 65536))) = []" by (simp add: wit_session_def)
  have polls: "replicate (length wit_requests) 1 @ [0] = [1, 1, 0]" by (simp add: wit_requests_def)
  have sk: "socket ?c = socket (fresh_client 65536)" by simp
  from session_answers [OF wit_conversation reply_callbacks_replies wit_session_facts(1) room wit_session_facts(2) tx]
  show ?thesis unfolding wit_answers polls sk e append_Nil by blast
qed

end
