(* ===== verification/Star_Game.thy ===== *)
theory Star_Game
  imports Star_Steps Star_Session
begin

text \<open>
  The program on top of the library: the callbacks of GameServer.cpp and \<open>main\<close>. What is printed is
  not modelled. The keyboard is a list of what is typed before each poll; when it is used up, \<open>main\<close> waits.
\<close>

section \<open>GameServer.cpp\<close>

definition ProcessRequest :: "server \<Rightarrow> nat \<Rightarrow> nat option \<Rightarrow> u32 \<Rightarrow> server result" where
  "ProcessRequest s i buffer buffer_size = Inr s"

definition ClientConnect :: "server \<Rightarrow> nat \<Rightarrow> server result" where
  "ClientConnect s i = bindR (client_at s i) (\<lambda>c. Inr s)"

definition request_one :: "nat \<Rightarrow> server \<Rightarrow> nat \<Rightarrow> server result" where
  "request_one i s j =
     bindR (client_at s i) (\<lambda>c.
     bindR (STSV_GetData (s_Client_t s) (int (unat (idx c))) (int j)) (\<lambda>(buffer, buffer_size).
       ProcessRequest s i buffer buffer_size))"

definition ClientRequest :: "server \<Rightarrow> nat \<Rightarrow> server result" where
  "ClientRequest s i =
     bindR (client_at s i) (\<lambda>c.
     bindR (STSV_GetDataCount (s_Client_t s) (int (unat (idx c)))) (\<lambda>data_count.
       foldR (request_one i) s [0..<nat data_count]))"

definition ClientDisconnect :: "server \<Rightarrow> nat \<Rightarrow> server result" where
  "ClientDisconnect s i = bindR (client_at s i) (\<lambda>c. Inr s)"

definition game_callbacks :: callbacks where
  "game_callbacks = \<lparr>on_connect = ClientConnect, on_request = ClientRequest, on_disconnect = ClientDisconnect\<rparr>"

definition InitGameServer :: "server \<Rightarrow> server" where "InitGameServer s = s"
definition DestroyGameServer :: "server \<Rightarrow> server" where "DestroyGameServer s = s"

lemma ClientRequest_same: "ClientRequest s i = Inr s' \<Longrightarrow> s' = s"
proof -
  have one: "request_one i s1 j = Inr s2 \<Longrightarrow> s2 = s1" for s1 s2 j
    by (auto simp: request_one_def ProcessRequest_def bindR_Inr_iff)
  have "foldR (request_one i) s1 js = Inr s2 \<Longrightarrow> s2 = s1" for s1 s2 js
    by (induction js arbitrary: s1) (auto simp: bindR_Inr_iff dest: one)
  then show "ClientRequest s i = Inr s' \<Longrightarrow> s' = s" by (auto simp: ClientRequest_def bindR_Inr_iff)
qed

interpretation game: client_callbacks game_callbacks
  by unfold_locales (auto simp: game_callbacks_def ClientConnect_def ClientDisconnect_def bindR_Inr_iff
      dest: ClientRequest_same)

section \<open>main.cpp\<close>

text \<open>\<open>kbhit\<close> and \<open>getch\<close> on the bytes of the standard input that have come and not been read.\<close>

definition kbhit :: "u8 list \<Rightarrow> bool" where "kbhit stdin = (stdin \<noteq> [])"

definition getch :: "u8 list \<Rightarrow> (u8 \<times> u8 list) result" where
  "getch stdin = (case stdin of [] \<Rightarrow> Inl Blocked | x # rest \<Rightarrow> Inr (x, rest))"

text \<open>The loop of \<open>main\<close>: before each round some bytes come in; \<open>q\<close> ends it.\<close>

fun main_loop :: "u8 list list \<Rightarrow> u8 list \<Rightarrow> int result" where
  "main_loop [] stdin = Inl Blocked"
| "main_loop (typed # rounds) stdin =
     (if kbhit (stdin @ typed) then
        bindR (getch (stdin @ typed)) (\<lambda>(x, rest). if x = 113 then Inr (-2) else main_loop rounds rest)
      else main_loop rounds (stdin @ typed))"

definition set_callbacks :: "server \<Rightarrow> server" where
  "set_callbacks s =
     STSV_SetClientDisconnectFunction (STSV_SetClientConnectFunction (STSV_SetClientRequestFunction
       (STSV_SetUnlimitServer s True) UserCallback) UserCallback) UserCallback"

lemma set_callbacks_pool [simp]: "s_BigDataUse (set_callbacks s) = s_BigDataUse s"
  by (simp add: set_callbacks_def STSV_SetUnlimitServer_def STSV_SetClientRequestFunction_def
      STSV_SetClientConnectFunction_def STSV_SetClientDisconnectFunction_def)

text \<open>\<open>others\<close> is what the threads have done to the server and the database while \<open>main\<close> waits.\<close>

definition server_main :: "('w, 'r) mysql_api \<Rightarrow> init_env \<Rightarrow> u8 list list \<Rightarrow>
    (server \<times> ('w, 'r) db \<Rightarrow> server \<times> ('w, 'r) db) \<Rightarrow> server \<Rightarrow> ('w, 'r) db \<Rightarrow> (int \<times> server \<times> ('w, 'r) db) result" where
  "server_main my env typed others s d =
     bindR (STSV_Init my env (set_callbacks s) d) (\<lambda>(ret, s, d).
     (let s = (if ret = 0 then InitGameServer s else s) in
      bindR (if ret = 0 then main_loop typed [] else Inr ret) (\<lambda>ret.
      (let (s, d) = (if ret = -2 then others (s, d) else (s, d)) in
       bindR (STSV_Stop my s d) (\<lambda>(_, s, d).
         Inr (0, if ret = -2 then DestroyGameServer s else s, d))))))"

text \<open>\<open>main\<close> stops waiting as soon as the \<open>q\<close> has come to the front of the input.\<close>

lemma main_loop_quits:
  assumes "113 \<notin> set pre" and "length pre < length rounds" and "stdin = pre @ [113] @ post"
  shows "main_loop rounds stdin = Inr (-2)"
  using assms
proof (induction rounds arbitrary: pre post stdin)
  case (Cons typed rounds)
  show ?case
  proof (cases pre)
    case Nil
    with Cons.prems show ?thesis by (simp add: kbhit_def getch_def)
  next
    case (Cons x pre')
    with Cons.prems have "x \<noteq> 113" "113 \<notin> set pre'" "length pre' < length rounds" by auto
    moreover from this have "main_loop rounds (pre' @ [113] @ post @ typed) = Inr (-2)"
      using Cons.IH [of pre' "pre' @ [113] @ post @ typed" "post @ typed"] by simp
    ultimately show ?thesis using Cons Cons.prems(3) by (simp add: kbhit_def getch_def)
  qed
qed simp

lemma main_loop_round:
  "stdin @ keys = [] \<Longrightarrow> main_loop (keys # typed) stdin = main_loop typed []"
  "stdin @ keys = x # rest \<Longrightarrow> main_loop (keys # typed) stdin = (if x = 113 then Inr (-2) else main_loop typed rest)"
  by (simp_all add: kbhit_def getch_def)

lemma typed_round:
  assumes "stdin @ keys = x # rest"
  shows "set (stdin @ concat (keys # typed)) = insert x (set (rest @ concat typed))"
    and "length (stdin @ concat (keys # typed)) = Suc (length (rest @ concat typed))"
  using arg_cong [OF assms, of "\<lambda>l. set (l @ concat typed)"] arg_cong [OF assms, of length] by simp_all

lemma main_loop_waits: "113 \<notin> set (stdin @ concat typed) \<Longrightarrow> main_loop typed stdin = Inl Blocked"
proof (induction typed arbitrary: stdin)
  case (Cons keys typed)
  then show ?case
    by (cases "stdin @ keys") (simp_all only: main_loop_round typed_round, simp_all)
qed simp

lemma main_loop_reads_q:
  assumes "113 \<in> set (stdin @ concat typed)" and "length (stdin @ concat typed) \<le> n"
  shows "main_loop (typed @ replicate n []) stdin = Inr (-2)"
  using assms
proof (induction typed arbitrary: stdin)
  case Nil
  then obtain pre post where "stdin = pre @ 113 # post" "113 \<notin> set pre" by (auto dest: split_list_first)
  with Nil.prems main_loop_quits [of pre "replicate n []" stdin post] show ?case by simp
next
  case (Cons keys typed)
  show ?case
  proof (cases "stdin @ keys")
    case Nil
    with Cons.prems Cons.IH [of "[]"] show ?thesis by (simp add: kbhit_def)
  next
    case (Cons x rest)
    from Cons.prems have "113 \<in> insert x (set (rest @ concat typed))" "length (rest @ concat typed) \<le> n"
      unfolding typed_round [OF Cons] by simp_all
    with Cons.IH [of rest] show ?thesis
      by (auto simp: main_loop_round(2) [OF Cons] simp del: main_loop.simps)
  qed
qed

section \<open>The thread of a client of the game\<close>

text \<open>
  C15: when the thread of a client ends, however the client and the network behaved, the client is
  offline, its socket is closed and the count of the logins is one less; its slot keeps the socket.
\<close>

theorem thread_ends_clean:
  assumes "STSV_ClientThreadFuncAlway game_callbacks polls s i = Inr s'"
  shows "\<exists>c c'. client_at s i = Inr c \<and> client_at s' i = Inr c' \<and> \<not> online c' \<and> socket c' = socket c \<and>
    closed (net s' (socket c)) \<and> s_nCurLoginCount s' = s_nCurLoginCount s - 1 \<and> cfg s' = cfg s"
  using assms by (rule game.thread_result)

lemma thread_timeout:
  assumes "client_at s i = Inr c" and "roomIdx c < 0" and "n \<le> 0"
    and "processMSGClientConnect s = UserCallback" and "processMSGClientDisconnect s = UserCallback"
  shows "\<exists>s'. STSV_ClientThreadFuncAlway game_callbacks (n # polls) s i = Inr s'"
proof -
  have i: "i < length (s_Client_t s)" using assms(1) by (simp add: client_at_Inr_iff)
  let ?c = "c\<lparr>thread := True, recieveDone := False, recieveHeader := False, sendingData := False,
    sendDone := False, sendDataSize := 0\<rparr>"
  have st: "thread_start s i = Inr (put_client s i ?c)" using assms(1) by (simp add: thread_start_def on_client_def)
  have cb: "processMSGClientConnect (put_client s i c') = UserCallback"
    "processMSGClientDisconnect (put_client s i c') = UserCallback" for c'
    using assms(4,5) by (simp_all add: put_client_def)
  have at: "client_at (fst (DestroySocket s1 k)) i = client_at s1 i" for s1 k
    by (simp add: client_at_def)
  have e: "\<exists>s'. thread_end game_callbacks (put_client s i c') i = Inr s'" if "roomIdx c' < 0" for c'
    using that i cb [of c']
    by (simp add: thread_end_def thread_close_def call_disconnect_def game_callbacks_def ClientDisconnect_def DestroyClientRoom_def at)
  show ?thesis
  proof (cases "online c")
    case True
    have "client_loop game_callbacks (n # polls) (put_client s i ?c) i = Inr (put_client s i (?c\<lparr>online := False\<rparr>))"
      using i True assms(3) by (cases polls) (simp_all add: go_offline_def on_client_def)
    moreover have "call_connect game_callbacks (put_client s i ?c) i = Inr (put_client s i ?c)"
      using cb i by (simp add: call_connect_def run_callback_def game_callbacks_def ClientConnect_def)
    ultimately show ?thesis using st i True e [of "?c\<lparr>online := False\<rparr>"] assms(2)
      by (simp add: STSV_ClientThreadFuncAlway_def)
  next
    case False
    with st i e [of ?c] assms(2) show ?thesis by (simp add: STSV_ClientThreadFuncAlway_def)
  qed
qed

text \<open>
  C17: a client that says nothing for the time-out is let go: the thread does end, after one poll, with
  the client offline, its socket closed and one login less.
\<close>

theorem silent_client_is_let_go:
  assumes "client_at s i = Inr c" and "roomIdx c < 0" and "n \<le> 0"
    and "processMSGClientConnect s = UserCallback" and "processMSGClientDisconnect s = UserCallback"
  shows "\<exists>s' c'. STSV_ClientThreadFuncAlway game_callbacks (n # polls) s i = Inr s' \<and> client_at s' i = Inr c' \<and>
    \<not> online c' \<and> closed (net s' (socket c)) \<and> s_nCurLoginCount s' = s_nCurLoginCount s - 1"
proof -
  obtain s' where s': "STSV_ClientThreadFuncAlway game_callbacks (n # polls) s i = Inr s'"
    using thread_timeout [OF assms] by blast
  from game.thread_result [OF this] assms(1) show ?thesis using s' by auto
qed

definition wit_game_server :: server where
  "wit_game_server = (wit_thread_server UserCallback)\<lparr>processMSGClientConnect := UserCallback,
     processMSGClientRequest := UserCallback\<rparr>"

lemma wit_game_facts:
  "client_at wit_game_server 0 = Inr ((fresh_client 65536)\<lparr>online := True, roomIdx := -1\<rparr>)"
  "roomIdx ((fresh_client 65536)\<lparr>online := True, roomIdx := -1\<rparr>) < 0" "(0 :: int) \<le> 0"
  "processMSGClientConnect wit_game_server = UserCallback" "processMSGClientDisconnect wit_game_server = UserCallback"
  by (simp_all add: wit_game_server_def wit_thread_server_def fresh_server_def client_at_def get_at_def)

theorem thread_ends_clean_witness:
  "\<exists>s'. STSV_ClientThreadFuncAlway game_callbacks [0] wit_game_server 0 = Inr s' \<and> s_nCurLoginCount s' = 0"
proof -
  obtain s' where s': "STSV_ClientThreadFuncAlway game_callbacks [0] wit_game_server 0 = Inr s'"
    using thread_timeout [OF wit_game_facts] by blast
  have "s_nCurLoginCount wit_game_server = 1" by (simp add: wit_game_server_def wit_thread_server_def)
  with thread_ends_clean [OF s'] s' show ?thesis by auto
qed

theorem silent_client_is_let_go_witness:
  "\<exists>s'. STSV_ClientThreadFuncAlway game_callbacks [0] wit_game_server 0 = Inr s' \<and>
     closed (net s' (socket (fresh_client 65536)))"
  using silent_client_is_let_go [OF wit_game_facts, of "[]"] by auto

section \<open>A request is confirmed\<close>

lemma ClientRequest_returns:
  assumes c: "client_at s i = Inr c" "unat (idx c) = i"
    and data: "\<And>j. j < nat (recvCount c) \<Longrightarrow> \<exists>p. STSV_GetData (s_Client_t s) (int i) (int j) = Inr p"
  shows "ClientRequest s i = Inr s"
proof -
  have num: "uint (idx c) = int i" using arg_cong [OF c(2), of int] by simp
  have loop: "set js \<subseteq> {0..<nat (recvCount c)} \<Longrightarrow> foldR (request_one i) s js = Inr s" for js
  proof (induction js)
    case (Cons j js)
    then have "j < nat (recvCount c)" by simp
    from data [OF this] obtain p where "STSV_GetData (s_Client_t s) (int i) (int j) = Inr p" by blast
    then have "request_one i s j = Inr s" using c num by (cases p) (simp add: request_one_def ProcessRequest_def)
    with Cons show ?case by simp
  qed simp
  have "STSV_GetDataCount (s_Client_t s) (int i) = Inr (recvCount c)"
    using c by (simp add: STSV_GetDataCount_def client_at_def)
  with c num loop [of "[0..<nat (recvCount c)]"] show ?thesis by (simp add: ClientRequest_def)
qed

text \<open>
  The whole path of a request. A valid packet of a client, with fresh reference and right checksum,
  however it is cut by the network, is received, handed to the program and answered: the program here
  queues nothing, so exactly one message is sent, the confirmation with the reference of the packet,
  and what follows the packet on the connection waits for the next round.
\<close>

lemma request_confirmed:
  assumes c: "client_at s i = Inr c" "length (recvBufferMSG c) = 64" "length (recvBufferMSGSize c) = 64"
      "65536 \<le> length (recvBuffer c)" "unat (idx c) = i" "sendCount c = 0" "\<not> fileDataSending c"
    and ms: "[] \<notin> set ms" "block_count ms \<le> 62"
    and h: "client_header s c (flat 0 ms) h"
    and str: "stream (rx (net s (socket c))) = PACKDATASIZE_bytes h @ packet_body (flat 0 ms) @ rest"
    and env: "s_nServerType (cfg s) \<noteq> STSV_ONETIME_CONNECTION" "crcTable s = STOS_InitCRCTable t"
      "s_nProtocol (cfg s) = STSV_TCP_PROTOCOL" "processMSGClientRequest s = UserCallback"
    and tx: "0 \<notin> set (tx (net s (socket c)))" "12 \<le> progress (tx (net s (socket c)))"
  shows "\<exists>s'. serve_client game_callbacks s i = Inr s' \<and>
    sent (net s' (socket c)) = sent (net s (socket c)) @ header_message STSOCKMSG_CONFIRM (pk_packNo h) \<and>
    stream (rx (net s' (socket c))) = rest"
proof -
  obtain s1 c1 where r: "processMessageBuffer s i = Inr (0, s1)" "client_at s1 i = Inr c1"
    "packRef c1 = pk_packNo h" "recvCount c1 = int (length ms)" "stream (rx (net s1 (socket c))) = rest"
    "groups_of c1 (spans (16 + 2 * block_count ms) ms)" "tx (net s1 (socket c)) = tx (net s (socket c))"
    "sent (net s1 (socket c)) = sent (net s (socket c))" "send_side c1 = send_side c" "cfg s1 = cfg s"
    using received_message [OF c(1-4) ms h str env(1,2)] by blast
  note same = send_side_fields [OF r(9)]
  have cb: "processMSGClientRequest s1 = UserCallback"
    using served_globals(4) [OF served_processMessageBuffer [OF r(1)]] env(4) by simp
  have i: "i < length (s_Client_t s1)" using r(2) by (simp add: client_at_Inr_iff)
  let ?c = "c1\<lparr>streamSize := 0\<rparr>"
  let ?s = "put_client s1 i ?c"
  have st: "StartPackSendData s1 i = Inr ?s" using r(2) by (simp add: StartPackSendData_def on_client_def)
  have at: "client_at ?s i = Inr ?c" using i by simp
  have "\<exists>p. STSV_GetData (s_Client_t ?s) (int i) (int j) = Inr p" if j: "j < length ms" for j
  proof -
    have "j < 64" using j messages_le_blocks [OF ms(1)] ms(2) by simp
    moreover have "groups_of ?c (spans (16 + 2 * block_count ms) ms)" using r(6) by (simp add: groups_of_def)
    ultimately show ?thesis
      using groups_of_GetData [of ?c "spans (16 + 2 * block_count ms) ms" j] j at
      by (simp add: STSV_GetData_def client_at_def get_at_def [of "[_]"] spans_nth)
  qed
  then have "ClientRequest ?s i = Inr ?s"
    using r(4) same c(5) by (intro ClientRequest_returns [OF at]) simp_all
  then have rq: "call_request game_callbacks ?s i = Inr ?s"
    using cb by (simp add: call_request_def run_callback_def game_callbacks_def put_client_def)
  obtain k where k: "SendConfirmMessage ?s i (pk_packNo h) = Inr (?s\<lparr>net := (net ?s)(socket ?c := k)\<rparr>)"
    "sent k = sent (net s (socket c)) @ header_message STSOCKMSG_CONFIRM (pk_packNo h)" "rx k = rx (net s1 (socket c))"
    using SendConfirm_sends [OF at, of "pk_packNo h"] env(3) tx r same by auto
  have e: "EndPackSendData ?s i = Inr (?s\<lparr>net := (net ?s)(socket ?c := k)\<rparr>)"
    using at r same c env(1) k(1) by (simp add: EndPackSendData_def)
  show ?thesis
    by (rule exI [of _ "?s\<lparr>net := (net ?s)(socket ?c := k)\<rparr>"])
      (use r(1,5) same st rq e k in \<open>simp add: serve_client_def\<close>)
qed

definition wit_request_server :: server where
  "wit_request_server = wit_server\<lparr>processMSGClientRequest := UserCallback,
     net := (\<lambda>k. (net wit_server k)\<lparr>tx := replicate 12 1\<rparr>)\<rparr>"

lemma request_confirmed_witness:
  "\<exists>s'. serve_client game_callbacks wit_request_server 0 = Inr s' \<and>
     sent (net s' (socket (fresh_client 65536))) = header_message STSOCKMSG_CONFIRM 1"
proof -
  let ?c = "fresh_client 65536"
  have net: "rx (net wit_request_server k) = rx (net wit_server k)" "tx (net wit_request_server k) = replicate 12 1"
    "sent (net wit_request_server k) = []" for k
    by (simp_all add: wit_request_server_def wit_server_def)
  have st: "client_at wit_request_server 0 = Inr ?c" "cfg wit_request_server = cfg wit_server"
    "crcTable wit_request_server = crcTable wit_server" "processMSGClientRequest wit_request_server = UserCallback"
    using wit_facts(1) by (simp_all add: wit_request_server_def client_at_def)
  have c: "unat (idx ?c) = 0" "sendCount ?c = 0" "\<not> fileDataSending ?c"
    by (simp_all add: fresh_client_def init_sendBufferMSG_def)
  have h: "client_header wit_request_server ?c (flat 0 [[7]]) wit_header"
    using wit_facts(7) by (simp add: client_header_def st)
  have tcp: "s_nProtocol (cfg wit_request_server) = STSV_TCP_PROTOCOL"
    by (simp add: st wit_server_def fresh_config_def STSV_TCP_PROTOCOL_def)
  have tx: "0 \<notin> set (tx (net wit_request_server (socket ?c)))" "12 \<le> progress (tx (net wit_request_server (socket ?c)))"
    by (simp_all add: net progress_def)
  have str: "stream (rx (net wit_request_server (socket ?c))) =
      PACKDATASIZE_bytes wit_header @ packet_body (flat 0 [[7]]) @ []"
    unfolding net by (rule wit_facts(8))
  have env: "s_nServerType (cfg wit_request_server) \<noteq> STSV_ONETIME_CONNECTION"
    "crcTable wit_request_server = STOS_InitCRCTable \<lparr>s_CRC8Table = [], s_CRC16Table = [], s_CRC32Table = []\<rparr>"
    unfolding st by (rule wit_facts(9), rule wit_facts(10))
  from request_confirmed [OF st(1) wit_facts(2-4) c wit_facts(5,6) h str env tcp st(4) tx]
  show ?thesis by (auto simp: net wit_header_def)
qed

section \<open>A conversation with the game\<close>

text \<open>The callbacks of GameServer.cpp look at what has come and queue nothing.\<close>

lemma game_replies: "replies game_callbacks i (\<lambda>_. [])" "greets_silently game_callbacks i"
proof -
  have "ClientRequest s i = Inr s" if at: "client_at s i = Inr c" "unat (idx c) = i" and r: "received s i = Inr ms" for s c ms
  proof -
    from r obtain n where n: "STSV_GetDataCount (s_Client_t s) (int i) = Inr n"
      "foldR (receive_one s i) [] [0..<nat n] = Inr ms" by (auto simp: received_def bindR_Inr_iff)
    have "\<exists>p. STSV_GetData (s_Client_t s) (int i) (int j) = Inr p" if "j < nat n" for j
      using foldR_each [OF n(2), of j] that by (auto simp: receive_one_def bindR_Inr_iff)
    moreover have "n = recvCount c" using n(1) at(1) by (simp add: STSV_GetDataCount_def client_at_def)
    ultimately show ?thesis by (intro ClientRequest_returns [OF at]) simp
  qed
  then show "replies game_callbacks i (\<lambda>_. [])" by (auto simp: replies_def game_callbacks_def)
  show "greets_silently game_callbacks i"
    by (simp add: greets_silently_def game_callbacks_def ClientConnect_def ClientDisconnect_def)
qed

definition confirmations :: "(STSOCKMSGDATA_PACKDATASIZE \<times> u8 list list) list \<Rightarrow> u8 list" where
  "confirmations rs = concat (map (\<lambda>(h, ms). header_message STSOCKMSG_CONFIRM (pk_packNo h)) rs)"

lemma game_answers: "answers_bytes (\<lambda>_. []) rs = confirmations rs"
  by (induction rs) (auto simp: confirmations_def answer_def)

text \<open>
  The server as it is built here, with the callbacks of GameServer.cpp: every valid request of a client is
  confirmed once, in order and under its reference, and after the time-out the thread of the client ends
  with the client offline, its socket closed and one login less.
\<close>

lemma game_session_confirms:
  assumes "conversation s i c" and "requests_ok s c rs"
    and "stream (rx (net s (socket c))) = requests_bytes rs @ rest"
    and "0 \<notin> set (tx (net s (socket c)))" and "12 * length rs \<le> progress (tx (net s (socket c)))"
  shows "\<exists>s' c'. STSV_ClientThreadFuncAlway game_callbacks (replicate (length rs) 1 @ [0]) s i = Inr s' \<and>
    client_at s' i = Inr c' \<and> \<not> online c' \<and> closed (net s' (socket c)) \<and>
    sent (net s' (socket c)) = sent (net s (socket c)) @ confirmations rs \<and>
    s_nCurLoginCount s' = s_nCurLoginCount s - 1"
proof -
  have room: "\<forall>(h, ms) \<in> set rs. channel_room [] (map Queue ([] :: u8 list list))" by auto
  have "length (confirmations rs) = 12 * length rs" by (induction rs) (auto simp: confirmations_def)
  with assms(5) have "length (answers_bytes (\<lambda>_. []) rs) \<le> progress (tx (net s (socket c)))"
    by (simp add: game_answers)
  from thread_answers [OF assms(1) game_replies assms(2) room assms(3,4) this] show ?thesis by (simp add: game_answers)
qed

text \<open>
  C5: the life of a client, with the callbacks of GameServer.cpp. A connection that comes while a slot is ready is
  accepted into it; the client is told the number of the slot, each of its valid requests, however the
  network cuts them, is confirmed once, in order and under its reference, and nothing else is sent. After the
  time-out the thread ends, and the server counts as many logins as before.
\<close>

theorem game_serves_client:
  assumes srv: "ready_server s" and slot: "free_host s = int i" "i < 2 ^ 16" "client_at s i = Inr c" "ready_slot c"
    and acc: "accept_socket (ac_socks a) = Inr k" "ac_thread a = 0" "sent (ac_conn a) = []"
    and ok: "requests_ok s (c\<lparr>packRef := 0\<rparr>) rs" and str: "stream (rx (ac_conn a)) = requests_bytes rs @ rest"
    and tx: "0 \<notin> set (tx (ac_conn a))" "12 + 12 * length rs \<le> progress (tx (ac_conn a))"
  shows "\<exists>s1 s2 c2. AcceptConnection a s = Inr s1 \<and>
    STSV_ClientThreadFuncAlway game_callbacks (replicate (length rs) 1 @ [0]) s1 i = Inr s2 \<and>
    sent (net s2 k) = header_message STSOCKMSG_GIVEID (of_nat i) @ confirmations rs \<and>
    client_at s2 i = Inr c2 \<and> \<not> online c2 \<and> closed (net s2 k) \<and> s_nCurLoginCount s2 = s_nCurLoginCount s"
proof -
  have "12 \<le> progress (tx (ac_conn a))" using tx(2) by simp
  from accepted_conversation [OF srv slot acc(1,2) tx(1) this] obtain s1 c1 where
    s1: "AcceptConnection a s = Inr s1" "conversation s1 i c1" "socket c1 = k" "packRef c1 = 0" "cfg s1 = cfg s"
      "s_nCurLoginCount s1 = s_nCurLoginCount s + 1" "sent (net s1 k) = header_message STSOCKMSG_GIVEID (of_nat i)"
      "rx (net s1 k) = rx (ac_conn a)" "0 \<notin> set (tx (net s1 k))"
      "progress (tx (ac_conn a)) \<le> progress (tx (net s1 k)) + 12"
    by (auto simp: acc(3))
  have "requests_ok s1 c1 rs" using ok requests_ok_cong [of s1 s c1 "c\<lparr>packRef := 0\<rparr>"] s1(4,5) by simp
  from game_session_confirms [OF s1(2) this] str tx(2) s1 show ?thesis by auto
qed

text \<open>A server with one slot, and a connection with two requests, the first cut in two.\<close>

definition wit_lobby :: server where
  "wit_lobby = wit_session\<lparr>s_Client_t := [fresh_client 65536], cfg := (cfg wit_session)\<lparr>s_nMaxConnection := 1\<rparr>\<rparr>"

definition wit_visitor :: accept_os where
  "wit_visitor = wit_accept\<lparr>ac_conn := (net wit_session 9)\<rparr>"

lemma wit_visit:
  "ready_server wit_lobby" "free_host wit_lobby = int 0" "client_at wit_lobby 0 = Inr (fresh_client 65536)"
  "ready_slot (fresh_client 65536)" "requests_ok wit_lobby ((fresh_client 65536)\<lparr>packRef := 0\<rparr>) wit_requests"
proof -
  show "ready_slot (fresh_client 65536)"
    using wf_fresh_client [of 65536] by (simp add: ready_slot_def) (simp add: fresh_client_def init_sendBufferMSG_def)
  have off: "\<not> online (fresh_client 65536)" by (simp add: fresh_client_def init_sendBufferMSG_def)
  have wf: "wf_hosts wit_lobby" by (simp add: wf_hosts_def wit_lobby_def)
  show "client_at wit_lobby 0 = Inr (fresh_client 65536)" by (simp add: wit_lobby_def client_at_def get_at_def)
  show "ready_server wit_lobby"
    using wf wit_conversation by (simp add: ready_server_def conversation_def open_channel_def wit_lobby_def)
  have "free_host wit_lobby \<noteq> -1"
    using hosts.none_iff [of wit_lobby] off wf_hosts_length [OF wf] by (simp add: wit_lobby_def)
  then show "free_host wit_lobby = int 0"
    using hosts.found_range [of wit_lobby] wf_hosts_length [OF wf] by (auto simp: wit_lobby_def)
  show "requests_ok wit_lobby ((fresh_client 65536)\<lparr>packRef := 0\<rparr>) wit_requests"
    by (simp add: wit_requests_def wit_request_def client_header_def wit_lobby_def wit_session_def msg_type_defs)
qed

theorem game_serves_client_witness:
  "\<exists>s1 s2. AcceptConnection wit_visitor wit_lobby = Inr s1 \<and>
     STSV_ClientThreadFuncAlway game_callbacks [1, 1, 0] s1 0 = Inr s2 \<and>
     sent (net s2 9) = header_message STSOCKMSG_GIVEID 0 @ header_message STSOCKMSG_CONFIRM 1 @ header_message STSOCKMSG_CONFIRM 2"
proof -
  have len: "length wit_requests = 2" "replicate (length wit_requests) 1 @ [0] = [1, 1, 0]" by (simp_all add: wit_requests_def)
  have conf: "confirmations wit_requests = header_message STSOCKMSG_CONFIRM 1 @ header_message STSOCKMSG_CONFIRM 2"
    by (simp add: confirmations_def wit_requests_def wit_request_def)
  have conn: "ac_conn wit_visitor = net wit_session 9" "ac_thread wit_visitor = 0"
    "accept_socket (ac_socks wit_visitor) = Inr 9" using wit_accept_facts by (simp_all add: wit_visitor_def)
  have net: "net wit_session 9 = net wit_session k" for k by (simp add: wit_session_def)
  have c: "sent (ac_conn wit_visitor) = []" "0 \<notin> set (tx (ac_conn wit_visitor))"
    "12 + 12 * length wit_requests \<le> progress (tx (ac_conn wit_visitor))"
    by (simp_all add: conn len(1)) (simp_all add: wit_session_def progress_def)
  have str: "stream (rx (ac_conn wit_visitor)) = requests_bytes wit_requests @ []"
    unfolding conn by (subst net) (rule wit_session_facts(2))
  have zero: "(0 :: nat) < 2 ^ 16" "of_nat 0 = (0 :: u32)" by simp_all
  from game_serves_client [OF wit_visit(1,2) zero(1) wit_visit(3,4) conn(3,2) c(1) wit_visit(5) str c(2,3)]
  show ?thesis unfolding conf len(2) zero(2) by blast
qed

section \<open>main\<close>

text \<open>
  C18: after a good start \<open>main\<close> runs until a \<open>q\<close> is typed, and no longer: whatever keys come in, in any
  rounds of its loop and also when none waits, without a \<open>q\<close> among them it does not return. With a \<open>q\<close> it
  comes to its end with 0 as soon as it has read that far (one key per round): whatever the threads of the server did
  meanwhile, in any order, the listening socket and the sockets of the clients that are online then are closed.
\<close>

theorem main_stops_on_q:
  assumes init: "STSV_Init my env (set_callbacks s) d = Inr (0, s1, d1)"
    and env: "sane_env env (cfg s1)" "s_nProtocol (cfg s1) \<in> {STSV_TCP_PROTOCOL, STSV_UDP_PROTOCOL}"
      "length (s_BigDataUse s) = STSV_BIGDATA_POOL_BLOCK"
    and threads: "others (s1, d1) = (s2, d2)" "server_run game_callbacks s1 s2" "wf_db (cfg s2) d2"
  shows "if 113 \<notin> set (concat typed) then server_main my env typed others s d = Inl Blocked
    else \<forall>n \<ge> length (concat typed). \<exists>s' d'. server_main my env (typed @ replicate n []) others s d = Inr (0, s', d') \<and>
      closed (net s' (listenSocket (s_ServerDesc s2))) \<and>
      (\<forall>i < length (s_Client_t s2). online (s_Client_t s2 ! i) \<longrightarrow> closed (net s' (socket (s_Client_t s2 ! i))))"
proof (cases "113 \<in> set (concat typed)")
  case False
  then have "main_loop typed [] = Inl Blocked" by (intro main_loop_waits) simp
  with False init show ?thesis by (simp add: server_main_def)
next
  case True
  have "length (s_BigDataUse (set_callbacks s)) = STSV_BIGDATA_POOL_BLOCK" using env(3) by simp
  from game.run_wf [OF threads(2) started_wf [OF init env(1,2) this]]
  have hosts: "wf_hosts s2" by (simp add: wf_server_def)
  from Stop_returns [OF hosts threads(3), of my] obtain s' d' where stop: "STSV_Stop my s2 d2 = Inr (0, s', d')" by blast
  have "server_main my env (typed @ replicate n []) others s d = Inr (0, s', d')" if "length (concat typed) \<le> n" for n
    using init threads(1) main_loop_reads_q [of "[]" typed n] True that stop
    by (simp add: server_main_def InitGameServer_def DestroyGameServer_def)
  with Stop_closes_the_sockets [OF hosts stop] True show ?thesis by auto
qed

text \<open>
  C37: when \<open>STSV_Init\<close> fails before the clients are allocated but after the configuration is read,
  \<open>main\<close> does not come to its end: it calls \<open>STSV_Stop\<close> all the same, which looks at every client of a
  table that is not there.
\<close>

theorem failed_start_crashes:
  assumes "STSV_Init my env (set_callbacks s) d = Inr (-1, s1, d1)" and "s_Client_t s1 = []"
    and "0 < s_nMaxConnection (cfg s1)"
  shows "server_main my env typed others s d = Inl OutOfBounds"
proof -
  obtain m where m: "nat (s_nMaxConnection (cfg s1)) = Suc m" using assms(3) by (metis gr0_implies_Suc zero_less_nat_eq)
  have "stop_client s1 0 = Inl OutOfBounds" using assms(2) by (simp add: stop_client_def client_at_def get_at_def)
  then have "STSV_Stop my s1 d1 = Inl OutOfBounds"
    by (simp add: STSV_Stop_def m upt_conv_Cons del: upt_Suc)
  with assms(1) show ?thesis by (simp add: server_main_def)
qed

lemma set_callbacks_fresh:
  "no_config (set_callbacks (fresh_server []))" "cfg (set_callbacks (fresh_server [])) = fresh_config"
  "s_bUnlimit (set_callbacks (fresh_server []))" "length (s_BigDataUse (set_callbacks (fresh_server []))) = STSV_BIGDATA_POOL_BLOCK"
  by (simp_all add: set_callbacks_def STSV_SetUnlimitServer_def STSV_SetClientRequestFunction_def
      STSV_SetClientConnectFunction_def STSV_SetClientDisconnectFunction_def fresh_server_def STSV_BIGDATA_POOL_BLOCK_def)

theorem main_stops_on_q_witness:
  "server_main wit_api wit_env [[], [97]] id (fresh_server []) wit_db = Inl Blocked \<and>
   (\<exists>s' d'. server_main wit_api wit_env [[], [97, 113], [], []] id (fresh_server []) wit_db = Inr (0, s', d') \<and> closed (net s' 3))"
proof -
  obtain s1 d1 where init: "STSV_Init wit_api wit_env (set_callbacks (fresh_server [])) wit_db = Inr (0, s1, d1)"
    and k: "s_nMaxConnection (cfg s1) = 251" "s_nProtocol (cfg s1) = 0" "s_nDataBuffer (cfg s1) = 65536"
    using wit_started_unlimit [OF set_callbacks_fresh(1-3)] by blast
  have env: "sane_env wit_env (cfg s1)" using k by (simp add: sane_env_def wit_env_def)
  have proto: "s_nProtocol (cfg s1) \<in> {STSV_TCP_PROTOCOL, STSV_UDP_PROTOCOL}" using k by (simp add: STSV_TCP_PROTOCOL_def)
  have pool: "length (s_BigDataUse (fresh_server [])) = STSV_BIGDATA_POOL_BLOCK" using set_callbacks_fresh(4) by simp
  from Init_ready [OF init env proto set_callbacks_fresh(4)]
  have wf: "wf_db (cfg s1) d1" "listenSocket (s_ServerDesc s1) = 3" by (simp_all add: wit_env_def)
  have "id (s1, d1) = (s1, d1)" by simp
  note main = main_stops_on_q [where others = id, OF init env proto pool this run_start wf(1)]
  from main [of "[[], [97]]"]
  have "server_main wit_api wit_env [[], [97]] id (fresh_server []) wit_db = Inl Blocked" by simp
  moreover from main [of "[[], [97, 113]]"] wf(2)
  have "\<exists>s' d'. server_main wit_api wit_env [[], [97, 113], [], []] id (fresh_server []) wit_db = Inr (0, s', d') \<and> closed (net s' 3)"
    by (auto dest!: spec [of _ "2 :: nat"] simp: numeral_2_eq_2)
  ultimately show ?thesis by blast
qed

theorem failed_start_crashes_witness:
  "server_main wit_api (wit_env\<lparr>env_clients := False\<rparr>) [] id (fresh_server []) wit_db = Inl OutOfBounds"
proof -
  let ?env = "wit_env\<lparr>env_clients := False\<rparr>" and ?s = "set_callbacks (fresh_server [])"
  from wit_bigdata [of ?s] obtain s1 where
    s1: "initBigDataMemory (env_bigdata wit_env) (wit_begin ?s) = (0, s1)"
      "cfg s1 = (cfg ?s)\<lparr>s_bDebugVersion := True\<rparr>" "files s1 = files ?s" "no_create s1 = no_create ?s" "s_bUnlimit s1 = s_bUnlimit ?s"
      "s_nMaxStackSize s1 = sint (ucast (env_stack wit_env) :: s32)" by blast
  have start: "no_config s1" "cfg s1 = fresh_config\<lparr>s_bDebugVersion := True\<rparr>"
    using s1(2-4) set_callbacks_fresh by simp_all
  from wit_config [OF start] obtain s2 where s2: "read_config wit_env s1 = Inr s2"
    "s_nServerMEMG (cfg s2) = 2" "s_nDataBuffer (cfg s2) = 65536" "s_nMaxStackSize s2 = s_nMaxStackSize s1" by blast
  have rc: "read_config ?env s1 = Inr s2" using s2(1) by (simp add: read_config_def)
  have n: "sint (ucast (memoryHave (cfg s2) div memPerUser ?env 8388608 (cfg s2)) :: s32) = 251"
    using wit_room_for [OF s2(2,3)] by (simp add: memPerUser_def)
  let ?s3 = "s2\<lparr>cfg := (cfg s2)\<lparr>s_nMaxConnection := 251, s_nMaxRoom := 125\<rparr>, s_Client_t := []\<rparr>"
  have "InitServerUnlimit wit_api ?env s1 wit_db = Inr (-1, ?s3, wit_db)"
    using rc s2(4) s1(6) wit_stack n by (simp add: InitServerUnlimit_def Let_def alloc_all_def alloc_clients_def)
  moreover have "initBigDataMemory (env_bigdata ?env) (wit_begin ?s) = (0, s1)" "s_bUnlimit s1"
    using s1(1,5) set_callbacks_fresh(3) by simp_all
  ultimately have "\<exists>n. STSV_Init wit_api ?env ?s wit_db = Inr (-1, ?s3\<lparr>s_EstimateRam := n\<rparr>, wit_db)"
    by (simp add: STSV_Init_def Let_def wit_begin_def) (rule exI, rule refl)
  then obtain n where "STSV_Init wit_api ?env ?s wit_db = Inr (-1, ?s3\<lparr>s_EstimateRam := n\<rparr>, wit_db)" by blast
  from failed_start_crashes [OF this] show ?thesis by simp
qed

end
