(* ===== verification/Star_Log.thy ===== *)
theory Star_Log
  imports Star_Files
begin

text \<open>
  The log file and the clocks: \<open>_StartServerLog\<close>, \<open>LogString\<close>, \<open>STOS_GetTickCount\<close> and
  \<open>GetTimeMillisec\<close>. The local time, the text of \<open>ctime\<close> and the results of \<open>gettimeofday\<close> are
  arguments. The components do not follow their calls of \<open>LogString\<close>: they print a message that is
  put together already.
\<close>

section \<open>The log file\<close>

record tm =
  tm_year :: nat
  tm_mon :: nat
  tm_mday :: nat
  tm_hour :: nat
  tm_min :: nat
  tm_sec :: nat

record logger =
  logFileName :: string
  startServerTime :: string
  s_bWriteLog :: bool

text \<open>The year is counted in the Buddhist era.\<close>

definition log_path :: "tm \<Rightarrow> string" where
  "log_path t = ''LOG/StarSocketServer'' @ dec (tm_year t + 1900 + 543) @ dec_pad 2 (tm_mon t + 1) @ dec_pad 2 (tm_mday t) @
     ''_'' @ dec_pad 2 (tm_hour t) @ dec_pad 2 (tm_min t) @ dec_pad 2 (tm_sec t) @ ''.log''"

definition StartServerLog :: "tm \<Rightarrow> string \<Rightarrow> logger \<Rightarrow> server \<Rightarrow> logger \<times> server" where
  "StartServerLog t ctime l s =
     (let l = l\<lparr>logFileName := log_path t, startServerTime := ctime\<rparr> in
      case fopen_wb s (log_path t) of
        None \<Rightarrow> (l, s)
      | Some s \<Rightarrow> (l, fappend s (log_path t) (bytes (''Log file Star Server Started '' @ ctime))))"

text \<open>The message is formatted into a local buffer of 1024 characters; the lock is waited for in an empty loop.\<close>

definition LogString :: "string \<Rightarrow> logger \<Rightarrow> server \<Rightarrow> string \<Rightarrow> (logger \<times> server) result" where
  "LogString ctime l s buff =
     (if \<not> s_bDebugVersion (cfg s) then Inr (l, s)
      else if s_bWriteLog l then Inl Blocked
      else if 1024 < length buff + 1 then Inl OutOfBounds
      else
        Inr (l\<lparr>s_bWriteLog := False\<rparr>,
          case fopen_ab s (logFileName l) of
            None \<Rightarrow> s
          | Some s \<Rightarrow> fappend (fappend s (logFileName l) (bytes (''->'' @ ctime @ '' : '' @ buff))) (logFileName l) (bytes [LF])))"

section \<open>The clocks\<close>

text \<open>The seconds are a 64-bit number; the count of the milliseconds wraps at 32 bits.\<close>

definition STOS_GetTickCount :: "int \<Rightarrow> int \<Rightarrow> u32" where
  "STOS_GetTickCount tv_sec tv_usec = word_of_int (tv_sec * 1000 + tv_usec div 1000)"

definition GetTimeMillisec :: "int \<Rightarrow> int \<Rightarrow> int" where
  "GetTimeMillisec now tv_usec = now * 1000 + tv_usec div 1000"

section \<open>What they do\<close>

fun logged :: "string \<Rightarrow> string \<Rightarrow> u8 list" where
  "logged ctime msg = bytes (''->'' @ ctime @ '' : '' @ msg @ [LF])"

text \<open>
  Every branch of \<open>LogString\<close>: nothing without the debug flag; a message that fits is appended to
  the log file, in a line of its own with the time in front, or dropped when the file cannot be opened;
  a message of 1024 characters or more leaves the buffer it is formatted into.
\<close>

lemma LogString_appends:
  assumes "\<not> s_bWriteLog l"
  shows "(\<not> s_bDebugVersion (cfg s) \<longrightarrow> LogString ctime l s msg = Inr (l, s)) \<and>
    (s_bDebugVersion (cfg s) \<and> 1024 \<le> length msg \<longrightarrow> LogString ctime l s msg = Inl OutOfBounds) \<and>
    (s_bDebugVersion (cfg s) \<and> length msg < 1024 \<and> \<not> no_create s (logFileName l) \<longrightarrow>
      LogString ctime l s msg = Inr (l, s\<lparr>files := (files s)(logFileName l \<mapsto>
        (case files s (logFileName l) of None \<Rightarrow> [] | Some old \<Rightarrow> old) @ logged ctime msg)\<rparr>)) \<and>
    (s_bDebugVersion (cfg s) \<and> length msg < 1024 \<and> no_create s (logFileName l) \<longrightarrow> LogString ctime l s msg = Inr (l, s))"
proof -
  have l: "l\<lparr>s_bWriteLog := False\<rparr> = l" using assms by (cases l) simp
  show ?thesis
    using assms by (simp add: LogString_def l fopen_ab_def fappend_def bytes_def split: option.splits)
qed

text \<open>The wrap of the tick count does not matter for a difference of less than 49 days.\<close>

lemma ticks_elapsed:
  assumes "0 \<le> d" and "d < 2 ^ 32" and "sec' * 1000 + usec' div 1000 = sec * 1000 + usec div 1000 + d"
  shows "uint (STOS_GetTickCount sec' usec' - STOS_GetTickCount sec usec) = d"
proof -
  have "STOS_GetTickCount sec' usec' - STOS_GetTickCount sec usec = word_of_int d"
    unfolding STOS_GetTickCount_def assms(3) by (simp add: wi_hom_sub)
  then show ?thesis using assms(1,2) by (simp add: uint_word_of_int)
qed

definition wit_log :: logger where
  "wit_log = \<lparr>logFileName = ''LOG/a'', startServerTime = [], s_bWriteLog = False\<rparr>"

lemma LogString_appends_witness:
  "\<exists>s'. LogString ''now'' wit_log ((fresh_server [])\<lparr>cfg := fresh_config\<lparr>s_bDebugVersion := True\<rparr>\<rparr>) ''on'' = Inr (wit_log, s') \<and>
     files s' ''LOG/a'' = Some (logged ''now'' ''on'')"
proof -
  let ?s = "(fresh_server [])\<lparr>cfg := fresh_config\<lparr>s_bDebugVersion := True\<rparr>\<rparr>"
  have "\<not> s_bWriteLog wit_log" "s_bDebugVersion (cfg ?s)" "\<not> no_create ?s (logFileName wit_log)"
    "files ?s (logFileName wit_log) = None" "logFileName wit_log = ''LOG/a''"
    by (simp_all add: wit_log_def fresh_server_def)
  with LogString_appends [of wit_log ?s "''now''" "''on''"] show ?thesis by simp
qed

section \<open>The flag is no lock\<close>

text \<open>
  The statements of \<open>LogString\<close> between which another thread can come: waiting for \<open>s_bWriteLog\<close> to be clear,
  setting it, writing the file and the terminal, clearing it.
\<close>

datatype log_pc = LogOutside | LogWaiting | LogSetting | LogWriting

record log_threads =
  writing_flag :: bool
  log_at :: "nat \<Rightarrow> log_pc"

definition log_goto :: "log_threads \<Rightarrow> nat \<Rightarrow> log_pc \<Rightarrow> log_threads" where
  "log_goto p t pc = p\<lparr>log_at := (log_at p)(t := pc)\<rparr>"

inductive log_step :: "log_threads \<Rightarrow> log_threads \<Rightarrow> bool" where
  log_call: "log_at p t = LogOutside \<Longrightarrow> log_step p (log_goto p t LogWaiting)"
| log_clear: "log_at p t = LogWaiting \<Longrightarrow> \<not> writing_flag p \<Longrightarrow> log_step p (log_goto p t LogSetting)"
| log_set: "log_at p t = LogSetting \<Longrightarrow> log_step p (log_goto (p\<lparr>writing_flag := True\<rparr>) t LogWriting)"
| log_written: "log_at p t = LogWriting \<Longrightarrow> log_step p (log_goto (p\<lparr>writing_flag := False\<rparr>) t LogOutside)"

definition log_move :: "nat \<Rightarrow> log_threads \<Rightarrow> log_threads" where
  "log_move t p = (case log_at p t of
     LogOutside \<Rightarrow> log_goto p t LogWaiting
   | LogWaiting \<Rightarrow> if writing_flag p then p else log_goto p t LogSetting
   | LogSetting \<Rightarrow> log_goto (p\<lparr>writing_flag := True\<rparr>) t LogWriting
   | LogWriting \<Rightarrow> log_goto (p\<lparr>writing_flag := False\<rparr>) t LogOutside)"

lemma log_moves: "log_step\<^sup>*\<^sup>* p (fold log_move ts p)"
proof (induction ts arbitrary: p)
  case (Cons t ts)
  have "log_step\<^sup>*\<^sup>* p (log_move t p)"
    by (auto simp: log_move_def split: log_pc.split intro: log_step.intros)
  then show ?case using Cons.IH [of "log_move t p"] by simp
qed simp

definition no_loggers :: log_threads where
  "no_loggers = \<lparr>writing_flag = False, log_at = (\<lambda>_. LogOutside)\<rparr>"

text \<open>
  Two threads can both see the flag clear and write at the same time; when the first is done it clears the flag, and a
  third comes in while the second still writes.
\<close>

lemma two_threads_log:
  "\<exists>p q. log_step\<^sup>*\<^sup>* no_loggers p \<and> log_at p 0 = LogWriting \<and> log_at p 1 = LogWriting \<and>
     log_step\<^sup>*\<^sup>* p q \<and> log_at q 1 = LogWriting \<and> log_at q 2 = LogWriting"
proof -
  let ?p = "fold log_move [0, 1, 0, 1, 0, 1] no_loggers"
  let ?q = "fold log_move [0, 2, 2, 2] ?p"
  have "log_at ?p 0 = LogWriting \<and> log_at ?p 1 = LogWriting \<and> log_at ?q 1 = LogWriting \<and> log_at ?q 2 = LogWriting"
    by (simp add: log_move_def log_goto_def no_loggers_def)
  then show ?thesis using log_moves [of no_loggers "[0, 1, 0, 1, 0, 1]"] log_moves [of ?p "[0, 2, 2, 2]"] by blast
qed

end
