(* ===== verification/Star_ByteOrder.thy ===== *)
theory Star_ByteOrder
  imports Star_Prelude
begin

text \<open>
  The byte-order functions of the MySQL client headers: my_byteorder.h with the generic and the x86
  variant of the fixed formats, and little_endian.h and big_endian.h for the machine formats. A
  store function is the list of the bytes it writes from \<open>T\<close> on; a function that reads takes the
  bytes from \<open>A\<close> on. A floating-point number is its representation in memory, as bytes.
\<close>

unbundle bit_operations_syntax

section \<open>byte\_order\_generic.h\<close>

definition sint2korr :: "u8 list \<Rightarrow> s16" where
  "sint2korr A = ucast (A ! 0) + push_bit 8 (ucast (A ! 1))"

definition sint4korr :: "u8 list \<Rightarrow> s32" where
  "sint4korr A = ucast (A ! 0) + push_bit 8 (ucast (A ! 1)) + push_bit 16 (ucast (A ! 2)) + push_bit 24 (ucast (A ! 3))"

definition uint2korr :: "u8 list \<Rightarrow> u16" where
  "uint2korr A = ucast (A ! 0) + push_bit 8 (ucast (A ! 1))"

definition uint4korr :: "u8 list \<Rightarrow> u32" where
  "uint4korr A = ucast (A ! 0) + push_bit 8 (ucast (A ! 1)) + push_bit 16 (ucast (A ! 2)) + push_bit 24 (ucast (A ! 3))"

definition uint8korr :: "u8 list \<Rightarrow> u64" where
  "uint8korr A =
     ucast (ucast (A ! 0) + push_bit 8 (ucast (A ! 1)) + push_bit 16 (ucast (A ! 2)) + push_bit 24 (ucast (A ! 3)) :: u32) +
     push_bit 32 (ucast (ucast (A ! 4) + push_bit 8 (ucast (A ! 5)) + push_bit 16 (ucast (A ! 6)) +
       push_bit 24 (ucast (A ! 7)) :: u32))"

definition sint8korr :: "u8 list \<Rightarrow> 64 word" where
  "sint8korr A = uint8korr A"

definition int2store :: "u16 \<Rightarrow> u8 list" where
  "int2store A = (let def_temp = ucast A :: u32 in [ucast def_temp, ucast (drop_bit 8 def_temp)])"

definition int4store :: "u32 \<Rightarrow> u8 list" where
  "int4store A = [ucast A, ucast (drop_bit 8 A), ucast (drop_bit 16 A), ucast (drop_bit 24 A)]"

definition int8store :: "u64 \<Rightarrow> u8 list" where
  "int8store A = (let def_temp = ucast A :: u32; def_temp2 = ucast (drop_bit 32 A) :: u32
                  in int4store def_temp @ int4store def_temp2)"

section \<open>my\_byteorder.h\<close>

definition sint3korr :: "u8 list \<Rightarrow> s32" where
  "sint3korr A =
     (if A ! 2 AND 128 \<noteq> 0
      then push_bit 24 255 OR push_bit 16 (ucast (A ! 2)) OR push_bit 8 (ucast (A ! 1)) OR ucast (A ! 0)
      else push_bit 16 (ucast (A ! 2)) OR push_bit 8 (ucast (A ! 1)) OR ucast (A ! 0))"

definition uint3korr :: "u8 list \<Rightarrow> u32" where
  "uint3korr A = ucast (A ! 0) + push_bit 8 (ucast (A ! 1)) + push_bit 16 (ucast (A ! 2))"

definition uint5korr :: "u8 list \<Rightarrow> u64" where
  "uint5korr A =
     ucast (ucast (A ! 0) + push_bit 8 (ucast (A ! 1)) + push_bit 16 (ucast (A ! 2)) + push_bit 24 (ucast (A ! 3)) :: u32) +
     push_bit 32 (ucast (A ! 4))"

definition uint6korr :: "u8 list \<Rightarrow> u64" where
  "uint6korr A =
     ucast (ucast (A ! 0) + push_bit 8 (ucast (A ! 1)) + push_bit 16 (ucast (A ! 2)) + push_bit 24 (ucast (A ! 3)) :: u32) +
     push_bit 32 (ucast (A ! 4)) + push_bit 40 (ucast (A ! 5))"

definition int3store :: "u32 \<Rightarrow> u8 list" where
  "int3store A = [ucast A, ucast (drop_bit 8 A), ucast (drop_bit 16 A)]"

definition int5store :: "u64 \<Rightarrow> u8 list" where
  "int5store A = [ucast A, ucast (drop_bit 8 A), ucast (drop_bit 16 A), ucast (drop_bit 24 A), ucast (drop_bit 32 A)]"

definition int6store :: "u64 \<Rightarrow> u8 list" where
  "int6store A = [ucast A, ucast (drop_bit 8 A), ucast (drop_bit 16 A), ucast (drop_bit 24 A), ucast (drop_bit 32 A),
     ucast (drop_bit 40 A)]"

section \<open>byte\_order\_generic\_x86.h\<close>

text \<open>The accesses through a cast pointer, on the little-endian machine of the prelude.\<close>

definition le64 :: "u64 \<Rightarrow> u8 list" where
  "le64 w = map (\<lambda>i. ucast (drop_bit (8 * i) w)) [0..<8]"

definition un64 :: "u8 list \<Rightarrow> u64" where
  "un64 bs = ucast (un32 [bs ! 0, bs ! 1, bs ! 2, bs ! 3]) OR push_bit 32 (ucast (un32 [bs ! 4, bs ! 5, bs ! 6, bs ! 7]))"

definition x86_sint2korr :: "u8 list \<Rightarrow> s16" where "x86_sint2korr A = un16 A"
definition x86_sint4korr :: "u8 list \<Rightarrow> s32" where "x86_sint4korr A = un32 A"
definition x86_uint2korr :: "u8 list \<Rightarrow> u16" where "x86_uint2korr A = un16 A"
definition x86_uint4korr :: "u8 list \<Rightarrow> u32" where "x86_uint4korr A = un32 A"
definition x86_uint8korr :: "u8 list \<Rightarrow> u64" where "x86_uint8korr A = un64 A"
definition x86_sint8korr :: "u8 list \<Rightarrow> 64 word" where "x86_sint8korr A = un64 A"
definition x86_int2store :: "u16 \<Rightarrow> u8 list" where "x86_int2store A = le16 A"
definition x86_int4store :: "u32 \<Rightarrow> u8 list" where "x86_int4store A = le32 A"
definition x86_int8store :: "u64 \<Rightarrow> u8 list" where "x86_int8store A = le64 A"

section \<open>Sums of shifted bytes\<close>

lemma u8_bits: "bit (b :: u8) n \<Longrightarrow> n < 8"
  using bit_imp_le_length [of b n] by simp

lemma u32_bits: "bit (b :: u32) n \<Longrightarrow> n < 32"
  using bit_imp_le_length [of b n] by simp

lemma add_high: "take_bit n x = x \<Longrightarrow> x + push_bit n y = x OR push_bit n y" for x y :: "'a::len word"
  by (rule disjunctive_add_eq_or) (auto simp: bit_eq_iff bit_simps)

lemma byte_low: "8 \<le> n \<Longrightarrow> take_bit n (ucast (b :: u8)) = (ucast b :: 'a::len word)"
  by (rule bit_word_eqI) (auto simp: bit_simps dest: u8_bits)

lemma word_low: "take_bit 32 (ucast (b :: u32)) = (ucast b :: 'a::len word)"
  by (rule bit_word_eqI) (auto simp: bit_simps dest: u32_bits)

lemma bytes_low:
  assumes "take_bit n x = x" and "n + 8 \<le> m"
  shows "take_bit m (x OR push_bit n (ucast (b :: u8))) = (x OR push_bit n (ucast b) :: 'a::len word)"
proof (rule bit_word_eqI)
  fix k assume "k < LENGTH('a)"
  have "bit x k \<Longrightarrow> k < n" for k using arg_cong [OF assms(1), of "\<lambda>w. bit w k"] by (simp add: bit_simps)
  then show "bit (take_bit m (x OR push_bit n (ucast b))) k = bit (x OR push_bit n (ucast b)) k"
    using assms(2) by (fastforce simp: bit_simps dest: u8_bits)
qed

lemma sum2: "ucast (a::u8) + push_bit 8 (ucast (b::u8)) = (ucast a OR push_bit 8 (ucast b) :: 'a::len word)"
  by (rule add_high, rule byte_low) simp

lemma sum3: "ucast (a::u8) + push_bit 8 (ucast (b::u8)) + push_bit 16 (ucast (c::u8)) =
    (ucast a OR push_bit 8 (ucast b) OR push_bit 16 (ucast c) :: 'a::len word)"
  unfolding sum2 by (subst add_high, rule bytes_low, rule byte_low) (simp_all add: or.assoc)

lemma low3: "24 \<le> m \<Longrightarrow> take_bit m (ucast (a::u8) OR push_bit 8 (ucast (b::u8)) OR push_bit 16 (ucast (c::u8))) =
    (ucast a OR push_bit 8 (ucast b) OR push_bit 16 (ucast c) :: 'a::len word)"
  unfolding or.assoc [symmetric] by (rule bytes_low, rule bytes_low, rule byte_low) simp_all

lemma sum4: "ucast (a::u8) + push_bit 8 (ucast (b::u8)) + push_bit 16 (ucast (c::u8)) + push_bit 24 (ucast (d::u8)) =
    (ucast a OR push_bit 8 (ucast b) OR push_bit 16 (ucast c) OR push_bit 24 (ucast d) :: 'a::len word)"
  unfolding sum3 by (subst add_high, rule low3) (simp_all add: or.assoc)

lemma sum32: "ucast (x :: u32) + push_bit 32 y = (ucast x OR push_bit 32 y :: 'a::len word)"
  by (rule add_high, rule word_low)

lemma sum40: "ucast (x :: u32) + push_bit 32 (ucast (b :: u8)) + push_bit 40 (ucast (c :: u8)) =
    (ucast x OR push_bit 32 (ucast b) OR push_bit 40 (ucast c) :: 'a::len word)"
  unfolding sum32 by (subst add_high, rule bytes_low, rule word_low) (simp_all add: or.assoc)

lemmas byte_sums = sum4 sum3 sum2 sum40 sum32
lemmas korr_defs = sint2korr_def sint4korr_def uint2korr_def uint4korr_def uint8korr_def sint8korr_def
  uint3korr_def uint5korr_def uint6korr_def
lemmas store_defs = int2store_def int4store_def int8store_def int3store_def int5store_def int6store_def
lemmas x86_defs = x86_sint2korr_def x86_sint4korr_def x86_uint2korr_def x86_uint4korr_def x86_uint8korr_def
  x86_sint8korr_def x86_int2store_def x86_int4store_def x86_int8store_def

section \<open>What is stored is read\<close>

lemma korr_2: "uint2korr (int2store a) = a"
  unfolding uint2korr_def int2store_def Let_def sum2
  by (rule bit_word_eqI) (auto simp: bit_simps not_le)

lemma bytes_32:
  "(ucast (ucast w :: u8) OR push_bit 8 (ucast (ucast (drop_bit 8 w) :: u8)) OR
    push_bit 16 (ucast (ucast (drop_bit 16 w) :: u8)) OR push_bit 24 (ucast (ucast (drop_bit 24 w) :: u8)) :: u32) =
   ucast (w :: 'a::len word)"
proof (rule bit_word_eqI)
  fix k assume "k < LENGTH(32)"
  then have "k < 8 \<or> (8 \<le> k \<and> k < 16) \<or> (16 \<le> k \<and> k < 24) \<or> (24 \<le> k \<and> k < 32)" by auto
  then show "bit (ucast (ucast w :: u8) OR push_bit 8 (ucast (ucast (drop_bit 8 w) :: u8)) OR
    push_bit 16 (ucast (ucast (drop_bit 16 w) :: u8)) OR push_bit 24 (ucast (ucast (drop_bit 24 w) :: u8)) :: u32) k =
    bit (ucast w :: u32) k"
    by (elim disjE conjE) (auto simp: bit_simps)
qed

lemma korr_4: "uint4korr (int4store a) = a"
  unfolding uint4korr_def int4store_def sum4 by (simp add: bytes_32)

lemma korr_8: "uint8korr (int8store a) = a"
proof -
  have "uint8korr (int8store a) = ucast (ucast a :: u32) OR push_bit 32 (ucast (ucast (drop_bit 32 a) :: u32))"
    unfolding uint8korr_def int8store_def int4store_def Let_def sum4 sum32
    by (simp add: bytes_32)
  also have "\<dots> = a" by (rule bit_word_eqI) (auto simp: bit_simps not_less)
  finally show ?thesis .
qed

lemma korr_3: "uint3korr (int3store a) = take_bit 24 a"
proof (rule bit_word_eqI)
  fix k assume "k < LENGTH(32)"
  then consider "k < 8" | "8 \<le> k" "k < 16" | "16 \<le> k" "k < 24" | "24 \<le> k" "k < 32" by fastforce
  then show "bit (uint3korr (int3store a)) k = bit (take_bit 24 a) k"
    unfolding uint3korr_def int3store_def sum3 by cases (auto simp: bit_simps)
qed

lemma korr_5: "uint5korr (int5store a) = take_bit 40 a"
proof -
  have "uint5korr (int5store a) = ucast (ucast a :: u32) OR push_bit 32 (ucast (ucast (drop_bit 32 a) :: u8))"
    unfolding uint5korr_def int5store_def sum4 sum32 by (simp add: bytes_32)
  also have "\<dots> = take_bit 40 a" by (rule bit_word_eqI) (auto simp: bit_simps not_less)
  finally show ?thesis .
qed

lemma korr_6: "uint6korr (int6store a) = take_bit 48 a"
proof -
  have "uint6korr (int6store a) = ucast (ucast a :: u32) OR push_bit 32 (ucast (ucast (drop_bit 32 a) :: u8)) OR
      push_bit 40 (ucast (ucast (drop_bit 40 a) :: u8))"
    unfolding uint6korr_def int6store_def sum4 sum40 by (simp add: bytes_32)
  also have "\<dots> = take_bit 48 a"
  proof (rule bit_word_eqI)
    fix k assume "k < LENGTH(64)"
    then consider "k < 32" | "32 \<le> k" "k < 40" | "40 \<le> k" "k < 48" | "48 \<le> k" "k < 64" by fastforce
    then show "bit (ucast (ucast a :: u32) OR push_bit 32 (ucast (ucast (drop_bit 32 a) :: u8)) OR
      push_bit 40 (ucast (ucast (drop_bit 40 a) :: u8)) :: u64) k = bit (take_bit 48 a) k"
      by cases (auto simp: bit_simps)
  qed
  finally show ?thesis .
qed

lemma korr_s3: "sint3korr (int3store a) = signed_take_bit 23 a"
proof (rule bit_word_eqI)
  fix k assume k: "k < LENGTH(32)"
  define h where "h = (push_bit 24 255 :: u32)"
  have h: "bit h j \<longleftrightarrow> 24 \<le> j \<and> j < 32" for j
  proof -
    have "h = push_bit 24 (mask 8)" unfolding h_def by code_simp
    then show ?thesis by (auto simp: bit_push_bit_iff bit_mask_iff)
  qed
  have neg: "(ucast (drop_bit 16 a) :: u8) AND 128 \<noteq> 0 \<longleftrightarrow> bit a 23"
  proof -
    have b: "bit (128 :: u8) n \<longleftrightarrow> n = 7" if "n < 8" for n
    proof -
      from that have "n = 0 \<or> n = 1 \<or> n = 2 \<or> n = 3 \<or> n = 4 \<or> n = 5 \<or> n = 6 \<or> n = 7" by auto
      then show ?thesis by (elim disjE) simp_all
    qed
    have "(ucast (drop_bit 16 a) :: u8) AND 128 = (if bit a 23 then 128 else 0)"
    proof (rule bit_word_eqI)
      fix n assume "n < LENGTH(8)"
      then have n: "n < 8" by simp
      show "bit ((ucast (drop_bit 16 a) :: u8) AND 128) n = bit (if bit a 23 then 128 else 0 :: u8) n"
        using n b [OF n] by (cases "n = 7") (simp_all add: bit_and_iff bit_ucast_iff bit_drop_bit_eq)
    qed
    then show ?thesis by simp
  qed
  have eq: "sint3korr (int3store a) =
      (if bit a 23 then h else 0) OR (push_bit 16 (ucast (ucast (drop_bit 16 a) :: u8)) OR
        push_bit 8 (ucast (ucast (drop_bit 8 a) :: u8)) OR ucast (ucast a :: u8))"
    unfolding sint3korr_def int3store_def using neg by (simp add: h_def)
  from k consider "k < 8" | "8 \<le> k" "k < 16" | "16 \<le> k" "k < 23" | "k = 23" | "24 \<le> k" "k < 32" by fastforce
  then show "bit (sint3korr (int3store a)) k = bit (signed_take_bit 23 a) k"
    unfolding eq by cases (auto simp: bit_simps h min_def)
qed

text \<open>
  C33: what a store function writes is what the function of the same width reads, for every width of
  the fixed format: all of a 2-, 4- or 8-byte number, the low 3, 5 or 6 bytes of a wider one, and for
  the signed 3-byte number its sign extended from bit 23.
\<close>

theorem stored_is_read:
  "uint2korr (int2store a) = a \<and> sint2korr (int2store a) = a \<and>
   uint4korr (int4store b) = b \<and> sint4korr (int4store b) = b \<and>
   uint8korr (int8store c) = c \<and> sint8korr (int8store c) = c \<and>
   uint3korr (int3store b) = take_bit 24 b \<and> sint3korr (int3store b) = signed_take_bit 23 b \<and>
   uint5korr (int5store c) = take_bit 40 c \<and> uint6korr (int6store c) = take_bit 48 c"
  using korr_2 [of a] korr_4 [of b] korr_8 [of c] korr_3 [of b] korr_s3 [of b] korr_5 [of c] korr_6 [of c]
  by (simp add: sint2korr_def uint2korr_def sint4korr_def uint4korr_def sint8korr_def)

lemma un64_uint8korr: "un64 A = uint8korr A"
  unfolding uint8korr_def sum4 sum32 un64_def un32_def by simp

lemma le64_int8store: "int8store a = le64 a"
  by (simp add: int8store_def int4store_def le64_def upt_rec Let_def)
    (auto intro!: bit_word_eqI simp: bit_simps)

text \<open>
  The optimised x86 functions, which access the memory as one number, and the generic ones, which
  take it apart byte by byte, are the same functions: of the bytes read, and in the bytes written.
\<close>

lemma generic_is_x86:
  "x86_uint2korr = uint2korr \<and> x86_sint2korr = sint2korr \<and> x86_uint4korr = uint4korr \<and>
   x86_sint4korr = sint4korr \<and> x86_uint8korr = uint8korr \<and> x86_sint8korr = sint8korr \<and>
   x86_int2store = int2store \<and> x86_int4store = int4store \<and> x86_int8store = int8store"
proof (intro conjI ext)
  fix A :: "u8 list"
  show "x86_uint2korr A = uint2korr A" "x86_sint2korr A = sint2korr A"
    unfolding x86_defs korr_defs sum2 un16_def by (rule refl)+
  show "x86_uint4korr A = uint4korr A" "x86_sint4korr A = sint4korr A"
    unfolding x86_defs korr_defs sum4 un32_def by (rule refl)+
  show u8: "x86_uint8korr A = uint8korr A" by (simp add: x86_defs un64_uint8korr)
  then show "x86_sint8korr A = sint8korr A" by (simp add: x86_defs korr_defs)
next
  show "x86_int2store a = int2store a" for a
    by (auto simp: x86_defs int2store_def le16_def Let_def intro!: bit_word_eqI) (auto simp: bit_simps)
  show "x86_int4store a = int4store a" for a by (simp add: x86_defs int4store_def le32_def)
  show "x86_int8store a = int8store a" for a by (simp add: x86_defs le64_int8store)
qed

section \<open>little\_endian.h\<close>

text \<open>Copies of a number as it is in the memory of a little-endian machine.\<close>

definition le_float4get :: "u8 list \<Rightarrow> u8 list" where "le_float4get M = [M ! 0, M ! 1, M ! 2, M ! 3]"
definition le_float4store :: "u8 list \<Rightarrow> u8 list" where "le_float4store M = [M ! 0, M ! 1, M ! 2, M ! 3]"

definition le_float8get :: "u8 list \<Rightarrow> u8 list" where
  "le_float8get M = [M ! 0, M ! 1, M ! 2, M ! 3, M ! 4, M ! 5, M ! 6, M ! 7]"

definition le_float8store :: "u8 list \<Rightarrow> u8 list" where
  "le_float8store M = [M ! 0, M ! 1, M ! 2, M ! 3, M ! 4, M ! 5, M ! 6, M ! 7]"

text \<open>On hardware that keeps the halves of a double the other way round.\<close>

definition bi_doublestore :: "u8 list \<Rightarrow> u8 list" where
  "bi_doublestore V = [V ! 4, V ! 5, V ! 6, V ! 7, V ! 0, V ! 1, V ! 2, V ! 3]"

definition bi_doubleget :: "u8 list \<Rightarrow> u8 list" where
  "bi_doubleget M = [M ! 4, M ! 5, M ! 6, M ! 7, M ! 0, M ! 1, M ! 2, M ! 3]"

definition le_ushortget :: "u8 list \<Rightarrow> u16" where "le_ushortget pM = uint2korr pM"
definition le_shortget :: "u8 list \<Rightarrow> s16" where "le_shortget pM = sint2korr pM"
definition le_longget :: "u8 list \<Rightarrow> s32" where "le_longget pM = sint4korr pM"
definition le_ulongget :: "u8 list \<Rightarrow> u32" where "le_ulongget pM = uint4korr pM"
definition le_shortstore :: "s16 \<Rightarrow> u8 list" where "le_shortstore V = int2store V"
definition le_longstore :: "s32 \<Rightarrow> u8 list" where "le_longstore V = int4store V"
definition le_longlongget :: "u8 list \<Rightarrow> 64 word" where "le_longlongget M = un64 M"
definition le_longlongstore :: "64 word \<Rightarrow> u8 list" where "le_longlongstore V = le64 V"

section \<open>big\_endian.h\<close>

text \<open>On a big-endian machine the representation of a number begins with its high byte.\<close>

definition be_float4store :: "u8 list \<Rightarrow> u8 list" where "be_float4store A = [A ! 3, A ! 2, A ! 1, A ! 0]"
definition be_float4get :: "u8 list \<Rightarrow> u8 list" where "be_float4get M = [M ! 3, M ! 2, M ! 1, M ! 0]"

definition be_float8store :: "u8 list \<Rightarrow> u8 list" where
  "be_float8store V = [V ! 7, V ! 6, V ! 5, V ! 4, V ! 3, V ! 2, V ! 1, V ! 0]"

definition be_float8get :: "u8 list \<Rightarrow> u8 list" where
  "be_float8get M = [M ! 7, M ! 6, M ! 5, M ! 4, M ! 3, M ! 2, M ! 1, M ! 0]"

definition be_ushortget :: "u8 list \<Rightarrow> u16" where
  "be_ushortget pM = ucast (pM ! 1) + push_bit 8 (ucast (pM ! 0))"

definition be_shortget :: "u8 list \<Rightarrow> s16" where
  "be_shortget pM = ucast (pM ! 1) + push_bit 8 (ucast (pM ! 0))"

text \<open>The value of a number whose representation is \<open>bs\<close>, on a big-endian machine.\<close>

definition be_value4 :: "u8 list \<Rightarrow> u32" where
  "be_value4 bs = un32 (rev bs)"

definition be_longget :: "u8 list \<Rightarrow> s32" where
  "be_longget pM = (let def_temp = [pM ! 0, pM ! 1, pM ! 2, pM ! 3] in be_value4 def_temp)"

definition be_ulongget :: "u8 list \<Rightarrow> u32" where
  "be_ulongget pM = (let def_temp = [pM ! 0, pM ! 1, pM ! 2, pM ! 3] in be_value4 def_temp)"

definition be_shortstore :: "s16 \<Rightarrow> u8 list" where
  "be_shortstore A = (let def_temp = scast A :: u32 in [ucast (drop_bit 8 def_temp), ucast def_temp])"

definition be_longstore :: "s32 \<Rightarrow> u8 list" where
  "be_longstore A = [ucast (signed_drop_bit 24 A), ucast (signed_drop_bit 16 A), ucast (signed_drop_bit 8 A), ucast A]"

definition be_longlongget :: "u8 list \<Rightarrow> 64 word" where
  "be_longlongget M = un64 [M ! 7, M ! 6, M ! 5, M ! 4, M ! 3, M ! 2, M ! 1, M ! 0]"

definition be_longlongstore :: "64 word \<Rightarrow> u8 list" where
  "be_longlongstore V = rev (le64 V)"

section \<open>The machine formats\<close>

text \<open>A number in the format of its machine is read back, and on a big-endian machine it is the reverse.\<close>

lemma be_long: "be_longget (be_longstore b) = b"
proof -
  have sd: "ucast (signed_drop_bit n b) = (ucast (drop_bit n b) :: u8)" if "n \<le> 24" for n
    using that by (intro bit_word_eqI) (auto simp: bit_simps)
  show ?thesis
    using bytes_32 [of b] by (simp add: be_longget_def be_longstore_def be_value4_def un32_def sd Let_def)
qed

lemma be_short: "be_shortget (be_shortstore a) = a"
  unfolding be_shortget_def be_shortstore_def Let_def sum2
  by (rule bit_word_eqI) (auto simp: bit_simps not_less)

lemma un64_le64: "un64 (le64 c) = c"
  using korr_8 [of c] by (simp add: un64_uint8korr le64_int8store)

lemma le64_explode: "le64 c = [le64 c ! 0, le64 c ! 1, le64 c ! 2, le64 c ! 3, le64 c ! 4, le64 c ! 5, le64 c ! 6, le64 c ! 7]"
  by (simp add: le64_def upt_rec)

lemma longlong: "le_longlongget (le_longlongstore c) = c" "be_longlongget (be_longlongstore c) = c"
proof -
  show "le_longlongget (le_longlongstore c) = c" by (simp add: le_longlongget_def le_longlongstore_def un64_le64)
  have "be_longlongget (rev [a0, a1, a2, a3, a4, a5, a6, a7]) = un64 [a0, a1, a2, a3, a4, a5, a6, a7]"
    for a0 a1 a2 a3 a4 a5 a6 a7 by (simp add: be_longlongget_def)
  then show "be_longlongget (be_longlongstore c) = c"
    unfolding be_longlongstore_def using le64_explode [of c] un64_le64 [of c] by metis
qed

text \<open>
  The machine formats. On either kind of machine the number that is stored is read back; and the
  stored format of a floating-point number does not depend on the machine: what the big-endian functions
  write for a number is what the little-endian ones write for it, from the reverse representation.
\<close>

lemma machine_formats:
  "le_shortget (le_shortstore a) = a \<and> le_longget (le_longstore b) = b \<and> le_longlongget (le_longlongstore c) = c \<and>
   be_shortget (be_shortstore a) = a \<and> be_longget (be_longstore b) = b \<and> be_longlongget (be_longlongstore c) = c \<and>
   be_float4store (rev [m0, m1, m2, m3]) = le_float4store [m0, m1, m2, m3] \<and>
   be_float4get (be_float4store [m0, m1, m2, m3]) = [m0, m1, m2, m3] \<and>
   be_float8store (rev [m0, m1, m2, m3, m4, m5, m6, m7]) = le_float8store [m0, m1, m2, m3, m4, m5, m6, m7] \<and>
   be_float8get (be_float8store [m0, m1, m2, m3, m4, m5, m6, m7]) = [m0, m1, m2, m3, m4, m5, m6, m7] \<and>
   bi_doubleget (bi_doublestore [m0, m1, m2, m3, m4, m5, m6, m7]) = [m0, m1, m2, m3, m4, m5, m6, m7]"
proof -
  have "le_shortget (le_shortstore a) = a" "le_longget (le_longstore b) = b"
    using korr_2 [of a] korr_4 [of b]
    by (simp_all add: le_shortget_def le_shortstore_def le_longget_def le_longstore_def sint2korr_def
        uint2korr_def sint4korr_def uint4korr_def)
  with longlong [of c] be_short [of a] be_long [of b] show ?thesis
    by (simp add: be_float4store_def le_float4store_def be_float4get_def be_float8store_def le_float8store_def
        be_float8get_def bi_doubleget_def bi_doublestore_def)
qed

section \<open>The overloads for char\<close>

text \<open>
  In C++ the functions also take a \<open>char *\<close>, which they cast: the bytes stay what they are. A \<open>char\<close> is the
  8-bit word of its byte, whose sign nothing here reads.
\<close>

definition char_sint2korr :: "u8 list \<Rightarrow> s16" where "char_sint2korr pT = sint2korr pT"
definition char_uint2korr :: "u8 list \<Rightarrow> u16" where "char_uint2korr pT = uint2korr pT"
definition char_uint3korr :: "u8 list \<Rightarrow> u32" where "char_uint3korr pT = uint3korr pT"
definition char_sint3korr :: "u8 list \<Rightarrow> s32" where "char_sint3korr pT = sint3korr pT"
definition char_uint4korr :: "u8 list \<Rightarrow> u32" where "char_uint4korr pT = uint4korr pT"
definition char_sint4korr :: "u8 list \<Rightarrow> s32" where "char_sint4korr pT = sint4korr pT"
definition char_uint6korr :: "u8 list \<Rightarrow> u64" where "char_uint6korr pT = uint6korr pT"
definition char_uint8korr :: "u8 list \<Rightarrow> u64" where "char_uint8korr pT = uint8korr pT"
definition char_sint8korr :: "u8 list \<Rightarrow> 64 word" where "char_sint8korr pT = sint8korr pT"
definition char_int2store :: "u16 \<Rightarrow> u8 list" where "char_int2store A = int2store A"
definition char_int3store :: "u32 \<Rightarrow> u8 list" where "char_int3store A = int3store A"
definition char_int4store :: "u32 \<Rightarrow> u8 list" where "char_int4store A = int4store A"
definition char_int5store :: "u64 \<Rightarrow> u8 list" where "char_int5store A = int5store A"
definition char_int6store :: "u64 \<Rightarrow> u8 list" where "char_int6store A = int6store A"
definition char_int8store :: "u64 \<Rightarrow> u8 list" where "char_int8store A = int8store A"
definition char_float4store :: "u8 list \<Rightarrow> u8 list" where "char_float4store V = le_float4store V"
definition char_float8get :: "u8 list \<Rightarrow> u8 list" where "char_float8get V = le_float8get V"
definition char_float8store :: "u8 list \<Rightarrow> u8 list" where "char_float8store V = le_float8store V"

lemmas char_defs = char_sint2korr_def char_uint2korr_def char_uint3korr_def char_sint3korr_def char_uint4korr_def
  char_sint4korr_def char_uint6korr_def char_uint8korr_def char_sint8korr_def char_int2store_def char_int3store_def
  char_int4store_def char_int5store_def char_int6store_def char_int8store_def char_float4store_def
  char_float8get_def char_float8store_def

text \<open>
  What is stored through one kind of pointer is read through the other, signed or not. There is no overload of
  \<open>uint5korr\<close>: a number of five bytes is read through an unsigned pointer only.
\<close>

lemma char_stored_is_read:
  "char_uint2korr (int2store a) = a" "char_uint3korr (int3store b) = take_bit 24 b" "char_uint4korr (int4store b) = b"
  "char_uint6korr (int6store c) = take_bit 48 c" "char_uint8korr (int8store c) = c" "char_sint2korr (int2store a) = a"
  "char_sint3korr (int3store b) = signed_take_bit 23 b" "char_sint4korr (int4store b) = b"
  "char_sint8korr (int8store c) = c" "uint5korr (char_int5store c) = take_bit 40 c"
proof -
  show "char_sint2korr (int2store a) = a" "char_sint4korr (int4store b) = b"
    using korr_2 [of a] korr_4 [of b] by (simp_all add: char_defs sint2korr_def uint2korr_def sint4korr_def uint4korr_def)
  show "char_sint8korr (int8store c) = c" using korr_8 [of c] by (simp add: char_defs sint8korr_def)
qed (simp_all add: char_defs korr_2 korr_3 korr_4 korr_5 korr_6 korr_8 korr_s3)

lemma char_float8: "char_float8get (char_float8store [m0, m1, m2, m3, m4, m5, m6, m7]) = [m0, m1, m2, m3, m4, m5, m6, m7]"
  by (simp add: char_defs le_float8get_def le_float8store_def)

end
