(* ===== verification/Spec2Isabelle.thy ===== *)
theory Spec2Isabelle
  imports Star_Prelude Star_Wire Star_CRC Star_Text Star_Config Star_Socket Star_Client Star_Send
    Star_Pack Star_Recv Star_State Star_Files Star_Views Star_BigData Star_Protocol Star_Answer
    Star_Room Star_DB Star_Server Star_Init Star_Thread Star_Steps Star_Logins Star_Race Star_Channel
    Star_Senders Star_Interleaved Star_Session Star_Game Star_Log Star_ByteOrder
begin

text \<open>
  A model of the StarServer game server: the socket library StarSocketServer.cpp and .h, the callbacks
  of GameServer.cpp and main.cpp, all under src/StarServer/, and the byte-order functions of the MySQL
  client headers under src/MySQL/include/.

  \<^bold>\<open>The program.\<close> \<open>main\<close> registers three callbacks, calls \<open>STSV_Init\<close>, waits for the key \<open>q\<close> and calls
  \<open>STSV_Stop\<close>. \<open>STSV_Init\<close> reads config.sv2, sizes the tables (for the configured number of clients, or
  in the unlimited mode for the memory of the machine), connects a pool of MySQL connections and opens
  the listening socket. One thread accepts clients into free slots of the table \<open>s_Client_t\<close>; every
  client has a thread that polls its socket, receives one message, hands a data packet to the callback
  of the program and answers with what the program queued, or with a confirmation. Packets carry up to
  62 blocks of at most 1024 bytes, a number, a CRC16, and optionally a part of a file.

  \<^bold>\<open>Modelling.\<close> The state of the server is the record \<open>server\<close> of Star_State, with one field per static
  variable of StarSocketServer.cpp (the configured ones in the record \<open>config\<close>), the connections behind the
  sockets and the files. A \<open>Client_t *\<close> is an index into \<open>s_Client_t\<close>; a pointer into a buffer of the client
  is an offset. An operation takes the state and returns \<open>Inr\<close> of its result and the new state, or
  \<open>Inl\<close> of the way in which C code stops: an access out of bounds, a null pointer, a second lock of a
  mutex, a call that waits for ever. Numbers that are sent, compared or wrapped keep their width as
  words (\<open>u8\<close>, \<open>s16\<close>, \<open>u32\<close> and so on, LP64, little endian); counters that stay far from their limits are
  integers. The operations keep the names of the code, without a leading underscore.

  \<^bold>\<open>Theories, in the order of the code they rest on.\<close>
  \<^item> Star_Prelude: integers, errors, \<open>bindR\<close>, bounded memory (\<open>load\<close>, \<open>store\<close>), codecs; the locales of an
    integer codec and of a search loop (\<open>slot_search\<close>), the rules \<open>ensures_rules\<close> by which a
    property is carried through a handler.
  \<^item> Star_Wire: the \<open>#define\<close>s of the message types and replies and the packed headers of
    StarSocketServer.h.
  \<^item> Star_CRC: \<open>_InitCRC8Table\<close>, \<open>_InitCRC16Table\<close>, \<open>_InitCRC32Table\<close>, \<open>STOS_CRC8\<close>, \<open>STOS_CRC16\<close>, \<open>STOS_CRC32\<close>. The
    tables equal a bit-serial register; a CRC16 detects every burst of 16 bits.
  \<^item> Star_Text, Star_Config: C strings, \<open>printdigit\<close>, \<open>GetStringValueConfig\<close>, \<open>ReadConfigFile\<close>.
  \<^item> Star_Socket: \<open>Read\<close>, \<open>ReadFrom\<close>, \<open>WriteTo\<close> and the body of \<open>WriteAll\<close>. A connection is a script: what
    each \<open>recv\<close> finds and how much each \<open>send\<close> takes. A loop consumes one event per round, so it is
    structural recursion, and a script that is used up is a call that waits.
  \<^item> Star_Client, Star_Send, Star_Pack, Star_Recv: \<open>Client_t\<close> and its invariant, \<open>STSV_SendData\<close> refining an
    abstract queue, \<open>_PackDataWithPacket\<close> and \<open>_PackDataWithCRC16\<close> against the specified packet,
    \<open>_processMessagePacket\<close> and \<open>STSV_GetData\<close> as its inverse.
  \<^item> Star_State, Star_Files, Star_Views, Star_BigData: the state, temporary and sent files
    (\<open>_ProessMessageBigData\<close>, \<open>_ProessMessageFileData\<close>, \<open>_PackDataWithBigData\<close>), what taking a packet apart
    leaves alone (the locale \<open>kept_view\<close>), the pool of big-data blocks, sequentially and as interleaved
    steps of threads.
  \<^item> Star_Protocol, Star_Answer: \<open>processMessageBuffer\<close> with one definition per message type,
    \<open>StartPackSendData\<close>, \<open>EndPackSendData\<close>; packets are accepted in increasing order, only with their
    checksum, and answered once; a retransmission sends the same bytes.
  \<^item> Star_Room: the lobby behind \<open>USE_LOBBY\<close>, which no file of the repository defines; \<open>STSV_CreateRoom\<close> also
    statement by statement in several threads, two of which can get the same room.
  \<^item> Star_DB: the pool of MySQL connections (\<open>STDB_Connect\<close> to \<open>STSV_DBSaveFile\<close>) over a record of the
    functions of the client library; its locking also as interleaved steps of threads.
  \<^item> Star_Server: \<open>CreateServer\<close>, \<open>AcceptConnection\<close>, \<open>AcceptConnectionUDP\<close>, \<open>WriteAll\<close>, \<open>STSV_Stop\<close> and the
    accessors. Star_Init: \<open>CheckLimite\<close>, \<open>InitServerLimit\<close>, \<open>InitServerUnlimit\<close>, \<open>STSV_Init\<close>.
  \<^item> Star_Thread: \<open>STSV_ClientThreadFuncAlway\<close> with the contract of a callback as the locale
    \<open>client_callbacks\<close>; every handler is shown to keep that contract (\<open>served\<close>). Star_Steps: the accepting thread,
    the client threads and the program as a step relation, with the invariant of the table of clients.
    Star_Logins: accepting and serving with the multiset of the running threads, which the login count counts; there
    every update of the count is a load and a store, and what stores overwrite of each other is recorded. Star_Race:
    the executions that lose updates, and what they do to the server.
  \<^item> Star_Channel: \<open>STSV_SendData\<close> and \<open>EndPackSendData\<close> in any order refine an abstract channel of messages; what a
    retransmission sends after more was queued. Star_Senders, Star_Interleaved: the same two operations statement by
    statement, in any number of threads; what they do is a sequence of whole operations, each taking effect at its
    unlock, or where \<open>EndPackSendData\<close> looks at the queue and finds it empty; and what a retransmission, which takes no
    lock, reads in between. Star_Session: the conversation with a client, request by
    request, for a callback that answers.
  \<^item> Star_Game: the callbacks of GameServer.cpp, which meet the contract, the conversation of a client with
    them, and \<open>main\<close>.
  \<^item> Star_Log: \<open>_StartServerLog\<close>, \<open>LogString\<close> on a formatted text and its flag, which is no lock, \<open>STOS_GetTickCount\<close>, \<open>GetTimeMillisec\<close>.
    Star_ByteOrder: my_byteorder.h, byte_order_generic.h, byte_order_generic_x86.h, little_endian.h and
    big_endian.h.

  \<^bold>\<open>What the properties say.\<close> The path of a packet: queueing, packing, the network in pieces of any size,
  the checks, the callback, the answer, retransmission and confirmation; composed, the life of a client from its
  connection to the end of its thread, in which each valid request gets exactly one answer, and a channel that loses, repeats and reorders nothing. Invariants: the references of a
  connection increase; a start establishes, and every order of operations keeps, the shape of the
  tables; a block of the pool and a connection of the database have one holder; threads that queue and the thread that sends exclude each other; the login count
  is the number of the client threads up to the updates that are lost. Ends: the thread of
  a client always leaves it offline with its socket closed; a silent client is let go; \<open>main\<close> goes on without a \<open>q\<close> and ends
  with one. \<open>ReadFrom\<close> and \<open>WriteTo\<close> have their outcome stated for every script of the system. Equivalences and round trips of checksums, numbers, configuration and files. Properties of kind
  error state what the code does where it goes wrong: a packet that is overwritten before it is sent again, a count
  of logins that drifts, a slot that keeps old data, a missing callback.

  \<^bold>\<open>Bounds and fuel.\<close> There is no fuel apart from the scripts: the loops of a client thread and of \<open>main\<close>
  recurse over the list of their polls, and a list that ends stands for a thread that waits. The
  properties that promise an end give scripts that are long enough, and say how long that is. The
  search loops run over the configured number of slots.

  \<^bold>\<open>Parameters.\<close> Not under src/, so arguments of the definitions: the results of the system calls (records
  \<open>os_results\<close>, \<open>accept_os\<close>, \<open>udp_os\<close>), what \<open>malloc\<close> returns and the limits of the machine (\<open>init_env\<close>), the MySQL
  client library (\<open>mysql_api\<close>), local time (\<open>tm\<close>), the keyboard, and callbacks other than those of the
  repository.

  \<^bold>\<open>Not modelled.\<close> Output to the terminal, and the calls of \<open>LogString\<close> inside the other components (they do not
  change what those compute); the formatting of a query by \<open>vsprintf\<close> (the text is an argument); addresses
  of peers; \<open>s_localID\<close>, which nothing reads; \<open>STSV_ClientThreadFunc\<close>, which is commented out; interleavings inside an
  operation, other than in the two pools, of the login count, of the lock of the log, of creating rooms, and of queueing with
  sending and retransmission; the waiting of \<open>pthread_join\<close>, so that a slot can be given away while its thread is still
  at its end (the invariants hold for these executions too); two threads on one file, and two clients whose slots share a socket number. The other MySQL
  headers declare a linked library, and nothing of what they declare is implemented in the repository.
\<close>

end
